(* ===== verification/Prelude.thy ===== *)
theory Prelude
  imports Main "HOL-Library.Word" "HOL-Library.AList" "HOL-Library.Sublist"
begin

text \<open>
  Shared vocabulary of the development: the types every component uses, the outcome of code that
  may panic, results with the error on the left, and the hash map of the Rust standard library as
  an association list behind a locale.
\<close>

named_theorems str_simps \<open>facts on the string functions of the Rust standard library\<close>
named_theorems model_defs \<open>definitions of the model that evaluation unfolds\<close>

section \<open>Types\<close>

text \<open>
  A HOL \<open>char\<close> is an 8-bit value, so a \<open>string\<close> is a sequence of bytes: a Rust \<^verbatim>\<open>Vec<u8>\<close>
  as it stands, and a Rust \<^verbatim>\<open>str\<close> as its UTF-8 bytes (\<open>as_bytes\<close> is the identity and
  \<^verbatim>\<open>len\<close> is \<open>length\<close>). \<^verbatim>\<open>Instant\<close> and \<^verbatim>\<open>Duration\<close> are nanoseconds.
\<close>

type_synonym bytes = "char list"
type_synonym instant = nat
type_synonym duration = nat

type_synonym ('e, 'a) result = "'e + 'a"

abbreviation Err :: "'e \<Rightarrow> ('e, 'a) result" where
  "Err \<equiv> Inl"

abbreviation Ok :: "'a \<Rightarrow> ('e, 'a) result" where
  "Ok \<equiv> Inr"

fun is_ok :: "('e, 'a) result \<Rightarrow> bool" where
  "is_ok (Inr _) = True"
| "is_ok (Inl _) = False"

text \<open>The \<^verbatim>\<open>?\<close> operator: the first error ends the function.\<close>

fun and_then :: "('e, 'a) result \<Rightarrow> ('a \<Rightarrow> ('e, 'b) result) \<Rightarrow> ('e, 'b) result" where
  "and_then (Inl e) k = Inl e"
| "and_then (Inr a) k = k a"

lemma and_then_Inr [simp]:
  "and_then r k = Inr b \<longleftrightarrow> (\<exists>a. r = Inr a \<and> k a = Inr b)"
  by (cases r) auto

lemma and_then_Inl:
  "and_then r k = Inl e \<longleftrightarrow> r = Inl e \<or> (\<exists>a. r = Inr a \<and> k a = Inl e)"
  by (cases r) auto

text \<open>\<^verbatim>\<open>collect\<close> of an iterator of results: the values in order, or the first error.\<close>

fun collect_results :: "('e, 'a) result list \<Rightarrow> ('e, 'a list) result" where
  "collect_results [] = Inr []"
| "collect_results (Inl e # _) = Inl e"
| "collect_results (Inr a # rs) = and_then (collect_results rs) (\<lambda>as. Inr (a # as))"

lemma collect_results_Inr:
  "collect_results rs = Inr as \<longleftrightarrow> rs = map Inr as"
  by (induction rs arbitrary: as rule: collect_results.induct) (auto simp: Cons_eq_map_conv)

lemma collect_results_Inl:
  "collect_results rs = Inl e \<Longrightarrow> Inl e \<in> set rs"
  by (induction rs rule: collect_results.induct) (auto simp: and_then_Inl)

text \<open>Code that may panic: \<open>Panic\<close> unwinds the calling task, \<open>Done\<close> returns.\<close>

datatype 'a outcome = Panic | Done 'a

section \<open>Hash maps\<close>

text \<open>
  \<^verbatim>\<open>HashMap\<close>: the laws its clients rely on. Iteration order is not one of them. The model's
  maps are association lists with distinct keys, so every operation computes.
\<close>

locale hash_map =
  fixes empty_map :: 'm
    and get :: "'m \<Rightarrow> 'k \<Rightarrow> 'v option"
    and insert_map :: "'k \<Rightarrow> 'v \<Rightarrow> 'm \<Rightarrow> 'm"
    and remove_map :: "'k \<Rightarrow> 'm \<Rightarrow> 'm"
    and retain :: "('k \<Rightarrow> 'v \<Rightarrow> bool) \<Rightarrow> 'm \<Rightarrow> 'm"
    and len :: "'m \<Rightarrow> nat"
    and invar :: "'m \<Rightarrow> bool"
  assumes get_empty: "get empty_map k = None"
    and get_insert: "invar m \<Longrightarrow> get (insert_map k v m) = (get m)(k \<mapsto> v)"
    and get_remove: "invar m \<Longrightarrow> get (remove_map k m) = (get m)(k := None)"
    and get_retain: "invar m \<Longrightarrow> get (retain p m) k =
          (case get m k of None \<Rightarrow> None | Some v \<Rightarrow> if p k v then Some v else None)"
    and finite_dom: "invar m \<Longrightarrow> finite (dom (get m))"
    and len_card: "invar m \<Longrightarrow> len m = card (dom (get m))"
    and invar_empty: "invar empty_map"
    and invar_insert: "invar m \<Longrightarrow> invar (insert_map k v m)"
    and invar_remove: "invar m \<Longrightarrow> invar (remove_map k m)"
    and invar_retain: "invar m \<Longrightarrow> invar (retain p m)"
begin

lemma len_insert_absent:
  "invar m \<Longrightarrow> get m k = None \<Longrightarrow> len (insert_map k v m) = Suc (len m)"
  by (simp add: len_card invar_insert get_insert finite_dom domIff)

lemma len_insert_present:
  "invar m \<Longrightarrow> get m k = Some w \<Longrightarrow> len (insert_map k v m) = len m"
  by (simp add: len_card invar_insert get_insert finite_dom insert_absorb domI)

lemma len_remove_le: "invar m \<Longrightarrow> len (remove_map k m) \<le> len m"
  by (simp add: len_card invar_remove get_remove finite_dom card_Diff1_le)

lemma len_retain_le: "invar m \<Longrightarrow> len (retain p m) \<le> len m"
  by (auto simp: len_card invar_retain finite_dom dom_def get_retain split: option.splits if_splits
      intro!: card_mono finite_subset [OF _ finite_dom [of m]])

end

type_synonym ('k, 'v) hmap = "('k \<times> 'v) list"

abbreviation hget :: "('k, 'v) hmap \<Rightarrow> 'k \<Rightarrow> 'v option" where
  "hget \<equiv> map_of"

abbreviation hinsert :: "'k \<Rightarrow> 'v \<Rightarrow> ('k, 'v) hmap \<Rightarrow> ('k, 'v) hmap" where
  "hinsert \<equiv> AList.update"

abbreviation hremove :: "'k \<Rightarrow> ('k, 'v) hmap \<Rightarrow> ('k, 'v) hmap" where
  "hremove \<equiv> AList.delete"

definition hretain :: "('k \<Rightarrow> 'v \<Rightarrow> bool) \<Rightarrow> ('k, 'v) hmap \<Rightarrow> ('k, 'v) hmap" where
  "hretain p m = filter (\<lambda>(k, v). p k v) m"

abbreviation hwf :: "('k, 'v) hmap \<Rightarrow> bool" where
  "hwf m \<equiv> distinct (map fst m)"

lemma hretain_simps [simp]:
  "hretain p [] = []"
  "hretain p ((k, v) # m) = (if p k v then (k, v) # hretain p m else hretain p m)"
  by (simp_all add: hretain_def)

lemma hretain_keys: "fst ` set (hretain p m) \<subseteq> fst ` set m"
  by (auto simp: hretain_def)

lemma hwf_hretain: "hwf m \<Longrightarrow> hwf (hretain p m)"
  by (induction m) (auto simp: hretain_def)

lemma hget_hretain:
  "hwf m \<Longrightarrow> hget (hretain p m) k =
     (case hget m k of None \<Rightarrow> None | Some v \<Rightarrow> if p k v then Some v else None)"
proof (induction m)
  case Nil
  then show ?case by simp
next
  case (Cons kv m)
  obtain k' v' where kv: "kv = (k', v')" by (cases kv)
  have "k' \<notin> fst ` set m" using Cons.prems kv by simp
  then have "hget m k' = None" by (simp add: map_of_eq_None_iff)
  then show ?case using Cons kv by auto
qed

lemma hlen_card: "hwf m \<Longrightarrow> length m = card (dom (hget m))"
  by (metis distinct_card dom_map_of_conv_image_fst length_map list.set_map)

interpretation hm: hash_map "[]" hget hinsert hremove hretain length hwf
proof unfold_locales
  fix m :: "('k, 'v) hmap" and k v
  show "hget (hinsert k v m) = (hget m)(k \<mapsto> v)"
    by (simp add: update_conv')
  show "hget (hremove k m) = (hget m)(k := None)"
    by (simp add: delete_conv')
qed (auto simp: hget_hretain finite_dom_map_of hlen_card hwf_hretain
      distinct_update distinct_delete)

lemmas hash_map_laws = hm.get_insert hm.get_remove hm.get_retain
  hm.invar_insert hm.invar_remove hm.invar_retain

end
