(* ===== verification/Commands.thy ===== *)
theory Commands
  imports Prelude
begin

text \<open>
  The command tables of \<^verbatim>\<open>src/commands.rs\<close>: the default allowlist, the commands the bridge
  refuses whatever its configuration, and the two profiles that scope an exception to a token type.
\<close>

definition ALLOWED_COMMANDS :: "string list" where
  "ALLOWED_COMMANDS = [
    ''APPEND'', ''BITCOUNT'', ''BITOP'', ''BITPOS'', ''DECR'', ''DECRBY'', ''DEL'', ''EXISTS'',
    ''EXPIRE'', ''EXPIREAT'', ''GET'', ''GETBIT'', ''GETDEL'', ''GETEX'', ''GETRANGE'',
    ''GETSET'', ''HDEL'', ''HEXISTS'', ''HGET'', ''HGETALL'', ''HINCRBY'', ''HINCRBYFLOAT'',
    ''HKEYS'', ''HLEN'', ''HMGET'', ''HMSET'', ''HRANDFIELD'', ''HSCAN'', ''HSET'', ''HSETNX'',
    ''HSTRLEN'', ''HVALS'', ''INCR'', ''INCRBY'', ''INCRBYFLOAT'', ''LINDEX'', ''LLEN'',
    ''LMOVE'', ''LPOP'', ''LPOS'', ''LPUSH'', ''LRANGE'', ''LREM'', ''LSET'', ''LTRIM'',
    ''MGET'', ''MSET'', ''MSETNX'', ''PERSIST'', ''PEXPIRE'', ''PEXPIREAT'', ''PFADD'',
    ''PFCOUNT'', ''PFMERGE'', ''PING'', ''PSETEX'', ''PTTL'', ''RPOP'', ''RPOPLPUSH'', ''RPUSH'',
    ''SADD'', ''SCAN'', ''SCARD'', ''SDIFF'', ''SDIFFSTORE'', ''SET'', ''SETBIT'', ''SETEX'',
    ''SETNX'', ''SETRANGE'', ''SINTER'', ''SINTERSTORE'', ''SISMEMBER'', ''SMEMBERS'',
    ''SMISMEMBER'', ''SMOVE'', ''SPOP'', ''SRANDMEMBER'', ''SREM'', ''SSCAN'', ''STRLEN'',
    ''SUNION'', ''SUNIONSTORE'', ''TTL'', ''TYPE'', ''UNLINK'', ''XADD'', ''XDEL'', ''XLEN'',
    ''XRANGE'', ''XREVRANGE'', ''XTRIM'', ''ZADD'', ''ZCARD'', ''ZCOUNT'', ''ZDIFF'',
    ''ZDIFFSTORE'', ''ZINCRBY'', ''ZINTER'', ''ZINTERSTORE'', ''ZLEXCOUNT'', ''ZMSCORE'',
    ''ZPOPMAX'', ''ZPOPMIN'', ''ZRANGE'', ''ZRANGEBYLEX'', ''ZRANGEBYSCORE'', ''ZRANK'',
    ''ZREM'', ''ZREMRANGEBYLEX'', ''ZREMRANGEBYRANK'', ''ZREMRANGEBYSCORE'', ''ZREVRANGE'',
    ''ZREVRANGEBYLEX'', ''ZREVRANGEBYSCORE'', ''ZREVRANK'', ''ZSCAN'', ''ZSCORE'', ''ZUNION'',
    ''ZUNIONSTORE'']"

definition DENIED_COMMANDS :: "string list" where
  "DENIED_COMMANDS = [
    ''EVAL'', ''EVAL_RO'', ''EVALSHA'', ''EVALSHA_RO'', ''FCALL'', ''FCALL_RO'', ''FUNCTION'',
    ''SCRIPT'', ''ACL'', ''CLIENT'', ''CLUSTER'', ''COMMAND'', ''CONFIG'', ''MODULE'',
    ''XGROUP'', ''ASKING'', ''AUTH'', ''HELLO'', ''QUIT'', ''READONLY'', ''READWRITE'',
    ''RESET'', ''SELECT'', ''DISCARD'', ''EXEC'', ''MULTI'', ''UNWATCH'', ''WATCH'',
    ''BGREWRITEAOF'', ''BGSAVE'', ''BLMOVE'', ''BLMPOP'', ''BLPOP'', ''BRPOP'', ''BRPOPLPUSH'',
    ''BZPOPMAX'', ''BZPOPMIN'', ''BZMPOP'', ''DBSIZE'', ''DEBUG'', ''FLUSHALL'', ''FLUSHDB'',
    ''INFO'', ''KEYS'', ''LASTSAVE'', ''LATENCY'', ''MEMORY'', ''MIGRATE'', ''MONITOR'',
    ''PSUBSCRIBE'', ''PSYNC'', ''PUNSUBSCRIBE'', ''PUBLISH'', ''PUBSUB'', ''REPLCONF'',
    ''REPLICAOF'', ''RESTORE'', ''ROLE'', ''SAVE'', ''SHUTDOWN'', ''SLAVEOF'', ''SLOWLOG'',
    ''SORT'', ''SORT_RO'', ''SSUBSCRIBE'', ''SUNSUBSCRIBE'', ''SUBSCRIBE'', ''SWAPDB'', ''SYNC'',
    ''UNSUBSCRIBE'', ''WAIT'', ''WAITAOF'', ''XREAD'', ''XREADGROUP'']"

definition RATELIMIT_COMMANDS :: "string list" where
  "RATELIMIT_COMMANDS = [
    ''EVAL'', ''EVALSHA'', ''SCRIPT'']"

definition REALTIME_COMMANDS :: "string list" where
  "REALTIME_COMMANDS = [
    ''EXPIRE'', ''PUBLISH'', ''XADD'', ''XRANGE'']"

definition CONNECTION_COMMANDS :: "string list" where
  "CONNECTION_COMMANDS = [
    ''SELECT'', ''HELLO'', ''RESET'', ''ASKING'', ''READONLY'', ''READWRITE'']"

lemmas command_tables = ALLOWED_COMMANDS_def DENIED_COMMANDS_def RATELIMIT_COMMANDS_def
  REALTIME_COMMANDS_def

lemma allowed_not_denied: "list_all (\<lambda>c. c \<notin> set DENIED_COMMANDS) ALLOWED_COMMANDS"
  by code_simp

lemma ratelimit_denied: "set RATELIMIT_COMMANDS \<subseteq> set DENIED_COMMANDS"
  by code_simp

lemma realtime_denied: "set REALTIME_COMMANDS \<inter> set DENIED_COMMANDS = {''PUBLISH''}"
  by code_simp

lemma connection_denied: "set CONNECTION_COMMANDS \<subseteq> set DENIED_COMMANDS"
  by code_simp

lemma connection_not_scoped:
  "set CONNECTION_COMMANDS \<inter> (set RATELIMIT_COMMANDS \<union> set REALTIME_COMMANDS) = {}"
  by code_simp

lemma script_in_ratelimit: "''SCRIPT'' \<in> set RATELIMIT_COMMANDS"
  by (simp add: RATELIMIT_COMMANDS_def)

lemma script_not_realtime: "''SCRIPT'' \<notin> set REALTIME_COMMANDS"
  by (simp add: REALTIME_COMMANDS_def)

end
