(* ===== verification/Rust_Str.thy ===== *)
theory Rust_Str
  imports Prelude
begin

text \<open>
  The functions of Rust's \<^verbatim>\<open>str\<close>, \<^verbatim>\<open>u8\<close> and integer types that the bridge calls, on UTF-8 bytes.
  Trimming and splitting at Unicode white space look for the UTF-8 encoding of a white-space
  character at the front (or the back) of the bytes; UTF-8 is self-synchronising, so on a valid
  string these are exactly the white-space characters.
\<close>

section \<open>White space\<close>

abbreviation byte :: "char \<Rightarrow> nat" where
  "byte c \<equiv> of_char c"

definition ascii_ws :: "char \<Rightarrow> bool" where
  "ascii_ws a \<longleftrightarrow> byte a = 32 \<or> (9 \<le> byte a \<and> byte a \<le> 13)"

text \<open>U+0085 and U+00A0.\<close>

definition ws2 :: "char \<Rightarrow> char \<Rightarrow> bool" where
  "ws2 a b \<longleftrightarrow> byte a = 0xC2 \<and> (byte b = 0x85 \<or> byte b = 0xA0)"

text \<open>U+1680, U+2000 to U+200A, U+2028, U+2029, U+202F, U+205F and U+3000.\<close>

definition ws3 :: "char \<Rightarrow> char \<Rightarrow> char \<Rightarrow> bool" where
  "ws3 a b c \<longleftrightarrow>
     (byte a = 0xE1 \<and> byte b = 0x9A \<and> byte c = 0x80) \<or>
     (byte a = 0xE2 \<and> byte b = 0x80 \<and>
        (0x80 \<le> byte c \<and> byte c \<le> 0x8A \<or> byte c = 0xA8 \<or> byte c = 0xA9 \<or> byte c = 0xAF)) \<or>
     (byte a = 0xE2 \<and> byte b = 0x81 \<and> byte c = 0x9F) \<or>
     (byte a = 0xE3 \<and> byte b = 0x80 \<and> byte c = 0x80)"

text \<open>The number of bytes of the white-space character in front, 0 if there is none.\<close>

fun ws_len :: "string \<Rightarrow> nat" where
  "ws_len [] = 0"
| "ws_len [a] = (if ascii_ws a then 1 else 0)"
| "ws_len [a, b] = (if ascii_ws a then 1 else if ws2 a b then 2 else 0)"
| "ws_len (a # b # c # s) =
     (if ascii_ws a then 1 else if ws2 a b then 2 else if ws3 a b c then 3 else 0)"

text \<open>The same for the character at the back, on the reversed bytes.\<close>

fun ws_len_back :: "string \<Rightarrow> nat" where
  "ws_len_back [] = 0"
| "ws_len_back [a] = (if ascii_ws a then 1 else 0)"
| "ws_len_back [a, b] = (if ascii_ws a then 1 else if ws2 b a then 2 else 0)"
| "ws_len_back (a # b # c # s) =
     (if ascii_ws a then 1 else if ws2 b a then 2 else if ws3 c b a then 3 else 0)"

lemma ws_len_le: "ws_len s \<le> length s"
  by (induction s rule: ws_len.induct) auto

lemma ws_len_back_le: "ws_len_back s \<le> length s"
  by (induction s rule: ws_len_back.induct) auto

lemma drop_ws_shorter: "0 < ws_len s \<Longrightarrow> length s - ws_len s < length s"
  using ws_len_le [of s] by linarith

lemma drop_ws_back_shorter: "0 < ws_len_back s \<Longrightarrow> length s - ws_len_back s < length s"
  using ws_len_back_le [of s] by linarith

section \<open>Trimming\<close>

function trim_start :: "string \<Rightarrow> string" where
  "trim_start s = (if ws_len s = 0 then s else trim_start (drop (ws_len s) s))"
  by pat_completeness auto
termination
  by (relation "measure length") (auto simp: drop_ws_shorter)

function trim_back :: "string \<Rightarrow> string" where
  "trim_back s = (if ws_len_back s = 0 then s else trim_back (drop (ws_len_back s) s))"
  by pat_completeness auto
termination
  by (relation "measure length") (auto simp: drop_ws_back_shorter)

declare trim_start.simps [simp del] trim_back.simps [simp del]

definition trim_end :: "string \<Rightarrow> string" where
  "trim_end s = rev (trim_back (rev s))"

definition trim :: "string \<Rightarrow> string" where
  "trim s = trim_end (trim_start s)"

lemma trim_start_fixed: "ws_len s = 0 \<Longrightarrow> trim_start s = s"
  by (simp add: trim_start.simps)

lemma trim_back_fixed: "ws_len_back s = 0 \<Longrightarrow> trim_back s = s"
  by (simp add: trim_back.simps)

lemma trim_start_suffix: "suffix (trim_start s) s"
proof (induction s rule: trim_start.induct)
  case (1 s)
  show ?case
  proof (cases "ws_len s = 0")
    case True
    then show ?thesis by (simp add: trim_start_fixed)
  next
    case False
    then have "suffix (trim_start (drop (ws_len s) s)) (drop (ws_len s) s)"
      by (rule 1)
    then have "suffix (trim_start (drop (ws_len s) s)) s"
      using suffix_drop suffix_order.trans by blast
    then show ?thesis using False by (subst trim_start.simps) simp
  qed
qed

lemma trim_back_suffix: "suffix (trim_back s) s"
proof (induction s rule: trim_back.induct)
  case (1 s)
  show ?case
  proof (cases "ws_len_back s = 0")
    case True
    then show ?thesis by (simp add: trim_back_fixed)
  next
    case False
    then have "suffix (trim_back (drop (ws_len_back s) s)) (drop (ws_len_back s) s)"
      by (rule 1)
    then have "suffix (trim_back (drop (ws_len_back s) s)) s"
      using suffix_drop suffix_order.trans by blast
    then show ?thesis using False by (subst trim_back.simps) simp
  qed
qed

lemma ws_len_trim_start [simp]: "ws_len (trim_start s) = 0"
  by (induction s rule: trim_start.induct) (subst trim_start.simps, simp)

lemma ws_len_back_trim_back [simp]: "ws_len_back (trim_back s) = 0"
  by (induction s rule: trim_back.induct) (subst trim_back.simps, simp)

lemma trim_start_idem: "trim_start (trim_start s) = trim_start s"
  by (simp add: trim_start_fixed)

lemma trim_end_prefix: "prefix (trim_end s) s"
  using trim_back_suffix [of "rev s"] by (simp add: trim_end_def suffix_to_prefix)

lemma trim_end_idem: "trim_end (trim_end s) = trim_end s"
  by (simp add: trim_end_def trim_back_fixed)

text \<open>A shorter front part of a string has no white space in front if the string has none.\<close>

lemma ws_len_prefix: "prefix t s \<Longrightarrow> ws_len s = 0 \<Longrightarrow> ws_len t = 0"
  by (induction t rule: ws_len.induct)
     (auto simp: prefix_Cons split: if_splits elim!: ws_len.elims)

lemma trim_idem [simp]: "trim (trim s) = trim s"
proof -
  have "ws_len (trim s) = 0"
    unfolding trim_def by (rule ws_len_prefix [OF trim_end_prefix]) simp
  then show ?thesis
    by (simp add: trim_def trim_start_fixed trim_end_idem)
qed

lemma trim_sublist: "set (trim s) \<subseteq> set s"
  using trim_start_suffix [of s] trim_end_prefix [of "trim_start s"]
  by (auto simp: trim_def dest: set_mono_suffix set_mono_prefix)

lemma length_trim: "length (trim s) \<le> length s"
  using trim_start_suffix [of s] trim_end_prefix [of "trim_start s"]
  by (auto simp: trim_def dest!: suffix_length_le prefix_length_le)

text \<open>A string of printable ASCII with no blank is its own trim.\<close>

definition graphic :: "char \<Rightarrow> bool" where
  "graphic c \<longleftrightarrow> 32 < byte c \<and> byte c < 127"

lemma graphic_not_ws: "graphic a \<Longrightarrow> \<not> ascii_ws a"
  by (auto simp: graphic_def ascii_ws_def)

lemma ws_len_graphic: "graphic a \<Longrightarrow> ws_len (a # s) = 0"
  by (cases "a # s" rule: ws_len.cases)
     (auto simp: graphic_not_ws ws2_def ws3_def graphic_def)

lemma ws_len_back_graphic: "graphic a \<Longrightarrow> ws_len_back (a # s) = 0"
  by (cases "a # s" rule: ws_len_back.cases)
     (auto simp: graphic_not_ws ws2_def ws3_def graphic_def)

lemma trim_graphic [str_simps]:
  assumes "list_all graphic s"
  shows "trim s = s"
proof (cases s)
  case Nil
  then show ?thesis by (simp add: trim_def trim_end_def trim_start.simps trim_back.simps)
next
  case (Cons a s')
  obtain b r where b: "rev s = b # r" using Cons by (cases "rev s") auto
  have "graphic b" using assms b
    by (metis list.set_intros(1) list_all_iff set_rev)
  moreover have "graphic a" using assms Cons by simp
  ultimately have "trim_start s = s" and "trim_back (rev s) = rev s"
    using Cons b by (simp_all only: trim_start_fixed trim_back_fixed ws_len_graphic
        ws_len_back_graphic)
  then show ?thesis by (simp add: trim_def trim_end_def)
qed

section \<open>ASCII case\<close>

definition ascii_upper :: "char \<Rightarrow> char" where
  "ascii_upper c = (if 97 \<le> byte c \<and> byte c \<le> 122 then char_of (byte c - 32) else c)"

definition ascii_lower :: "char \<Rightarrow> char" where
  "ascii_lower c = (if 65 \<le> byte c \<and> byte c \<le> 90 then char_of (byte c + 32) else c)"

definition to_ascii_uppercase :: "string \<Rightarrow> string" where
  "to_ascii_uppercase s = map ascii_upper s"

definition to_ascii_lowercase :: "string \<Rightarrow> string" where
  "to_ascii_lowercase s = map ascii_lower s"

definition eq_ignore_ascii_case :: "string \<Rightarrow> string \<Rightarrow> bool" where
  "eq_ignore_ascii_case s t \<longleftrightarrow> to_ascii_lowercase s = to_ascii_lowercase t"

lemma byte_char_of: "n < 256 \<Longrightarrow> byte (char_of n) = n"
  by (simp add: of_char_of)

lemma ascii_upper_idem [simp]: "ascii_upper (ascii_upper c) = ascii_upper c"
  by (auto simp: ascii_upper_def byte_char_of)

lemma ascii_lower_idem [simp]: "ascii_lower (ascii_lower c) = ascii_lower c"
  by (auto simp: ascii_lower_def byte_char_of)

lemma ascii_upper_lower [simp]: "ascii_upper (ascii_lower c) = ascii_upper c"
  by (auto simp: ascii_upper_def ascii_lower_def byte_char_of)

lemma to_ascii_uppercase_idem [simp]:
  "to_ascii_uppercase (to_ascii_uppercase s) = to_ascii_uppercase s"
  by (simp add: to_ascii_uppercase_def)

lemma length_to_ascii_uppercase [simp]: "length (to_ascii_uppercase s) = length s"
  by (simp add: to_ascii_uppercase_def)

lemma to_ascii_uppercase_eq_Nil [simp]: "to_ascii_uppercase s = [] \<longleftrightarrow> s = []"
  by (simp add: to_ascii_uppercase_def)

lemma byte_ascii_upper:
  "byte (ascii_upper c) = (if 97 \<le> byte c \<and> byte c \<le> 122 then byte c - 32 else byte c)"
  by (auto simp: ascii_upper_def byte_char_of)

text \<open>Changing the case of letters changes no white space, so it commutes with trimming.\<close>

lemma ascii_ws_upper [simp]: "ascii_ws (ascii_upper c) = ascii_ws c"
  by (auto simp: ascii_ws_def byte_ascii_upper)

lemma ws2_upper [simp]: "ws2 (ascii_upper a) (ascii_upper b) = ws2 a b"
  by (auto simp: ws2_def byte_ascii_upper)

lemma ws3_upper [simp]: "ws3 (ascii_upper a) (ascii_upper b) (ascii_upper c) = ws3 a b c"
  by (auto simp: ws3_def byte_ascii_upper)

lemma ws_len_upper [simp]: "ws_len (map ascii_upper s) = ws_len s"
  by (induction s rule: ws_len.induct) auto

lemma ws_len_back_upper [simp]: "ws_len_back (map ascii_upper s) = ws_len_back s"
  by (induction s rule: ws_len_back.induct) auto

lemma trim_start_upper: "trim_start (map ascii_upper s) = map ascii_upper (trim_start s)"
proof (induction s rule: trim_start.induct)
  case (1 s)
  then show ?case
    by (cases "ws_len s = 0")
       (simp_all add: trim_start.simps [of s] trim_start.simps [of "map ascii_upper s"] drop_map)
qed

lemma trim_back_upper: "trim_back (map ascii_upper s) = map ascii_upper (trim_back s)"
proof (induction s rule: trim_back.induct)
  case (1 s)
  then show ?case
    by (cases "ws_len_back s = 0")
       (simp_all add: trim_back.simps [of s] trim_back.simps [of "map ascii_upper s"] drop_map)
qed

lemma trim_to_ascii_uppercase:
  "trim (to_ascii_uppercase s) = to_ascii_uppercase (trim s)"
  by (simp add: trim_def trim_end_def to_ascii_uppercase_def trim_start_upper rev_map
      trim_back_upper)

section \<open>Splitting\<close>

text \<open>\<^verbatim>\<open>split(c)\<close>: always at least one piece.\<close>

fun split_on :: "char \<Rightarrow> string \<Rightarrow> string list" where
  "split_on d [] = [[]]"
| "split_on d (c # s) =
     (if c = d then [] # split_on d s
      else case split_on d s of [] \<Rightarrow> [[c]] | p # ps \<Rightarrow> (c # p) # ps)"

text \<open>\<^verbatim>\<open>join\<close> with a one-character separator.\<close>

fun join_with :: "char \<Rightarrow> string list \<Rightarrow> string" where
  "join_with d [] = []"
| "join_with d [p] = p"
| "join_with d (p # ps) = p @ d # join_with d ps"

text \<open>\<^verbatim>\<open>split_once(c)\<close>: around the first occurrence.\<close>

fun split_once :: "char \<Rightarrow> string \<Rightarrow> (string \<times> string) option" where
  "split_once d [] = None"
| "split_once d (c # s) =
     (if c = d then Some ([], s)
      else map_option (\<lambda>(a, b). (c # a, b)) (split_once d s))"

text \<open>\<^verbatim>\<open>rsplit_once(c)\<close>: around the last occurrence.\<close>

definition rsplit_once :: "char \<Rightarrow> string \<Rightarrow> (string \<times> string) option" where
  "rsplit_once d s = map_option (\<lambda>(b, a). (rev a, rev b)) (split_once d (rev s))"

text \<open>\<^verbatim>\<open>split_once(char::is_whitespace)\<close>: around the first white-space character.\<close>

fun split_once_ws :: "string \<Rightarrow> (string \<times> string) option" where
  "split_once_ws [] = None"
| "split_once_ws (c # s) =
     (if ws_len (c # s) = 0 then map_option (\<lambda>(a, b). (c # a, b)) (split_once_ws s)
      else Some ([], drop (ws_len (c # s)) (c # s)))"

text \<open>\<^verbatim>\<open>trim_matches(c)\<close> for one character.\<close>

definition trim_matches :: "char \<Rightarrow> string \<Rightarrow> string" where
  "trim_matches d s = rev (dropWhile ((=) d) (rev (dropWhile ((=) d) s)))"

fun strip_prefix :: "string \<Rightarrow> string \<Rightarrow> string option" where
  "strip_prefix [] s = Some s"
| "strip_prefix (c # p) (d # s) = (if c = d then strip_prefix p s else None)"
| "strip_prefix (c # p) [] = None"

lemma split_on_neq_Nil [simp]: "split_on d s \<noteq> []"
  by (cases s) (auto split: list.splits)

lemma join_with_Cons: "ps \<noteq> [] \<Longrightarrow> join_with d (p # ps) = p @ d # join_with d ps"
  by (cases ps) auto

lemma join_split_on [simp]: "join_with d (split_on d s) = s"
proof (induction s)
  case Nil
  then show ?case by simp
next
  case (Cons c s)
  obtain p ps where "split_on d s = p # ps"
    by (cases "split_on d s") auto
  then show ?case using Cons by (cases ps) auto
qed

lemma split_on_no_sep: "p \<in> set (split_on d s) \<Longrightarrow> d \<notin> set p"
  by (induction s arbitrary: p) (auto split: if_splits list.splits)

lemma split_on_plain: "d \<notin> set s \<Longrightarrow> split_on d s = [s]"
  by (induction s) auto

lemma split_on_append: "d \<notin> set p \<Longrightarrow> split_on d (p @ d # s) = p # split_on d s"
  by (induction p) auto

lemma split_join [simp]:
  "ps \<noteq> [] \<Longrightarrow> list_all (\<lambda>p. d \<notin> set p) ps \<Longrightarrow> split_on d (join_with d ps) = ps"
  by (induction d ps rule: join_with.induct) (auto simp: split_on_plain split_on_append)

lemma split_once_Some:
  "split_once d s = Some (a, b) \<longleftrightarrow> s = a @ d # b \<and> d \<notin> set a"
proof (induction s arbitrary: a)
  case Nil
  then show ?case by simp
next
  case (Cons c s)
  then show ?case by (cases a) auto
qed

lemma split_once_None: "split_once d s = None \<longleftrightarrow> d \<notin> set s"
  by (induction s) auto

lemma rsplit_once_Some:
  "rsplit_once d s = Some (a, b) \<longleftrightarrow> s = a @ d # b \<and> d \<notin> set b"
proof -
  have "rsplit_once d s = Some (a, b) \<longleftrightarrow> split_once d (rev s) = Some (rev b, rev a)"
    by (auto simp: rsplit_once_def)
  also have "\<dots> \<longleftrightarrow> rev s = rev (a @ d # b) \<and> d \<notin> set b"
    by (simp add: split_once_Some)
  finally show ?thesis by (simp only: rev_is_rev_conv)
qed

lemma strip_prefix_Some: "strip_prefix p s = Some t \<longleftrightarrow> s = p @ t"
  by (induction p s rule: strip_prefix.induct) auto

section \<open>Decimal numbers\<close>

definition digit_char :: "nat \<Rightarrow> char" where
  "digit_char n = char_of (48 + n)"

definition is_digit :: "char \<Rightarrow> bool" where
  "is_digit c \<longleftrightarrow> 48 \<le> byte c \<and> byte c \<le> 57"

text \<open>\<^verbatim>\<open>to_string\<close> of an unsigned and of a signed integer.\<close>

fun show_nat :: "nat \<Rightarrow> string" where
  "show_nat n = (if n < 10 then [digit_char n] else show_nat (n div 10) @ [digit_char (n mod 10)])"

declare show_nat.simps [simp del]

definition show_int :: "int \<Rightarrow> string" where
  "show_int i = (if i < 0 then CHR ''-'' # show_nat (nat (- i)) else show_nat (nat i))"

definition show_bool :: "bool \<Rightarrow> string" where
  "show_bool b = (if b then ''true'' else ''false'')"

definition digits_value :: "string \<Rightarrow> nat" where
  "digits_value s = foldl (\<lambda>n c. 10 * n + (byte c - 48)) 0 s"

text \<open>
  \<^verbatim>\<open>parse::<uN>()\<close>: an optional \<^verbatim>\<open>+\<close>, then at least one decimal digit, and a value of at most
  \<open>m\<close>, the largest value of the type.
\<close>

definition parse_digits :: "nat \<Rightarrow> string \<Rightarrow> nat option" where
  "parse_digits m s =
     (if s = [] \<or> \<not> list_all is_digit s then None
      else if digits_value s \<le> m then Some (digits_value s) else None)"

definition parse_uint :: "nat \<Rightarrow> string \<Rightarrow> nat option" where
  "parse_uint m s = parse_digits m (if s \<noteq> [] \<and> hd s = CHR ''+'' then tl s else s)"

abbreviation u8_max :: nat where "u8_max \<equiv> 255"
abbreviation u16_max :: nat where "u16_max \<equiv> 65535"
abbreviation u64_max :: nat where "u64_max \<equiv> 18446744073709551615"

text \<open>The targets of the released binary are 64-bit: \<^verbatim>\<open>usize\<close> is \<^verbatim>\<open>u64\<close>.\<close>

abbreviation usize_max :: nat where "usize_max \<equiv> u64_max"

lemma byte_digit_char [simp]: "n < 10 \<Longrightarrow> byte (digit_char n) = 48 + n"
  by (simp add: digit_char_def byte_char_of)

lemma digit_char_is_digit: "n < 10 \<Longrightarrow> is_digit (digit_char n)"
  by (simp add: is_digit_def)

lemma show_nat_neq_Nil [simp]: "show_nat n \<noteq> []"
  by (subst show_nat.simps) simp

lemma show_nat_digits: "list_all is_digit (show_nat n)"
proof (induction n rule: show_nat.induct)
  case (1 n)
  then show ?case
    by (cases "n < 10") (simp_all add: show_nat.simps [of n] digit_char_is_digit)
qed

lemma digits_value_snoc [simp]:
  "digits_value (s @ [c]) = 10 * digits_value s + (byte c - 48)"
  by (simp add: digits_value_def)

lemma digits_value_show_nat [simp]: "digits_value (show_nat n) = n"
proof (induction n rule: show_nat.induct)
  case (1 n)
  then show ?case
    by (cases "n < 10") (simp_all add: show_nat.simps [of n] digits_value_def [of "[_]"])
qed

lemma show_nat_inject [simp]: "show_nat m = show_nat n \<longleftrightarrow> m = n"
  by (metis digits_value_show_nat)

lemma hd_show_nat_digit: "is_digit (hd (show_nat n))"
  using show_nat_digits [of n] by (cases "show_nat n") auto

lemma digit_not_sign: "is_digit c \<Longrightarrow> c \<noteq> CHR ''+'' \<and> c \<noteq> CHR ''-''"
  by (auto simp: is_digit_def)

lemma parse_show_nat: "n \<le> m \<Longrightarrow> parse_uint m (show_nat n) = Some n"
  using digit_not_sign [OF hd_show_nat_digit [of n]]
  by (simp add: parse_uint_def parse_digits_def show_nat_digits)

lemma parse_uint_bound: "parse_uint m s = Some n \<Longrightarrow> n \<le> m"
  by (auto simp: parse_uint_def parse_digits_def split: if_splits)

lemma show_int_inject: "show_int i = show_int j \<longleftrightarrow> i = j"
proof -
  have neg: "CHR ''-'' # s \<noteq> show_nat n" for s n
    using digit_not_sign [OF hd_show_nat_digit [of n]] by (metis list.sel(1))
  have pos: "show_nat n \<noteq> CHR ''-'' # s" for s n
    using neg by metis
  show ?thesis by (auto simp: show_int_def neg pos)
qed

end
