(* ===== verification/Token.thy ===== *)
theory Token
  imports Rust_Str
begin

text \<open>
  Token capabilities (\<^verbatim>\<open>config/token.rs\<close>) and token hashes (\<^verbatim>\<open>config/hash.rs\<close>). SHA-256,
  HMAC-SHA-256 and hex decoding are other crates' code: they are the fields of \<open>digests\<close>, an
  argument of the definitions that call them.
\<close>

section \<open>Token capabilities\<close>

record token_caps =
  cap_command :: bool
  cap_ratelimit :: bool
  cap_realtime :: bool

datatype token_error = UnsupportedTokenType string string | NoTokenType string

definition TokenCaps_command :: token_caps where
  "TokenCaps_command = \<lparr>cap_command = True, cap_ratelimit = False, cap_realtime = False\<rparr>"

definition TokenCaps_default :: token_caps where
  "TokenCaps_default = TokenCaps_command"

definition caps_none :: token_caps where
  "caps_none = \<lparr>cap_command = False, cap_ratelimit = False, cap_realtime = False\<rparr>"

text \<open>The loop of \<^verbatim>\<open>TokenCaps::parse\<close> over the items between commas.\<close>

fun parse_items :: "string \<Rightarrow> string list \<Rightarrow> token_caps \<Rightarrow> (token_error, token_caps) result" where
  "parse_items key [] token_type = Ok token_type"
| "parse_items key (raw # items) token_type =
     (let item = to_ascii_lowercase (trim raw) in
      if item = [] then parse_items key items token_type
      else if item = ''command'' then parse_items key items (token_type\<lparr>cap_command := True\<rparr>)
      else if item = ''ratelimit'' then parse_items key items (token_type\<lparr>cap_ratelimit := True\<rparr>)
      else if item = ''realtime'' then parse_items key items (token_type\<lparr>cap_realtime := True\<rparr>)
      else Err (UnsupportedTokenType key item))"

definition TokenCaps_parse :: "string \<Rightarrow> string \<Rightarrow> (token_error, token_caps) result" where
  "TokenCaps_parse value key =
     and_then (parse_items key (split_on CHR '','' value) caps_none) (\<lambda>token_type.
       if \<not> cap_command token_type \<and> \<not> cap_ratelimit token_type \<and> \<not> cap_realtime token_type
       then Err (NoTokenType key)
       else Ok token_type)"

definition allows_command :: "token_caps \<Rightarrow> bool" where
  "allows_command c = cap_command c"

definition allows_ratelimit :: "token_caps \<Rightarrow> bool" where
  "allows_ratelimit c = cap_ratelimit c"

definition allows_realtime :: "token_caps \<Rightarrow> bool" where
  "allows_realtime c = cap_realtime c"

definition allows_command_route :: "token_caps \<Rightarrow> bool" where
  "allows_command_route c \<longleftrightarrow> cap_command c \<or> cap_ratelimit c \<or> cap_realtime c"

definition caps_config_value :: "token_caps \<Rightarrow> string" where
  "caps_config_value c =
     join_with CHR '',''
       ((if cap_command c then [''command''] else []) @
        (if cap_ratelimit c then [''ratelimit''] else []) @
        (if cap_realtime c then [''realtime''] else []))"

lemmas caps_defs [model_defs] = allows_command_def allows_ratelimit_def allows_realtime_def
  allows_command_route_def TokenCaps_command_def TokenCaps_default_def caps_none_def

section \<open>What the capability parser accepts\<close>

abbreviation caps_item :: "string \<Rightarrow> string" where
  "caps_item raw \<equiv> to_ascii_lowercase (trim raw)"

definition caps_items :: "string \<Rightarrow> string list" where
  "caps_items value = map (\<lambda>raw. caps_item raw) (split_on CHR '','' value)"

lemma parse_items_Ok:
  "parse_items key raws c0 = Ok c \<longleftrightarrow>
     (\<forall>raw \<in> set raws. caps_item raw \<in> {[], ''command'', ''ratelimit'', ''realtime''}) \<and>
     c = \<lparr>cap_command = (cap_command c0 \<or> ''command'' \<in> caps_item ` set raws),
          cap_ratelimit = (cap_ratelimit c0 \<or> ''ratelimit'' \<in> caps_item ` set raws),
          cap_realtime = (cap_realtime c0 \<or> ''realtime'' \<in> caps_item ` set raws)\<rparr>"
  by (induction raws arbitrary: c0) (auto simp: Let_def image_iff)

lemma parse_items_Err:
  "parse_items key raws c0 = Err e \<Longrightarrow>
     \<exists>raw \<in> set raws. e = UnsupportedTokenType key (caps_item raw) \<and>
       caps_item raw \<notin> {[], ''command'', ''ratelimit'', ''realtime''}"
  by (induction raws arbitrary: c0) (auto simp: Let_def split: if_splits)

lemma TokenCaps_parse_nonempty:
  "TokenCaps_parse value key = Ok c \<Longrightarrow> allows_command_route c"
  by (auto simp: TokenCaps_parse_def model_defs split: if_splits)

section \<open>Token hashes\<close>

record digests =
  sha256_digest :: "bytes \<Rightarrow> bytes"
  hmac_digest :: "bytes \<Rightarrow> bytes \<Rightarrow> bytes"
  hex_decode :: "string \<Rightarrow> bytes option"

datatype token_hash = TokenHash (digest: bytes)

datatype hash_error = BadDigestLength | NonHexDigest

abbreviation SHA256_DIGEST_BYTES :: nat where
  "SHA256_DIGEST_BYTES \<equiv> 32"

definition TokenHash_sha256 :: "digests \<Rightarrow> string \<Rightarrow> token_hash" where
  "TokenHash_sha256 D token = TokenHash (sha256_digest D token)"

definition TokenHash_hmac_sha256 :: "digests \<Rightarrow> string \<Rightarrow> string \<Rightarrow> token_hash" where
  "TokenHash_hmac_sha256 D key token = TokenHash (hmac_digest D key token)"

definition hmac_sha256_parse :: "digests \<Rightarrow> string \<Rightarrow> (hash_error, token_hash) result" where
  "hmac_sha256_parse D value =
     (let value = trim value in
      if length value \<noteq> SHA256_DIGEST_BYTES * 2 then Err BadDigestLength
      else case hex_decode D value of
             None \<Rightarrow> Err NonHexDigest
           | Some bs \<Rightarrow> Ok (TokenHash bs))"

section \<open>Properties\<close>

lemma caps_items_mem: "x \<in> set (caps_items value) \<longleftrightarrow> x \<in> caps_item ` set (split_on CHR '','' value)"
  by (simp add: caps_items_def)

lemma split_caps_config_value:
  "allows_command_route c \<Longrightarrow>
     split_on CHR '','' (caps_config_value c) =
       (if cap_command c then [''command''] else []) @
       (if cap_ratelimit c then [''ratelimit''] else []) @
       (if cap_realtime c then [''realtime''] else [])"
  by (auto simp: caps_config_value_def allows_command_route_def split_on_append)

lemma caps_item_names:
  "caps_item ''command'' = ''command''" "caps_item ''ratelimit'' = ''ratelimit''"
  "caps_item ''realtime'' = ''realtime''"
  by code_simp+

text \<open>\<^verbatim>\<open>TokenCaps::parse\<close> accepts a value exactly when every item between its commas is blank or,
  trimmed and in any case, one of the three token types, and at least one item names a type; the
  result has exactly the named capabilities.\<close>

theorem token_caps_parse_spec:
  "TokenCaps_parse value key = Ok c \<longleftrightarrow>
     set (caps_items value) \<subseteq> {[], ''command'', ''ratelimit'', ''realtime''} \<and>
     set (caps_items value) \<noteq> {[]} \<and>
     (cap_command c \<longleftrightarrow> ''command'' \<in> set (caps_items value)) \<and>
     (cap_ratelimit c \<longleftrightarrow> ''ratelimit'' \<in> set (caps_items value)) \<and>
     (cap_realtime c \<longleftrightarrow> ''realtime'' \<in> set (caps_items value))"
proof -
  define S where "S = set (caps_items value)"
  have S: "S = caps_item ` set (split_on CHR '','' value)" by (simp add: S_def caps_items_def)
  have ne: "S \<noteq> {}" unfolding S by simp
  have "TokenCaps_parse value key = Ok c \<longleftrightarrow>
      parse_items key (split_on CHR '','' value) caps_none = Ok c \<and>
      (cap_command c \<or> cap_ratelimit c \<or> cap_realtime c)"
    by (auto simp: TokenCaps_parse_def)
  also have "\<dots> \<longleftrightarrow> S \<subseteq> {[], ''command'', ''ratelimit'', ''realtime''} \<and>
      cap_command c = (''command'' \<in> S) \<and> cap_ratelimit c = (''ratelimit'' \<in> S) \<and>
      cap_realtime c = (''realtime'' \<in> S) \<and> (cap_command c \<or> cap_ratelimit c \<or> cap_realtime c)"
    unfolding parse_items_Ok S image_subset_iff by (cases c) (simp add: caps_none_def)
  also have "\<dots> \<longleftrightarrow> S \<subseteq> {[], ''command'', ''ratelimit'', ''realtime''} \<and> S \<noteq> {[]} \<and>
      cap_command c = (''command'' \<in> S) \<and> cap_ratelimit c = (''ratelimit'' \<in> S) \<and>
      cap_realtime c = (''realtime'' \<in> S)"
    using ne by blast
  finally show ?thesis unfolding S_def .
qed

text \<open>A set of capabilities with at least one member survives a round trip: the text
  \<^verbatim>\<open>config_value\<close> prints for it parses back to the same capabilities.\<close>

theorem token_caps_roundtrip:
  "allows_command_route c \<Longrightarrow> TokenCaps_parse (caps_config_value c) key = Ok c"
  by (cases c)
     (auto simp: TokenCaps_parse_def parse_items_Ok split_caps_config_value caps_item_names caps_none_def
      allows_command_route_def)

theorem token_caps_roundtrip_witness:
  "allows_command_route \<lparr>cap_command = True, cap_ratelimit = False, cap_realtime = True\<rparr> \<and>
   TokenCaps_parse (caps_config_value \<lparr>cap_command = True, cap_ratelimit = False, cap_realtime = True\<rparr>)
     ''RRB_TOKEN_TYPE'' = Ok \<lparr>cap_command = True, cap_ratelimit = False, cap_realtime = True\<rparr>"
proof -
  have h: "allows_command_route \<lparr>cap_command = True, cap_ratelimit = False, cap_realtime = True\<rparr>"
    by (simp add: allows_command_route_def)
  show ?thesis using h token_caps_roundtrip [OF h] by simp
qed

end
