(* ===== verification/Policy.thy ===== *)
theory Policy
  imports Commands Token
begin

text \<open>
  The command policy (\<^verbatim>\<open>src/security/\<close>): the arguments of a command as they come out of the JSON
  body, the hard-deny test, the \<^verbatim>\<open>SCRIPT\<close> subcommand filter, and \<^verbatim>\<open>SecurityPolicy\<close>, which turns a
  body into the commands that may be sent to Redis or into the error the client reads.
\<close>

section \<open>Commands and arguments (types.rs)\<close>

text \<open>A JSON number is kept as the text \<^verbatim>\<open>serde_json\<close> prints for it, all the bridge reads of it.\<close>

datatype command_arg = ArgString string | ArgNumber string | ArgBool bool | ArgNull

record redis_command =
  rc_name :: string
  rc_args :: "bytes list"

datatype policy_error =
    EmptyCommand
  | TooManyArguments nat
  | NotACommandString
  | HardDenied string
  | ScriptNeedsSubcommand
  | ScriptLoadArity
  | ScriptExistsArity
  | ScriptFlushArity
  | ScriptFlushModeNotString
  | ScriptFlushBadMode
  | ScriptBlocked string
  | ScriptNotAllowed string
  | NotAllowedForToken string
  | BlockedByPolicy string
  | NullArgument
  | ArgumentTooLarge nat
  | PipelineTooLarge nat

text \<open>The text of each error, which the handlers put into the response.\<close>

fun policy_message :: "policy_error \<Rightarrow> string" where
  "policy_message EmptyCommand = ''Invalid command array. Command cannot be empty.''"
| "policy_message (TooManyArguments n) =
     ''Command has too many arguments. Maximum allowed arguments: '' @ show_nat n @ ''.''"
| "policy_message NotACommandString =
     ''Invalid command array. First item must be a Redis command string.''"
| "policy_message (HardDenied c) = ''Redis command is hard-denied by bridge policy: '' @ c"
| "policy_message ScriptNeedsSubcommand = ''SCRIPT requires a subcommand.''"
| "policy_message ScriptLoadArity = ''SCRIPT LOAD requires exactly one script argument.''"
| "policy_message ScriptExistsArity = ''SCRIPT EXISTS requires at least one SHA argument.''"
| "policy_message ScriptFlushArity =
     ''SCRIPT FLUSH accepts at most one optional mode argument.''"
| "policy_message ScriptFlushModeNotString = ''SCRIPT FLUSH mode must be a string.''"
| "policy_message ScriptFlushBadMode = ''SCRIPT FLUSH mode must be SYNC or ASYNC.''"
| "policy_message (ScriptBlocked s) = ''SCRIPT '' @ s @ '' is blocked by bridge policy.''"
| "policy_message (ScriptNotAllowed s) =
     ''SCRIPT subcommand is not allowed by bridge policy: '' @ s"
| "policy_message (NotAllowedForToken c) =
     ''Redis command is not allowed for this token type: '' @ c"
| "policy_message (BlockedByPolicy c) = ''Redis command is blocked by policy: '' @ c"
| "policy_message NullArgument = ''Invalid Redis argument. Null values are not supported.''"
| "policy_message (ArgumentTooLarge n) =
     ''Redis argument is too large. Maximum allowed bytes per argument: '' @ show_nat n @ ''.''"
| "policy_message (PipelineTooLarge n) =
     ''Pipeline is too large. Maximum allowed commands: '' @ show_nat n @ ''.''"

fun as_command_name :: "command_arg \<Rightarrow> string option" where
  "as_command_name (ArgString value) = Some value"
| "as_command_name _ = None"

definition to_arg_bytes :: "nat \<Rightarrow> command_arg \<Rightarrow> (policy_error, bytes) result" where
  "to_arg_bytes max_arg_bytes arg =
     and_then
       (case arg of
          ArgString value \<Rightarrow> Ok value
        | ArgNumber value \<Rightarrow> Ok value
        | ArgBool value \<Rightarrow> Ok (show_bool value)
        | ArgNull \<Rightarrow> Err NullArgument)
       (\<lambda>bs. if length bs > max_arg_bytes then Err (ArgumentTooLarge max_arg_bytes) else Ok bs)"

section \<open>Hard-denied commands (deny.rs)\<close>

definition denied_commands :: "string set" where
  "denied_commands = set DENIED_COMMANDS"

definition ratelimit_commands :: "string set" where
  "ratelimit_commands = set RATELIMIT_COMMANDS"

definition realtime_commands :: "string set" where
  "realtime_commands = set REALTIME_COMMANDS"

definition is_denied_command :: "string \<Rightarrow> bool \<Rightarrow> bool \<Rightarrow> bool" where
  "is_denied_command command_name allow_ratelimit allow_realtime =
     (if allow_ratelimit \<and> command_name \<in> ratelimit_commands then False
      else if allow_realtime \<and> command_name \<in> realtime_commands then False
      else command_name \<in> denied_commands)"

definition reject_command :: "string \<Rightarrow> bool \<Rightarrow> bool \<Rightarrow> (policy_error, unit) result" where
  "reject_command command_name allow_ratelimit allow_realtime =
     (if is_denied_command command_name allow_ratelimit allow_realtime
      then Err (HardDenied command_name)
      else Ok ())"

section \<open>SCRIPT subcommands (script.rs)\<close>

definition nth_arg :: "'a list \<Rightarrow> nat \<Rightarrow> 'a option" where
  "nth_arg xs i = (if i < length xs then Some (xs ! i) else None)"

definition normal_name :: "string \<Rightarrow> string" where
  "normal_name value = to_ascii_uppercase (trim value)"

definition validate_subcommand :: "command_arg list \<Rightarrow> (policy_error, unit) result" where
  "validate_subcommand array =
     (case map_option normal_name (Option.bind (nth_arg array 1) as_command_name) of
        None \<Rightarrow> Err ScriptNeedsSubcommand
      | Some subcommand \<Rightarrow>
          if subcommand = ''LOAD'' then
            (if length array \<noteq> 3 then Err ScriptLoadArity else Ok ())
          else if subcommand = ''EXISTS'' then
            (if length array < 3 then Err ScriptExistsArity else Ok ())
          else if subcommand = ''FLUSH'' then
            (if length array > 3 then Err ScriptFlushArity
             else case nth_arg array 2 of
                    None \<Rightarrow> Ok ()
                  | Some mode \<Rightarrow>
                      (case map_option normal_name (as_command_name mode) of
                         None \<Rightarrow> Err ScriptFlushModeNotString
                       | Some mode \<Rightarrow>
                           if mode = ''SYNC'' \<or> mode = ''ASYNC'' then Ok ()
                           else Err ScriptFlushBadMode))
          else if subcommand = ''KILL'' \<or> subcommand = ''DEBUG'' then
            Err (ScriptBlocked subcommand)
          else Err (ScriptNotAllowed subcommand))"

section \<open>SecurityPolicy (policy.rs)\<close>

record security_policy =
  allowed_commands :: "string set"
  blocked_commands :: "string set"
  max_pipeline_commands :: nat
  max_command_args :: nat
  max_arg_bytes :: nat

datatype validate_error = EmptyAllowlist | HardDeniedAllowed "string set"

definition SecurityPolicy_validate :: "security_policy \<Rightarrow> (validate_error, unit) result" where
  "SecurityPolicy_validate p =
     (if allowed_commands p = {} then Err EmptyAllowlist
      else
        let hard_denied_allowed = {c \<in> allowed_commands p. is_denied_command c False False} in
        if hard_denied_allowed \<noteq> {} then Err (HardDeniedAllowed hard_denied_allowed) else Ok ())"

definition saturating_add :: "nat \<Rightarrow> nat \<Rightarrow> nat" where
  "saturating_add a b = min (a + b) usize_max"

text \<open>The branch of \<^verbatim>\<open>parse_command_array\<close> between the subcommand filter and the hard-deny test.\<close>

definition check_denied ::
    "command_arg list \<Rightarrow> string \<Rightarrow> bool \<Rightarrow> bool \<Rightarrow> (policy_error, unit) result" where
  "check_denied array command_name allow_ratelimit allow_realtime =
     (if command_name = ''SCRIPT'' \<and> allow_ratelimit
      then validate_subcommand array
      else reject_command command_name allow_ratelimit allow_realtime)"

definition parse_command_array ::
    "security_policy \<Rightarrow> command_arg list \<Rightarrow> token_caps \<Rightarrow> (policy_error, redis_command) result" where
  "parse_command_array p array token_type =
     (if array = [] then Err EmptyCommand
      else if length array > saturating_add (max_command_args p) 1
      then Err (TooManyArguments (max_command_args p))
      else case as_command_name (hd array) of
        None \<Rightarrow> Err NotACommandString
      | Some name \<Rightarrow>
          let command_name = normal_name name;
              allow_ratelimit = allows_ratelimit token_type;
              allow_realtime = allows_realtime token_type in
          if command_name = [] then Err EmptyCommand
          else and_then (check_denied array command_name allow_ratelimit allow_realtime)
            (\<lambda>_.
              let standard_allowed =
                    allows_command token_type \<and> command_name \<in> allowed_commands p;
                  ratelimit_allowed = allow_ratelimit \<and> command_name \<in> ratelimit_commands;
                  realtime_allowed = allow_realtime \<and> command_name \<in> realtime_commands in
              if \<not> standard_allowed \<and> \<not> ratelimit_allowed \<and> \<not> realtime_allowed
              then Err (NotAllowedForToken command_name)
              else if command_name \<in> blocked_commands p
              then Err (BlockedByPolicy command_name)
              else and_then (collect_results (map (to_arg_bytes (max_arg_bytes p)) (tl array)))
                (\<lambda>args. Ok \<lparr>rc_name = command_name, rc_args = args\<rparr>)))"

definition parse_command ::
    "security_policy \<Rightarrow> command_arg list \<Rightarrow> token_caps \<Rightarrow> (policy_error, redis_command) result" where
  "parse_command p array token_type = parse_command_array p array token_type"

definition parse_command_list ::
    "security_policy \<Rightarrow> command_arg list list \<Rightarrow> token_caps \<Rightarrow>
       (policy_error, redis_command list) result" where
  "parse_command_list p commands token_type =
     (if length commands > max_pipeline_commands p
      then Err (PipelineTooLarge (max_pipeline_commands p))
      else collect_results (map (\<lambda>command. parse_command_array p command token_type) commands))"

section \<open>The specification the policy implements\<close>

text \<open>
  The commands a token type may run under a policy, independent of the order of the checks in the
  code: a command of one of its profiles, or an allowed command that is not hard-denied, and in
  every case one that is not blocked.
\<close>

definition scoped :: "token_caps \<Rightarrow> string \<Rightarrow> bool" where
  "scoped t c \<longleftrightarrow>
     allows_ratelimit t \<and> c \<in> ratelimit_commands \<or> allows_realtime t \<and> c \<in> realtime_commands"

definition admitted :: "security_policy \<Rightarrow> token_caps \<Rightarrow> string \<Rightarrow> bool" where
  "admitted p t c \<longleftrightarrow>
     c \<notin> blocked_commands p \<and>
     (scoped t c \<or> allows_command t \<and> c \<in> allowed_commands p \<and> c \<notin> denied_commands)"

fun arg_bytes :: "command_arg \<Rightarrow> bytes option" where
  "arg_bytes (ArgString s) = Some s"
| "arg_bytes (ArgNumber n) = Some n"
| "arg_bytes (ArgBool b) = Some (show_bool b)"
| "arg_bytes ArgNull = None"

definition within_limits :: "security_policy \<Rightarrow> redis_command \<Rightarrow> bool" where
  "within_limits p cmd \<longleftrightarrow>
     length (rc_args cmd) \<le> max_command_args p \<and>
     list_all (\<lambda>a. length a \<le> max_arg_bytes p) (rc_args cmd)"

lemma to_arg_bytes_Ok:
  "to_arg_bytes m a = Ok bs \<longleftrightarrow> arg_bytes a = Some bs \<and> length bs \<le> m"
  by (cases a) (auto simp: to_arg_bytes_def)

lemma args_Ok:
  "collect_results (map (to_arg_bytes m) as) = Ok bss \<longleftrightarrow>
     map arg_bytes as = map Some bss \<and> list_all (\<lambda>b. length b \<le> m) bss"
proof -
  have "map (to_arg_bytes m) as = map Inr bss \<longleftrightarrow>
      map arg_bytes as = map Some bss \<and> list_all (\<lambda>b. length b \<le> m) bss"
  proof (induction as arbitrary: bss)
    case (Cons a as)
    then show ?case by (cases bss) (auto simp: to_arg_bytes_Ok)
  qed auto
  then show ?thesis by (simp add: collect_results_Inr)
qed

lemma script_scope: "''SCRIPT'' \<in> ratelimit_commands" "''SCRIPT'' \<notin> realtime_commands"
    "''SCRIPT'' \<in> denied_commands"
  using ratelimit_denied script_in_ratelimit script_not_realtime
  by (auto simp: ratelimit_commands_def realtime_commands_def denied_commands_def)

lemma reject_command_Ok:
  "reject_command c rl rt = Ok u \<longleftrightarrow>
     c \<notin> denied_commands \<or> rl \<and> c \<in> ratelimit_commands \<or> rt \<and> c \<in> realtime_commands"
  by (auto simp: reject_command_def is_denied_command_def)

lemma check_denied_Ok:
  "check_denied array c (allows_ratelimit t) (allows_realtime t) = Ok () \<and>
     (allows_command t \<and> c \<in> allowed_commands p \<or> scoped t c) \<and> c \<notin> blocked_commands p \<longleftrightarrow>
   admitted p t c \<and> (c = ''SCRIPT'' \<longrightarrow> is_ok (validate_subcommand array))"
proof (cases "c = ''SCRIPT''")
  case True
  then show ?thesis
    using script_scope
    by (cases "validate_subcommand array")
       (auto simp: check_denied_def admitted_def scoped_def reject_command_Ok)
next
  case False
  then show ?thesis
    by (auto simp: check_denied_def admitted_def scoped_def reject_command_Ok)
qed

text \<open>
  The one lemma about the code of \<^verbatim>\<open>parse_command_array\<close>: it succeeds exactly on the bodies the
  specification describes.
\<close>

lemma parse_command_array_Ok:
  "parse_command_array p array t = Ok cmd \<longleftrightarrow>
     (\<exists>name rest. array = ArgString name # rest \<and>
        length rest \<le> max_command_args p \<and> length array \<le> usize_max \<and>
        normal_name name \<noteq> [] \<and> admitted p t (normal_name name) \<and>
        (normal_name name = ''SCRIPT'' \<longrightarrow> is_ok (validate_subcommand array)) \<and>
        rc_name cmd = normal_name name \<and>
        map arg_bytes rest = map Some (rc_args cmd) \<and>
        list_all (\<lambda>b. length b \<le> max_arg_bytes p) (rc_args cmd))"
  (is "?L \<longleftrightarrow> ?R")
proof (cases array)
  case Nil
  then show ?thesis by (simp add: parse_command_array_def)
next
  case (Cons a rest)
  show ?thesis
  proof (cases a)
    case (ArgString name)
    define c where "c = normal_name name"
    let ?check = "check_denied array c (allows_ratelimit t) (allows_realtime t)"
    let ?may = "allows_command t \<and> c \<in> allowed_commands p \<or> scoped t c"
    have size: "\<not> length array > saturating_add (max_command_args p) 1 \<longleftrightarrow>
        length rest \<le> max_command_args p \<and> length array \<le> usize_max"
      using Cons by (auto simp: saturating_add_def)
    have code: "parse_command_array p array t =
        (if length array > saturating_add (max_command_args p) 1
         then Err (TooManyArguments (max_command_args p))
         else if c = [] then Err EmptyCommand
         else and_then ?check (\<lambda>_.
           if \<not> ?may then Err (NotAllowedForToken c)
           else if c \<in> blocked_commands p then Err (BlockedByPolicy c)
           else and_then (collect_results (map (to_arg_bytes (max_arg_bytes p)) rest))
             (\<lambda>args. Ok \<lparr>rc_name = c, rc_args = args\<rparr>)))"
      unfolding parse_command_array_def Cons ArgString
      by (simp only: Let_def list.simps list.sel as_command_name.simps option.simps if_False
          c_def [symmetric] scoped_def de_Morgan_disj conj_assoc)
    have "?L \<longleftrightarrow> \<not> length array > saturating_add (max_command_args p) 1 \<and> c \<noteq> [] \<and>
        (?check = Ok () \<and> ?may \<and> c \<notin> blocked_commands p) \<and>
        (\<exists>args. collect_results (map (to_arg_bytes (max_arg_bytes p)) rest) = Ok args \<and>
           cmd = \<lparr>rc_name = c, rc_args = args\<rparr>)"
      unfolding code by auto
    then have "?L \<longleftrightarrow> (length rest \<le> max_command_args p \<and> length array \<le> usize_max) \<and> c \<noteq> [] \<and>
        (admitted p t c \<and> (c = ''SCRIPT'' \<longrightarrow> is_ok (validate_subcommand array))) \<and>
        (\<exists>args. (map arg_bytes rest = map Some args \<and>
             list_all (\<lambda>b. length b \<le> max_arg_bytes p) args) \<and>
           cmd = \<lparr>rc_name = c, rc_args = args\<rparr>)"
      unfolding size check_denied_Ok args_Ok .
    then show ?thesis
      unfolding Cons ArgString c_def by (cases cmd) auto
  qed (use Cons in \<open>auto simp: parse_command_array_def\<close>)
qed

lemma parse_command_list_Ok:
  "parse_command_list p commands t = Ok cmds \<longleftrightarrow>
     length commands \<le> max_pipeline_commands p \<and>
     map (\<lambda>c. parse_command_array p c t) commands = map Ok cmds"
  by (auto simp: parse_command_list_def collect_results_Inr)

section \<open>The gate every route puts in front of Redis\<close>

text \<open>The commands that change the state of a connection shared between clients.\<close>

definition transaction_commands :: "string set" where
  "transaction_commands = {''MULTI'', ''EXEC'', ''DISCARD'', ''WATCH'', ''UNWATCH''}"

lemma connection_state_denied:
  "c \<in> set CONNECTION_COMMANDS \<union> transaction_commands \<Longrightarrow> c \<in> denied_commands"
  by (auto simp: denied_commands_def DENIED_COMMANDS_def CONNECTION_COMMANDS_def
      transaction_commands_def)

lemma connection_state_unscoped:
  "c \<in> set CONNECTION_COMMANDS \<union> transaction_commands \<Longrightarrow>
     c \<notin> ratelimit_commands \<and> c \<noteq> ''PUBLISH''"
  by (auto simp: ratelimit_commands_def RATELIMIT_COMMANDS_def CONNECTION_COMMANDS_def
      transaction_commands_def)

text \<open>
  The three command routes reach Redis through a gate that turns a body into commands or refuses
  it. What a gate promises of each command it lets through is the assumption of the locale; what
  the routes rely on follows once for all gates.
\<close>

locale command_gate =
  fixes gate :: "security_policy \<Rightarrow> 'body \<Rightarrow> token_caps \<Rightarrow> (policy_error, 'cmds) result"
    and commands_of :: "'cmds \<Rightarrow> redis_command list"
  assumes gate_admitted:
      "gate p body t = Ok cs \<Longrightarrow> c \<in> set (commands_of cs) \<Longrightarrow> admitted p t (rc_name c)"
    and gate_limits:
      "gate p body t = Ok cs \<Longrightarrow> c \<in> set (commands_of cs) \<Longrightarrow> within_limits p c"
begin

lemma gate_denied_only_scoped:
  assumes "gate p body t = Ok cs" and "c \<in> set (commands_of cs)"
    and "rc_name c \<in> denied_commands"
  shows "allows_ratelimit t \<and> rc_name c \<in> ratelimit_commands \<or>
         allows_realtime t \<and> rc_name c = ''PUBLISH''"
  using gate_admitted [OF assms(1,2)] assms(3) realtime_denied
  by (auto simp: admitted_def scoped_def realtime_commands_def denied_commands_def)

lemma gate_not_blocked:
  "gate p body t = Ok cs \<Longrightarrow> c \<in> set (commands_of cs) \<Longrightarrow> rc_name c \<notin> blocked_commands p"
  by (auto dest: gate_admitted simp: admitted_def)

lemma gate_profile_only:
  "gate p body t = Ok cs \<Longrightarrow> c \<in> set (commands_of cs) \<Longrightarrow> \<not> allows_command t \<Longrightarrow> scoped t (rc_name c)"
  by (auto dest: gate_admitted simp: admitted_def)

lemma gate_no_connection_state:
  assumes "gate p body t = Ok cs" and "c \<in> set (commands_of cs)"
  shows "rc_name c \<notin> set CONNECTION_COMMANDS \<union> transaction_commands"
  using gate_denied_only_scoped [OF assms] connection_state_denied connection_state_unscoped by auto

end

lemma parse_command_Ok_promises:
  assumes "parse_command p body t = Ok c"
  shows "admitted p t (rc_name c)" and "within_limits p c"
proof -
  obtain name rest where r: "length rest \<le> max_command_args p" "admitted p t (normal_name name)"
      "rc_name c = normal_name name" "map arg_bytes rest = map Some (rc_args c)"
      "list_all (\<lambda>b. length b \<le> max_arg_bytes p) (rc_args c)"
    using assms unfolding parse_command_def parse_command_array_Ok by blast
  have "length (rc_args c) = length rest"
    using r(4) by (metis length_map)
  then show "admitted p t (rc_name c)" and "within_limits p c"
    using r by (simp_all add: within_limits_def)
qed

interpretation single: command_gate parse_command "\<lambda>c. [c]"
  by unfold_locales (auto intro: parse_command_Ok_promises)

lemma parse_command_list_member:
  assumes "parse_command_list p body t = Ok cs" and "c \<in> set cs"
  shows "\<exists>command \<in> set body. parse_command p command t = Ok c"
proof -
  have eq: "map (\<lambda>command. parse_command_array p command t) body = map Ok cs"
    using assms(1) by (simp add: parse_command_list_Ok)
  have "Ok c \<in> set (map Ok cs)" using assms(2) by simp
  then have "Ok c \<in> set (map (\<lambda>command. parse_command_array p command t) body)"
    by (simp only: eq)
  then show ?thesis by (auto simp: parse_command_def)
qed

interpretation batch: command_gate parse_command_list "\<lambda>cs. cs"
  by unfold_locales
     (auto dest!: parse_command_list_member intro: single.gate_admitted single.gate_limits)

section \<open>Properties\<close>

text \<open>A command reaches Redis through one of the two gates.\<close>

definition passes_gate :: "security_policy \<Rightarrow> token_caps \<Rightarrow> redis_command \<Rightarrow> bool" where
  "passes_gate p t c \<longleftrightarrow>
     (\<exists>body. parse_command p body t = Ok c) \<or>
     (\<exists>bodies cs. parse_command_list p bodies t = Ok cs \<and> c \<in> set cs)"

lemma passes_gate_single: "passes_gate p t c \<longleftrightarrow> (\<exists>body. parse_command p body t = Ok c)"
  using parse_command_list_member by (fastforce simp: passes_gate_def)

lemma validate_subcommand_Ok:
  "is_ok (validate_subcommand array) \<longleftrightarrow>
     (\<exists>a0 sub rest. array = a0 # ArgString sub # rest \<and>
        (normal_name sub = ''LOAD'' \<and> length rest = 1 \<or>
         normal_name sub = ''EXISTS'' \<and> rest \<noteq> [] \<or>
         normal_name sub = ''FLUSH'' \<and>
           (rest = [] \<or> (\<exists>mode. rest = [ArgString mode] \<and> normal_name mode \<in> {''SYNC'', ''ASYNC''}))))"
  (is "?L \<longleftrightarrow> ?R")
proof -
  have short: "\<not> ?L" if "length array < 2"
    using that by (simp add: validate_subcommand_def nth_arg_def)
  have long: "?L \<longleftrightarrow> ?R" if arr: "array = a0 # a1 # rest" for a0 a1 rest
  proof (cases a1)
    case (ArgString sub)
    show ?thesis
    proof (cases rest)
      case Nil
      then show ?thesis using arr ArgString
        by (simp add: validate_subcommand_def nth_arg_def)
    next
      case (Cons m more)
      then show ?thesis using arr ArgString
        by (cases m; cases more) (simp_all add: validate_subcommand_def nth_arg_def)
    qed
  qed (use arr in \<open>simp_all add: validate_subcommand_def nth_arg_def\<close>)
  show ?thesis
  proof (cases "length array < 2")
    case True
    then show ?thesis using short by auto
  next
    case False
    then obtain a0 a1 rest where "array = a0 # a1 # rest"
      by (cases array rule: list.exhaust; cases "tl array") auto
    then show ?thesis by (rule long)
  qed
qed

text \<open>C14: \<^verbatim>\<open>SecurityPolicy::parse_command\<close> accepts a body exactly when the policy admits its normalised
  name for the token, the argument count and every argument are within the limits, no argument is
  null, and a \<^verbatim>\<open>SCRIPT\<close> command passes the subcommand filter; the command sent to Redis is the
  normalised name with the arguments' bytes in order.\<close>

theorem parse_command_correct:
  "parse_command p array t = Ok cmd \<longleftrightarrow>
     (\<exists>name rest. array = ArgString name # rest \<and>
        length rest \<le> max_command_args p \<and> length array \<le> usize_max \<and>
        normal_name name \<noteq> [] \<and> admitted p t (normal_name name) \<and>
        (normal_name name \<noteq> ''SCRIPT'' \<or> is_ok (validate_subcommand array)) \<and>
        rc_name cmd = normal_name name \<and>
        map arg_bytes rest = map Some (rc_args cmd) \<and>
        list_all (\<lambda>b. length b \<le> max_arg_bytes p) (rc_args cmd))"
  unfolding parse_command_def parse_command_array_Ok by (simp add: disj_imp)

definition sample_policy :: security_policy where
  "sample_policy = \<lparr>allowed_commands = {''GET'', ''SET''}, blocked_commands = {},
     max_pipeline_commands = 10, max_command_args = 4, max_arg_bytes = 16\<rparr>"

lemma normal_name_examples:
  "normal_name '' get '' = ''GET''" "normal_name ''eval'' = ''EVAL''"
  "normal_name ''PUBLISH'' = ''PUBLISH''" "normal_name ''script'' = ''SCRIPT''"
  "normal_name ''flush'' = ''FLUSH''" "normal_name ''Sync'' = ''SYNC''"
  by code_simp+

lemmas sample_eval = parse_command_def parse_command_array_def sample_policy_def model_defs
  normal_name_examples saturating_add_def check_denied_def reject_command_def is_denied_command_def
  denied_commands_def ratelimit_commands_def realtime_commands_def command_tables to_arg_bytes_def

theorem parse_command_correct_witness:
  "\<exists>name rest. [ArgString '' get '', ArgString ''key''] = ArgString name # rest \<and>
     admitted sample_policy TokenCaps_command (normal_name name) \<and>
     map arg_bytes rest = map Some [''key'']"
proof -
  have "parse_command sample_policy [ArgString '' get '', ArgString ''key''] TokenCaps_command =
      Ok \<lparr>rc_name = ''GET'', rc_args = [''key'']\<rparr>"
    by (simp add: sample_eval)
  then show ?thesis
    unfolding parse_command_correct by (auto simp: normal_name_examples)
qed

text \<open>C4: Whatever the configured allowlist, a hard-denied command reaches Redis only under the
  exception of its profile: \<^verbatim>\<open>EVAL\<close>, \<^verbatim>\<open>EVALSHA\<close> and \<^verbatim>\<open>SCRIPT\<close> with a ratelimit token, \<^verbatim>\<open>PUBLISH\<close>
  with a realtime token; this holds for single commands and for each command of a batch.\<close>

theorem hard_denied_needs_profile:
  assumes "passes_gate p t c" and "rc_name c \<in> set DENIED_COMMANDS"
  shows "allows_ratelimit t \<and> rc_name c \<in> {''EVAL'', ''EVALSHA'', ''SCRIPT''} \<or>
         allows_realtime t \<and> rc_name c = ''PUBLISH''"
proof -
  have den: "rc_name c \<in> denied_commands"
    using assms(2) by (simp add: denied_commands_def)
  obtain body where "parse_command p body t = Ok c"
    using assms(1) unfolding passes_gate_single by blast
  from single.gate_denied_only_scoped [OF this _ den] show ?thesis
    by (simp add: ratelimit_commands_def RATELIMIT_COMMANDS_def)
qed

theorem hard_denied_needs_profile_witness:
  "passes_gate sample_policy \<lparr>cap_command = False, cap_ratelimit = False, cap_realtime = True\<rparr>
     \<lparr>rc_name = ''PUBLISH'', rc_args = []\<rparr> \<and> ''PUBLISH'' \<in> set DENIED_COMMANDS \<and>
   cap_realtime \<lparr>cap_command = False, cap_ratelimit = False, cap_realtime = True\<rparr>"
proof -
  let ?t = "\<lparr>cap_command = False, cap_ratelimit = False, cap_realtime = True\<rparr>"
  have "parse_command sample_policy [ArgString ''PUBLISH''] ?t =
      Ok \<lparr>rc_name = ''PUBLISH'', rc_args = []\<rparr>"
    by (simp add: sample_eval)
  then have g: "passes_gate sample_policy ?t \<lparr>rc_name = ''PUBLISH'', rc_args = []\<rparr>"
    unfolding passes_gate_def by blast
  have d: "rc_name \<lparr>rc_name = ''PUBLISH'', rc_args = []\<rparr> \<in> set DENIED_COMMANDS"
    by (simp add: DENIED_COMMANDS_def)
  show ?thesis
    using g d hard_denied_needs_profile [OF g d] by (simp add: allows_realtime_def)
qed

text \<open>No policy and no token lets a command through that changes the state of a shared Redis
  connection: neither the connection commands nor \<^verbatim>\<open>MULTI\<close>, \<^verbatim>\<open>EXEC\<close>, \<^verbatim>\<open>DISCARD\<close>, \<^verbatim>\<open>WATCH\<close> and
  \<^verbatim>\<open>UNWATCH\<close>.\<close>

theorem no_connection_state_command:
  assumes "passes_gate p t c"
  shows "rc_name c \<notin> set CONNECTION_COMMANDS \<and>
         rc_name c \<notin> {''MULTI'', ''EXEC'', ''DISCARD'', ''WATCH'', ''UNWATCH''}"
proof -
  obtain body where "parse_command p body t = Ok c"
    using assms unfolding passes_gate_single by blast
  from single.gate_no_connection_state [OF this, of c] show ?thesis
    unfolding transaction_commands_def by simp
qed

theorem no_connection_state_command_witness:
  "passes_gate sample_policy TokenCaps_command \<lparr>rc_name = ''GET'', rc_args = []\<rparr> \<and>
   ''GET'' \<notin> set CONNECTION_COMMANDS"
proof -
  have "parse_command sample_policy [ArgString '' get ''] TokenCaps_command =
      Ok \<lparr>rc_name = ''GET'', rc_args = []\<rparr>"
    by (simp add: sample_eval)
  then have g: "passes_gate sample_policy TokenCaps_command \<lparr>rc_name = ''GET'', rc_args = []\<rparr>"
    unfolding passes_gate_def by blast
  show ?thesis using g no_connection_state_command [OF g] by simp
qed

text \<open>A token without the command capability runs nothing but its profiles: with realtime only
  the four commands of \<^verbatim>\<open>@upstash/realtime\<close>, with ratelimit only \<^verbatim>\<open>EVAL\<close>, \<^verbatim>\<open>EVALSHA\<close> and
  \<^verbatim>\<open>SCRIPT\<close>, whatever the allowlist holds.\<close>

theorem profile_tokens_confined:
  assumes "passes_gate p t c" and "\<not> cap_command t"
  shows "cap_realtime t \<and> rc_name c \<in> {''EXPIRE'', ''PUBLISH'', ''XADD'', ''XRANGE''} \<or>
         cap_ratelimit t \<and> rc_name c \<in> {''EVAL'', ''EVALSHA'', ''SCRIPT''}"
proof -
  have nc: "\<not> allows_command t" using assms(2) by (simp add: allows_command_def)
  obtain body where "parse_command p body t = Ok c"
    using assms(1) unfolding passes_gate_single by blast
  from single.gate_profile_only [OF this _ nc, of c]
  have "scoped t (rc_name c)" by simp
  then show ?thesis
    by (simp add: scoped_def ratelimit_commands_def realtime_commands_def RATELIMIT_COMMANDS_def
        REALTIME_COMMANDS_def allows_ratelimit_def allows_realtime_def disj_commute)
qed

theorem profile_tokens_confined_witness:
  "passes_gate sample_policy \<lparr>cap_command = False, cap_ratelimit = True, cap_realtime = False\<rparr>
     \<lparr>rc_name = ''EVAL'', rc_args = []\<rparr> \<and>
   ''EVAL'' \<in> {''EVAL'', ''EVALSHA'', ''SCRIPT''}"
proof -
  let ?t = "\<lparr>cap_command = False, cap_ratelimit = True, cap_realtime = False\<rparr>"
  let ?c = "\<lparr>rc_name = ''EVAL'', rc_args = []\<rparr>"
  have "parse_command sample_policy [ArgString ''eval''] ?t = Ok ?c"
    by (simp add: sample_eval)
  then have g: "passes_gate sample_policy ?t ?c" unfolding passes_gate_def by blast
  have nc: "\<not> cap_command ?t" by simp
  show ?thesis using g profile_tokens_confined [OF g nc] by simp
qed

text \<open>A \<^verbatim>\<open>SCRIPT\<close> command that reaches Redis is a \<^verbatim>\<open>LOAD\<close> of one script, an \<^verbatim>\<open>EXISTS\<close> of at least
  one digest, or a \<^verbatim>\<open>FLUSH\<close> with no mode or with \<^verbatim>\<open>SYNC\<close> or \<^verbatim>\<open>ASYNC\<close>, and it needs a ratelimit
  token; \<^verbatim>\<open>KILL\<close>, \<^verbatim>\<open>DEBUG\<close> and every other subcommand is refused.\<close>

theorem script_commands_filtered:
  assumes "parse_command p array t = Ok cmd" and "rc_name cmd = ''SCRIPT''"
  shows "cap_ratelimit t \<and>
    (\<exists>name sub rest. array = ArgString name # ArgString sub # rest \<and>
       (normal_name sub = ''LOAD'' \<and> length rest = 1 \<or>
        normal_name sub = ''EXISTS'' \<and> rest \<noteq> [] \<or>
        normal_name sub = ''FLUSH'' \<and>
          (rest = [] \<or> (\<exists>mode. rest = [ArgString mode] \<and> normal_name mode \<in> {''SYNC'', ''ASYNC''}))))"
proof -
  have rl: "scoped t ''SCRIPT''"
    using parse_command_Ok_promises(1) [OF assms(1)] assms(2) script_scope
    by (auto simp: admitted_def)
  obtain name rest where arr: "array = ArgString name # rest" "is_ok (validate_subcommand array)"
    using assms unfolding parse_command_def parse_command_array_Ok by auto
  have "cap_ratelimit t"
    using rl script_scope by (auto simp: scoped_def allows_ratelimit_def)
  then show ?thesis
    using arr(2) unfolding validate_subcommand_Ok arr(1) by simp
qed

theorem script_commands_filtered_witness:
  "parse_command sample_policy [ArgString ''script'', ArgString ''flush'', ArgString ''Sync'']
     \<lparr>cap_command = True, cap_ratelimit = True, cap_realtime = False\<rparr> =
       Ok \<lparr>rc_name = ''SCRIPT'', rc_args = [''flush'', ''Sync'']\<rparr> \<and>
   cap_ratelimit \<lparr>cap_command = True, cap_ratelimit = True, cap_realtime = False\<rparr>"
proof -
  have p: "parse_command sample_policy [ArgString ''script'', ArgString ''flush'', ArgString ''Sync'']
     \<lparr>cap_command = True, cap_ratelimit = True, cap_realtime = False\<rparr> =
       Ok \<lparr>rc_name = ''SCRIPT'', rc_args = [''flush'', ''Sync'']\<rparr>"
    by (simp add: sample_eval validate_subcommand_def nth_arg_def)
  show ?thesis using p script_commands_filtered [OF p] by simp
qed

text \<open>The blocklist is purely subtractive: adding commands to it refuses exactly those commands and
  changes nothing else, so no configuration of it re-enables a command.\<close>

theorem blocklist_subtractive:
  "parse_command (p\<lparr>blocked_commands := blocked_commands p \<union> B\<rparr>) array t = Ok cmd \<longleftrightarrow>
     parse_command p array t = Ok cmd \<and> rc_name cmd \<notin> B"
  unfolding parse_command_def parse_command_array_Ok by (auto simp: admitted_def)

text \<open>A batch is all or nothing: it is accepted exactly when it is within the pipeline limit and
  each of its commands is accepted alone, and the result has the commands in the order sent.\<close>

theorem batch_all_or_nothing:
  "parse_command_list p commands t = Ok cmds \<longleftrightarrow>
     length commands \<le> max_pipeline_commands p \<and>
     list_all2 (\<lambda>command cmd. parse_command p command t = Ok cmd) commands cmds"
  unfolding parse_command_list_Ok parse_command_def
  by (auto simp: list_all2_conv_all_nth list_eq_iff_nth_eq)

lemma collect_results_first_error:
  "i < length rs \<Longrightarrow> rs ! i = Inl e \<Longrightarrow> (\<And>j. j < i \<Longrightarrow> is_ok (rs ! j)) \<Longrightarrow> collect_results rs = Inl e"
proof (induction rs arbitrary: i rule: collect_results.induct)
  case (2 e' rs)
  then show ?case by (cases i) force+
next
  case (3 a rs)
  obtain k where i: "i = Suc k" using "3.prems"(2) by (cases i) auto
  have "is_ok (rs ! j)" if "j < k" for j
    using "3.prems"(3) [of "Suc j"] that i by simp
  then have "collect_results rs = Inl e" using "3.IH" [of k] "3.prems" i by simp
  then show ?case by simp
qed simp

text \<open>A refused batch within the limit reports the error of its first command that is refused.\<close>

theorem batch_first_error:
  assumes "length commands \<le> max_pipeline_commands p" and "i < length commands"
    and "parse_command p (commands ! i) t = Err e"
    and "\<forall>j < i. is_ok (parse_command p (commands ! j) t)"
  shows "parse_command_list p commands t = Err e"
  using assms unfolding parse_command_list_def parse_command_def
  by (auto intro!: collect_results_first_error [of i])

theorem batch_first_error_witness:
  "parse_command_list sample_policy [[ArgString '' get ''], [], [ArgNull]] TokenCaps_command =
     Err EmptyCommand"
proof (rule batch_first_error [where i = 1])
  show "\<forall>j < 1. is_ok (parse_command sample_policy
      ([[ArgString '' get ''], [], [ArgNull]] ! j) TokenCaps_command)"
    by (simp add: sample_eval)
qed (simp_all add: sample_eval)

end
