(* ===== verification/Rust_Net.thy ===== *)
theory Rust_Net
  imports Rust_Str
begin

text \<open>
  Addresses of the Rust standard library and the parser behind \<^verbatim>\<open>str::parse::<IpAddr>()\<close> and
  \<^verbatim>\<open>str::parse::<SocketAddr>()\<close> (\<^verbatim>\<open>core::net\<close>). A reader takes the bytes that are left and returns
  its value with the bytes after it; \<open>None\<close> leaves the position where it was.
\<close>

datatype ip_addr = V4 "32 word" | V6 "128 word"

type_synonym 'a reader = "string \<Rightarrow> ('a \<times> string) option"

section \<open>Characters and numbers\<close>

fun read_given_char :: "char \<Rightarrow> unit reader" where
  "read_given_char c [] = None"
| "read_given_char c (d # s) = (if c = d then Some ((), s) else None)"

text \<open>\<^verbatim>\<open>char::to_digit\<close> for the radices 10 and 16.\<close>

abbreviation ibyte :: "char \<Rightarrow> int" where
  "ibyte c \<equiv> of_char c"

definition to_digit :: "int \<Rightarrow> char \<Rightarrow> int option" where
  "to_digit radix c =
     (if 48 \<le> ibyte c \<and> ibyte c \<le> 57 then Some (ibyte c - 48)
      else if radix = 16 \<and> 97 \<le> ibyte c \<and> ibyte c \<le> 102 then Some (ibyte c - 87)
      else if radix = 16 \<and> 65 \<le> ibyte c \<and> ibyte c \<le> 70 then Some (ibyte c - 55)
      else None)"

fun read_digits :: "int \<Rightarrow> string \<Rightarrow> int list \<times> string" where
  "read_digits radix [] = ([], [])"
| "read_digits radix (c # s) =
     (case to_digit radix c of
        None \<Rightarrow> ([], c # s)
      | Some d \<Rightarrow> (let (ds, s') = read_digits radix s in (d # ds, s')))"

text \<open>
  \<^verbatim>\<open>read_number\<close>: the digits in front, at most \<open>max_digits\<close> of them if that is given, without a
  leading zero unless allowed, and with a value that fits the type (at most \<open>max_value\<close>). The
  values are kept as integers, whose numerals compute in binary.
\<close>

definition be_value :: "int \<Rightarrow> int list \<Rightarrow> int" where
  "be_value base ds = foldl (\<lambda>n d. base * n + d) 0 ds"

definition read_number :: "int \<Rightarrow> nat option \<Rightarrow> bool \<Rightarrow> int \<Rightarrow> int reader" where
  "read_number radix max_digits allow_zero_prefix max_value s =
     (let (ds, s') = read_digits radix s in
      if (case max_digits of None \<Rightarrow> False | Some m \<Rightarrow> length ds > m) then None
      else if ds = [] then None
      else if \<not> allow_zero_prefix \<and> hd ds = 0 \<and> length ds > 1 then None
      else if be_value radix ds \<le> max_value then Some (be_value radix ds, s') else None)"

text \<open>The separator stands before every group but the first (\<open>first\<close> is \<^verbatim>\<open>index == 0\<close>).\<close>

definition read_separator :: "char \<Rightarrow> bool \<Rightarrow> 'a reader \<Rightarrow> 'a reader" where
  "read_separator sep first inner s =
     (if first then inner s
      else Option.bind (read_given_char sep s) (\<lambda>(_, s'). inner s'))"

section \<open>Addresses\<close>

text \<open>
  The loops over the groups of an address recurse over the slots still to fill, each marked with
  whether it is the first one.
\<close>

fun read_octets :: "bool list \<Rightarrow> int list reader" where
  "read_octets [] s = Some ([], s)"
| "read_octets (first # slots) s =
     Option.bind (read_separator CHR ''.'' first (read_number 10 (Some 3) False 255) s)
       (\<lambda>(g, s'). map_option (\<lambda>(gs, r). (g # gs, r)) (read_octets slots s'))"

definition read_ipv4_octets :: "int list reader" where
  "read_ipv4_octets s = read_octets [True, False, False, False] s"

text \<open>
  \<^verbatim>\<open>read_groups\<close>: the 16-bit groups read, whether the last two come from an embedded IPv4 address
  (for which two slots must be left), and the bytes left.
\<close>

fun read_groups :: "bool list \<Rightarrow> string \<Rightarrow> int list \<times> bool \<times> string" where
  "read_groups [] s = ([], False, s)"
| "read_groups (first # slots) s =
     (case (if slots \<noteq> [] then read_separator CHR '':'' first read_ipv4_octets s else None) of
        Some (os, s') \<Rightarrow> ([256 * os ! 0 + os ! 1, 256 * os ! 2 + os ! 3], True, s')
      | None \<Rightarrow>
          (case read_separator CHR '':'' first (read_number 16 (Some 4) True 65535) s of
             None \<Rightarrow> ([], False, s)
           | Some (g, s') \<Rightarrow>
               (let (gs, v4, r) = read_groups slots s' in (g # gs, v4, r))))"

text \<open>The eight slots of an IPv6 address; the part after \<^verbatim>\<open>::\<close> has what the head left, less one.\<close>

definition ipv6_slots :: "bool list" where
  "ipv6_slots = [True, False, False, False, False, False, False, False]"

definition read_ipv6_groups :: "int list reader" where
  "read_ipv6_groups s =
     (let (head, head_ipv4, s1) = read_groups ipv6_slots s in
      if length head = 8 then Some (head, s1)
      else if head_ipv4 then None
      else Option.bind (read_given_char CHR '':'' s1) (\<lambda>(_, s2).
           Option.bind (read_given_char CHR '':'' s2) (\<lambda>(_, s3).
             let (tail, _, s4) = read_groups (take (8 - (length head + 1)) ipv6_slots) s3 in
             Some (head @ replicate (8 - length head - length tail) 0 @ tail, s4))))"

definition read_ipv4_addr :: "32 word reader" where
  "read_ipv4_addr s = map_option (\<lambda>(os, r). (word_of_int (be_value 256 os), r)) (read_ipv4_octets s)"

definition read_ipv6_addr :: "128 word reader" where
  "read_ipv6_addr s = map_option (\<lambda>(gs, r). (word_of_int (be_value 65536 gs), r)) (read_ipv6_groups s)"

definition read_ip_addr :: "ip_addr reader" where
  "read_ip_addr s =
     (case read_ipv4_addr s of
        Some (a, r) \<Rightarrow> Some (V4 a, r)
      | None \<Rightarrow> map_option (\<lambda>(a, r). (V6 a, r)) (read_ipv6_addr s))"

definition read_port :: "int reader" where
  "read_port s = Option.bind (read_given_char CHR '':'' s) (\<lambda>(_, s'). read_number 10 None True 65535 s')"

definition read_scope_id :: "int reader" where
  "read_scope_id s =
     Option.bind (read_given_char CHR ''%'' s) (\<lambda>(_, s'). read_number 10 None True 4294967295 s')"

text \<open>Of a socket address the bridge reads only \<^verbatim>\<open>ip()\<close>.\<close>

definition read_socket_addr_v4 :: "ip_addr reader" where
  "read_socket_addr_v4 s =
     Option.bind (read_ipv4_addr s) (\<lambda>(a, s1). map_option (\<lambda>(_, s2). (V4 a, s2)) (read_port s1))"

definition read_socket_addr_v6 :: "ip_addr reader" where
  "read_socket_addr_v6 s =
     Option.bind (read_given_char CHR ''['' s) (\<lambda>(_, s1).
     Option.bind (read_ipv6_addr s1) (\<lambda>(a, s2).
       let s3 = (case read_scope_id s2 of None \<Rightarrow> s2 | Some (_, r) \<Rightarrow> r) in
       Option.bind (read_given_char CHR '']'' s3) (\<lambda>(_, s4).
         map_option (\<lambda>(_, s5). (V6 a, s5)) (read_port s4))))"

definition read_socket_addr :: "ip_addr reader" where
  "read_socket_addr s =
     (case read_socket_addr_v4 s of Some r \<Rightarrow> Some r | None \<Rightarrow> read_socket_addr_v6 s)"

text \<open>\<^verbatim>\<open>parse_with\<close>: the reader must consume the whole string.\<close>

definition parse_all :: "'a reader \<Rightarrow> string \<Rightarrow> 'a option" where
  "parse_all reader s = (case reader s of Some (a, []) \<Rightarrow> Some a | _ \<Rightarrow> None)"

definition parse_ip_addr :: "string \<Rightarrow> ip_addr option" where
  "parse_ip_addr s = parse_all read_ip_addr s"

definition parse_socket_ip :: "string \<Rightarrow> ip_addr option" where
  "parse_socket_ip s = parse_all read_socket_addr s"

section \<open>Printing an IPv4 address and reading it back\<close>

definition show_ipv4 :: "nat \<Rightarrow> nat \<Rightarrow> nat \<Rightarrow> nat \<Rightarrow> string" where
  "show_ipv4 a b c d =
     show_nat a @ ''.'' @ show_nat b @ ''.'' @ show_nat c @ ''.'' @ show_nat d"

definition ipv4 :: "nat \<Rightarrow> nat \<Rightarrow> nat \<Rightarrow> nat \<Rightarrow> ip_addr" where
  "ipv4 a b c d = V4 (word_of_int (be_value 256 [int a, int b, int c, int d]))"

definition digit_values :: "string \<Rightarrow> int list" where
  "digit_values s = map (\<lambda>c. ibyte c - 48) s"

lemma ibyte_byte: "ibyte c = int (byte c)"
  by (simp add: of_nat_of_char)

lemma to_digit_digit: "is_digit c \<Longrightarrow> to_digit 10 c = Some (ibyte c - 48)"
  by (simp add: is_digit_def to_digit_def ibyte_byte)

lemma read_digits_append:
  "list_all is_digit ds \<Longrightarrow> (s = [] \<or> to_digit 10 (hd s) = None) \<Longrightarrow>
     read_digits 10 (ds @ s) = (digit_values ds, s)"
proof (induction ds)
  case Nil
  then show ?case by (cases s) (auto simp: digit_values_def)
qed (auto simp: digit_values_def to_digit_digit)

lemma be_value_digit_values:
  "list_all is_digit s \<Longrightarrow> be_value 10 (digit_values s) = int (digits_value s)"
proof (induction s rule: rev_induct)
  case (snoc c s)
  then show ?case
    by (simp add: be_value_def digit_values_def is_digit_def of_nat_diff ibyte_byte)
qed (simp add: be_value_def digit_values_def digits_value_def)

lemma show_nat_lt_1000: "n < 1000 \<Longrightarrow> length (show_nat n) \<le> 3"
  by (simp add: show_nat.simps [of n] show_nat.simps [of "n div 10"]
      show_nat.simps [of "n div 10 div 10"] less_mult_imp_div_less)

lemma hd_show_nat: "n \<noteq> 0 \<Longrightarrow> byte (hd (show_nat n)) \<noteq> 48"
proof (induction n rule: show_nat.induct)
  case (1 n)
  then show ?case
    by (cases "n < 10") (auto simp: show_nat.simps [of n] hd_append)
qed

lemma show_nat_zero_lead:
  assumes "hd (digit_values (show_nat n)) = 0"
  shows "length (digit_values (show_nat n)) = 1"
proof -
  have "ibyte (hd (show_nat n)) = 48" using assms by (simp add: digit_values_def hd_map)
  then have "byte (hd (show_nat n)) = 48" by (metis ibyte_byte of_nat_eq_iff of_nat_numeral)
  then have "n = 0" using hd_show_nat by blast
  then show ?thesis by (simp add: digit_values_def show_nat.simps)
qed

lemma read_number_show_nat:
  assumes "n \<le> 255" and "s = [] \<or> to_digit 10 (hd s) = None"
  shows "read_number 10 (Some 3) False 255 (show_nat n @ s) = Some (int n, s)"
proof -
  let ?ds = "digit_values (show_nat n)"
  have rd: "read_digits 10 (show_nat n @ s) = (?ds, s)"
    by (rule read_digits_append [OF show_nat_digits assms(2)])
  have val: "be_value 10 ?ds = int n"
    by (simp add: be_value_digit_values show_nat_digits)
  have len: "length ?ds \<le> 3" using show_nat_lt_1000 [of n] assms(1) by (simp add: digit_values_def)
  have ne: "?ds \<noteq> []" by (simp add: digit_values_def)
  show ?thesis
    unfolding read_number_def rd using val len ne show_nat_zero_lead [of n] assms(1) by auto
qed

lemma dot_not_digit [simp]: "to_digit 10 CHR ''.'' = None"
  by (simp add: to_digit_def)

lemma colon_not_digit [simp]: "to_digit 10 CHR '':'' = None"
  by (simp add: to_digit_def)

lemma read_show_ipv4:
  assumes "a \<le> 255" "b \<le> 255" "c \<le> 255" "d \<le> 255" and "s = [] \<or> to_digit 10 (hd s) = None"
  shows "read_ipv4_octets (show_ipv4 a b c d @ s) = Some ([int a, int b, int c, int d], s)"
  using assms by (simp add: read_ipv4_octets_def show_ipv4_def read_separator_def read_number_show_nat)

lemma parse_show_ipv4:
  assumes "a \<le> 255" "b \<le> 255" "c \<le> 255" "d \<le> 255"
  shows "parse_ip_addr (show_ipv4 a b c d) = Some (ipv4 a b c d)"
  using read_show_ipv4 [OF assms, of "[]"]
  by (simp add: parse_ip_addr_def parse_all_def read_ip_addr_def read_ipv4_addr_def ipv4_def)

lemma read_port_show_nat: "p \<le> 65535 \<Longrightarrow> read_port (CHR '':'' # show_nat p) = Some (int p, [])"
  using read_digits_append [OF show_nat_digits, of "[]" p] be_value_digit_values [OF show_nat_digits, of p]
  by (simp add: read_port_def read_number_def Let_def digit_values_def)

lemma parse_show_socket:
  assumes "a \<le> 255" "b \<le> 255" "c \<le> 255" "d \<le> 255" "p \<le> 65535"
  shows "parse_ip_addr (show_ipv4 a b c d @ CHR '':'' # show_nat p) = None"
    and "parse_socket_ip (show_ipv4 a b c d @ CHR '':'' # show_nat p) = Some (ipv4 a b c d)"
proof -
  have "read_ipv4_octets (show_ipv4 a b c d @ CHR '':'' # show_nat p) =
      Some ([int a, int b, int c, int d], CHR '':'' # show_nat p)"
    by (rule read_show_ipv4) (use assms in simp_all)
  then show "parse_ip_addr (show_ipv4 a b c d @ CHR '':'' # show_nat p) = None"
    and "parse_socket_ip (show_ipv4 a b c d @ CHR '':'' # show_nat p) = Some (ipv4 a b c d)"
    using read_port_show_nat [OF assms(5)]
    by (simp_all add: parse_ip_addr_def parse_socket_ip_def parse_all_def read_ip_addr_def
        read_ipv4_addr_def read_socket_addr_def read_socket_addr_v4_def ipv4_def)
qed

end
