(* ===== verification/Client.thy ===== *)
theory Client
  imports Rust_Net
begin

unbundle bit_operations_syntax

text \<open>
  The client address (\<^verbatim>\<open>src/client/\<close>): the forwarding headers, the list of trusted proxies and the
  resolution of the address that authentication lockout counts against. A request's headers are
  the function from a header name to the text \<^verbatim>\<open>headers.get(name)\<close> with \<^verbatim>\<open>to_str\<close> gives, \<open>None\<close>
  where the header is missing or is no visible ASCII.
\<close>

type_synonym headers = "string \<Rightarrow> string option"

section \<open>Candidates and masks (parse.rs)\<close>

definition parse_ip_candidate :: "string \<Rightarrow> ip_addr option" where
  "parse_ip_candidate value =
     (let value = trim_matches CHR 0x22 (trim value) in
      if value = [] \<or> eq_ignore_ascii_case value ''unknown'' then None
      else case parse_ip_addr value of
        Some ip \<Rightarrow> Some ip
      | None \<Rightarrow>
        (case parse_socket_ip value of
           Some ip \<Rightarrow> Some ip
         | None \<Rightarrow>
           (case strip_prefix ''['' value of
              Some rest \<Rightarrow>
                Option.bind (split_once CHR '']'' rest) (\<lambda>(ip, _). parse_ip_addr ip)
            | None \<Rightarrow>
                if count_list value CHR '':'' = 1
                then Option.bind (rsplit_once CHR '':'' value) (\<lambda>(ip, _). parse_ip_addr ip)
                else None)))"

text \<open>
  \<^verbatim>\<open>u32::MAX << (32 - prefix)\<close>: the subtraction is on \<^verbatim>\<open>u8\<close> and the shift amount is taken modulo
  the width, as in the release build; neither wraps for a prefix from 1 to the width.
\<close>

definition prefix_mask_v4 :: "8 word \<Rightarrow> 32 word" where
  "prefix_mask_v4 p =
     (if p = 0 then 0 else push_bit (unat (32 - p) mod 32) (- 1))"

definition prefix_mask_v6 :: "8 word \<Rightarrow> 128 word" where
  "prefix_mask_v6 p =
     (if p = 0 then 0 else push_bit (unat (128 - p) mod 128) (- 1))"

section \<open>Forwarding headers (headers.rs)\<close>

definition header_ip :: "headers \<Rightarrow> string \<Rightarrow> ip_addr option" where
  "header_ip headers name = Option.bind (headers name) parse_ip_candidate"

text \<open>\<^verbatim>\<open>find_map\<close>: the first element with a result.\<close>

fun find_map :: "('a \<Rightarrow> 'b option) \<Rightarrow> 'a list \<Rightarrow> 'b option" where
  "find_map f [] = None"
| "find_map f (x # xs) = (case f x of None \<Rightarrow> find_map f xs | Some y \<Rightarrow> Some y)"

definition x_forwarded_for_ip :: "headers \<Rightarrow> ip_addr option" where
  "x_forwarded_for_ip headers =
     Option.bind (headers ''x-forwarded-for'')
       (\<lambda>value. find_map parse_ip_candidate (split_on CHR '','' value))"

definition forwarded_part :: "string \<Rightarrow> ip_addr option" where
  "forwarded_part part =
     Option.bind (split_once CHR ''='' (trim part)) (\<lambda>(key, value).
       if \<not> eq_ignore_ascii_case (trim key) ''for'' then None else parse_ip_candidate value)"

definition forwarded_header_ip :: "headers \<Rightarrow> ip_addr option" where
  "forwarded_header_ip headers =
     Option.bind (headers ''forwarded'') (\<lambda>value.
       find_map (\<lambda>entry. find_map forwarded_part (split_on CHR '';'' entry))
         (split_on CHR '','' value))"

definition or_else :: "'a option \<Rightarrow> 'a option \<Rightarrow> 'a option" where
  "or_else a b = (case a of None \<Rightarrow> b | Some x \<Rightarrow> Some x)"

definition forwarded_ip :: "headers \<Rightarrow> ip_addr option" where
  "forwarded_ip headers =
     or_else (header_ip headers ''cf-connecting-ip'')
    (or_else (header_ip headers ''true-client-ip'')
    (or_else (x_forwarded_for_ip headers)
    (or_else (header_ip headers ''x-real-ip'')
             (forwarded_header_ip headers))))"

section \<open>Trusted proxies (trusted.rs)\<close>

record trusted_proxy =
  network :: ip_addr
  prefix_len :: "8 word"

type_synonym trusted_proxies = "trusted_proxy list"

datatype proxy_error =
    InvalidProxyIp string
  | InvalidCidrAddress string
  | InvalidCidrPrefix string
  | InvalidIpv4Cidr string
  | InvalidIpv6Cidr string

definition TrustedProxy_parse :: "string \<Rightarrow> (proxy_error, trusted_proxy) result" where
  "TrustedProxy_parse value =
     (case split_once CHR ''/'' value of
        None \<Rightarrow>
          (case parse_ip_addr value of
             None \<Rightarrow> Err (InvalidProxyIp value)
           | Some ip \<Rightarrow>
               Ok \<lparr>network = ip, prefix_len = (case ip of V4 _ \<Rightarrow> 32 | V6 _ \<Rightarrow> 128)\<rparr>)
      | Some (ip, p) \<Rightarrow>
          (case parse_ip_addr ip of
             None \<Rightarrow> Err (InvalidCidrAddress value)
           | Some net \<Rightarrow>
               (case parse_uint u8_max p of
                  None \<Rightarrow> Err (InvalidCidrPrefix value)
                | Some p \<Rightarrow>
                    (case net of
                       V4 _ \<Rightarrow>
                         if p > 32 then Err (InvalidIpv4Cidr value)
                         else Ok \<lparr>network = net, prefix_len = of_nat p\<rparr>
                     | V6 _ \<Rightarrow>
                         if p > 128 then Err (InvalidIpv6Cidr value)
                         else Ok \<lparr>network = net, prefix_len = of_nat p\<rparr>))))"

fun parse_proxies :: "string list \<Rightarrow> (proxy_error, trusted_proxies) result" where
  "parse_proxies [] = Ok []"
| "parse_proxies (raw_entry # raws) =
     (let entry = trim raw_entry in
      if entry = [] then parse_proxies raws
      else and_then (TrustedProxy_parse entry) (\<lambda>e.
           and_then (parse_proxies raws) (\<lambda>es. Ok (e # es))))"

definition TrustedProxies_parse :: "string \<Rightarrow> (proxy_error, trusted_proxies) result" where
  "TrustedProxies_parse value = parse_proxies (split_on CHR '','' value)"

definition proxy_contains :: "trusted_proxy \<Rightarrow> ip_addr \<Rightarrow> bool" where
  "proxy_contains p ip =
     (case (network p, ip) of
        (V4 net, V4 ip) \<Rightarrow>
          (let mask = prefix_mask_v4 (prefix_len p) in net AND mask = ip AND mask)
      | (V6 net, V6 ip) \<Rightarrow>
          (let mask = prefix_mask_v6 (prefix_len p) in net AND mask = ip AND mask)
      | _ \<Rightarrow> False)"

definition is_trusted :: "trusted_proxies \<Rightarrow> ip_addr \<Rightarrow> bool" where
  "is_trusted entries ip = list_ex (\<lambda>entry. proxy_contains entry ip) entries"

definition resolve :: "trusted_proxies \<Rightarrow> headers \<Rightarrow> ip_addr \<Rightarrow> ip_addr" where
  "resolve entries headers peer_ip =
     (if \<not> is_trusted entries peer_ip then peer_ip
      else case forwarded_ip headers of None \<Rightarrow> peer_ip | Some ip \<Rightarrow> ip)"

section \<open>Prefixes as networks\<close>

definition proxy_wf :: "trusted_proxy \<Rightarrow> bool" where
  "proxy_wf p = (case network p of V4 _ \<Rightarrow> unat (prefix_len p) \<le> 32 | V6 _ \<Rightarrow> unat (prefix_len p) \<le> 128)"

text \<open>An address is in a network when its leading \<open>prefix_len\<close> bits are those of the network.\<close>

definition in_network :: "trusted_proxy \<Rightarrow> ip_addr \<Rightarrow> bool" where
  "in_network p ip =
     (case (network p, ip) of
        (V4 n, V4 a) \<Rightarrow> drop_bit (32 - unat (prefix_len p)) n = drop_bit (32 - unat (prefix_len p)) a
      | (V6 n, V6 a) \<Rightarrow> drop_bit (128 - unat (prefix_len p)) n = drop_bit (128 - unat (prefix_len p)) a
      | _ \<Rightarrow> False)"

lemma and_high_mask:
  fixes x y :: "'a::len word"
  shows "x AND NOT (mask k) = y AND NOT (mask k) \<longleftrightarrow> drop_bit k x = drop_bit k y"
proof -
  have hi: "x AND NOT (mask k) = push_bit k (drop_bit k x)" for x :: "'a word"
    by (rule bit_word_eqI)
       (auto simp: bit_and_iff bit_not_iff bit_mask_iff bit_push_bit_iff bit_drop_bit_eq)
  have "drop_bit k (push_bit k (drop_bit k x)) = drop_bit k x" for x :: "'a word"
    by (rule bit_word_eqI) (auto simp: bit_push_bit_iff bit_drop_bit_eq dest: bit_imp_le_length)
  then show ?thesis unfolding hi by metis
qed

lemma unat_width_minus:
  "p \<noteq> 0 \<Longrightarrow> unat p \<le> 32 \<Longrightarrow> unat (32 - p :: 8 word) mod 32 = 32 - unat p"
  "p \<noteq> 0 \<Longrightarrow> unat p \<le> 128 \<Longrightarrow> unat (128 - p :: 8 word) mod 128 = 128 - unat p"
  by (simp_all add: unat_sub word_le_nat_alt unat_gt_0)

lemma drop_bit_width [simp]: "drop_bit LENGTH('a) (x :: 'a::len word) = 0"
  by (rule bit_word_eqI) (auto simp: bit_drop_bit_eq dest: bit_imp_le_length)

lemma v4_mask:
  "unat p \<le> 32 \<Longrightarrow> n AND prefix_mask_v4 p = a AND prefix_mask_v4 p \<longleftrightarrow>
     drop_bit (32 - unat p) n = drop_bit (32 - unat p) a"
  using drop_bit_width [of n] drop_bit_width [of a]
  by (cases "p = 0") (simp_all add: prefix_mask_v4_def unat_width_minus and_high_mask)

lemma v6_mask:
  "unat p \<le> 128 \<Longrightarrow> n AND prefix_mask_v6 p = a AND prefix_mask_v6 p \<longleftrightarrow>
     drop_bit (128 - unat p) n = drop_bit (128 - unat p) a"
  using drop_bit_width [of n] drop_bit_width [of a]
  by (cases "p = 0") (simp_all add: prefix_mask_v6_def unat_width_minus and_high_mask)

lemma proxy_contains_in_network: "proxy_wf p \<Longrightarrow> proxy_contains p ip = in_network p ip"
  by (auto simp: proxy_wf_def proxy_contains_def in_network_def v4_mask v6_mask Let_def
      split: ip_addr.splits)

lemma TrustedProxy_parse_wf: "TrustedProxy_parse v = Ok p \<Longrightarrow> proxy_wf p"
  by (auto simp: TrustedProxy_parse_def proxy_wf_def unat_of_nat
      split: option.splits ip_addr.splits if_splits)

lemma parse_proxies_wf: "parse_proxies raws = Ok ps \<Longrightarrow> list_all proxy_wf ps"
  by (induction raws arbitrary: ps) (auto simp: Let_def TrustedProxy_parse_wf split: if_splits)

lemma is_trusted_networks:
  assumes "TrustedProxies_parse cfg = Ok ps"
  shows "is_trusted ps ip \<longleftrightarrow> (\<exists>p \<in> set ps. in_network p ip)"
proof -
  have "list_all proxy_wf ps"
    using assms by (simp add: TrustedProxies_parse_def parse_proxies_wf)
  then show ?thesis
    by (auto simp: is_trusted_def list_ex_iff list_all_iff proxy_contains_in_network)
qed

section \<open>Candidates that are IPv4 addresses\<close>

lemma digit_graphic: "is_digit c \<Longrightarrow> graphic c \<and> c \<noteq> CHR 0x22 \<and> c \<noteq> CHR ''['' \<and> c \<noteq> CHR '':''"
  by (auto simp: is_digit_def graphic_def)

lemma show_nat_graphic: "list_all (\<lambda>c. graphic c \<and> c \<noteq> CHR 0x22) (show_nat n)"
  using show_nat_digits [of n] by (auto simp: list_all_iff digit_graphic)

lemma show_ipv4_graphic: "list_all (\<lambda>c. graphic c \<and> c \<noteq> CHR 0x22) (show_ipv4 a b c d)"
  using show_nat_graphic by (simp add: show_ipv4_def graphic_def)

lemma show_ipv4_hd: "\<exists>x s. show_ipv4 a b c d = x # s \<and> is_digit x"
proof -
  obtain x s where xs: "show_nat a = x # s" by (cases "show_nat a") auto
  then show ?thesis using show_nat_digits [of a] by (simp add: show_ipv4_def)
qed

lemma trim_matches_other:
  assumes "list_all (\<lambda>c. graphic c \<and> c \<noteq> q) s"
  shows "trim_matches q s = s"
proof -
  have "dropWhile ((=) q) t = t" if "list_all (\<lambda>c. graphic c \<and> c \<noteq> q) t" for t
    using that by (cases t) auto
  from this [OF assms] this [of "rev s"] show ?thesis
    using assms by (simp add: trim_matches_def list_all_iff)
qed

lemma trim_matches_quoted:
  assumes "list_all (\<lambda>c. graphic c \<and> c \<noteq> q) s"
  shows "trim_matches q (q # s @ [q]) = s"
proof (cases s rule: rev_cases)
  case Nil
  then show ?thesis by (simp add: trim_matches_def)
next
  case (snoc t z)
  then have "s \<noteq> []" by simp
  then obtain y u where yu: "s = y # u" by (cases s) auto
  have "q \<noteq> z" using assms snoc by auto
  then have tail: "dropWhile ((=) q) (rev s) = rev s" using snoc by simp
  have "q \<noteq> y" using assms yu by auto
  then have "dropWhile ((=) q) (s @ [q]) = s @ [q]" using yu by simp
  then show ?thesis using tail by (simp add: trim_matches_def)
qed

lemma digit_not_unknown: "is_digit x \<Longrightarrow> \<not> eq_ignore_ascii_case (x # s) ''unknown''"
  by (auto simp: eq_ignore_ascii_case_def to_ascii_lowercase_def ascii_lower_def is_digit_def)

lemma candidate_plain:
  assumes "list_all (\<lambda>c. graphic c \<and> c \<noteq> CHR 0x22) t" and "t = x # s" and "is_digit x"
    and "v = t \<or> v = CHR 0x22 # t @ [CHR 0x22]"
    and "parse_ip_addr t = Some ip \<or> parse_ip_addr t = None \<and> parse_socket_ip t = Some ip"
  shows "parse_ip_candidate v = Some ip"
proof -
  have tv: "trim v = v"
  proof (rule trim_graphic)
    have "list_all graphic t" using assms(1) by (simp add: list_all_iff)
    moreover have "graphic CHR 0x22" by (simp add: graphic_def)
    ultimately show "list_all graphic v" using assms(4) by (elim disjE) simp_all
  qed
  have "trim_matches CHR 0x22 (trim v) = t"
    using assms(4) trim_matches_other [OF assms(1)] trim_matches_quoted [OF assms(1)]
    unfolding tv by (elim disjE) simp_all
  moreover have "t \<noteq> []" using assms(2) by simp
  moreover have "\<not> eq_ignore_ascii_case t ''unknown''"
    unfolding assms(2) by (rule digit_not_unknown [OF assms(3)])
  ultimately have "parse_ip_candidate v =
      (case parse_ip_addr t of Some ip \<Rightarrow> Some ip | None \<Rightarrow> parse_ip_candidate v)" and
    "parse_ip_addr t = None \<Longrightarrow> parse_socket_ip t = Some ip \<Longrightarrow> parse_ip_candidate v = Some ip"
    unfolding parse_ip_candidate_def Let_def by (simp_all split: option.splits)
  then show ?thesis using assms(5) by auto
qed

section \<open>Properties\<close>

text \<open>C25: Requests from untrusted peers cannot choose the client address: when the peer is in none of the
  configured networks (its leading prefix bits differ from those of every entry), the resolved
  address is the peer's own, whatever the request's headers say.\<close>

theorem untrusted_peer_keeps_address:
  assumes "TrustedProxies_parse cfg = Ok ps" and "\<forall>p \<in> set ps. \<not> in_network p peer"
  shows "resolve ps headers peer = peer"
  using is_trusted_networks [OF assms(1), of peer] assms(2) by (simp add: resolve_def)

definition sample_proxies :: string where
  "sample_proxies = ''127.0.0.1, 172.16.0.0/12''"

lemma sample_proxies_parse:
  "TrustedProxies_parse sample_proxies =
     Ok [\<lparr>network = V4 0x7F000001, prefix_len = 32\<rparr>, \<lparr>network = V4 0xAC100000, prefix_len = 12\<rparr>]"
  by code_simp

theorem untrusted_peer_keeps_address_witness:
  "resolve [\<lparr>network = V4 0x7F000001, prefix_len = 32\<rparr>, \<lparr>network = V4 0xAC100000, prefix_len = 12\<rparr>]
     (\<lambda>_. Some ''203.0.113.10'') (V4 0xC6336414) = V4 0xC6336414"
proof (rule untrusted_peer_keeps_address [OF sample_proxies_parse])
  show "\<forall>p \<in> set [\<lparr>network = V4 0x7F000001, prefix_len = 32\<rparr>,
      \<lparr>network = V4 0xAC100000, prefix_len = 12\<rparr>]. \<not> in_network p (V4 0xC6336414)"
    by (simp add: in_network_def)
qed

text \<open>C26: The masks of \<^verbatim>\<open>prefix_mask_v4\<close> and \<^verbatim>\<open>prefix_mask_v6\<close> implement CIDR membership: for every entry
  the parser accepts, \<^verbatim>\<open>contains\<close> holds exactly for the addresses of the same family whose leading
  prefix bits are the network's, also for the prefix lengths 0 and the full width.\<close>

theorem cidr_membership:
  "TrustedProxy_parse entry = Ok p \<Longrightarrow> proxy_contains p ip \<longleftrightarrow> in_network p ip"
  by (rule proxy_contains_in_network) (rule TrustedProxy_parse_wf)

theorem cidr_membership_witness:
  "proxy_contains \<lparr>network = V4 0xAC100000, prefix_len = 12\<rparr> (V4 0xAC140005)"
proof -
  have p: "TrustedProxy_parse ''172.16.0.0/12'' = Ok \<lparr>network = V4 0xAC100000, prefix_len = 12\<rparr>"
    by code_simp
  show ?thesis
    unfolding cidr_membership [OF p] by (simp add: in_network_def)
qed

text \<open>Every IPv4 address is read back from the forms proxies write it in: plain, in double quotes,
  and followed by a port, quoted or not.\<close>

theorem ipv4_candidate_roundtrip:
  assumes "a \<le> 255" "b \<le> 255" "c \<le> 255" "d \<le> 255" "port \<le> 65535"
    and "form = show_ipv4 a b c d \<or> form = show_ipv4 a b c d @ '':'' @ show_nat port"
  shows "parse_ip_candidate form = Some (ipv4 a b c d) \<and>
         parse_ip_candidate (CHR 0x22 # form @ [CHR 0x22]) = Some (ipv4 a b c d)"
proof -
  have gr: "list_all (\<lambda>c. graphic c \<and> c \<noteq> CHR 0x22) form"
    using assms(6) show_ipv4_graphic [of a b c d] show_nat_graphic [of port]
    by (elim disjE) (simp_all add: graphic_def)
  obtain x s where xs: "form = x # s" "is_digit x"
    using assms(6) show_ipv4_hd [of a b c d] by (elim disjE exE conjE) simp_all
  have ip: "parse_ip_addr form = Some (ipv4 a b c d) \<or>
      parse_ip_addr form = None \<and> parse_socket_ip form = Some (ipv4 a b c d)"
    using assms(6) parse_show_ipv4 [OF assms(1-4)] parse_show_socket [OF assms(1-5)]
    by (elim disjE) simp_all
  show ?thesis
    using candidate_plain [OF gr xs _ ip, of form]
      candidate_plain [OF gr xs _ ip, of "CHR 0x22 # form @ [CHR 0x22]"] by simp
qed

theorem ipv4_candidate_roundtrip_witness:
  "parse_ip_candidate (show_ipv4 203 0 113 10 @ '':'' @ show_nat 443) = Some (ipv4 203 0 113 10)"
  using ipv4_candidate_roundtrip [of 203 0 113 10 443 "show_ipv4 203 0 113 10 @ '':'' @ show_nat 443"]
  by simp

end
