(* ===== verification/Config.thy ===== *)
theory Config
  imports Policy Client
begin

text \<open>
  Configuration (\<^verbatim>\<open>src/config/mod.rs\<close>, \<^verbatim>\<open>env.rs\<close>, \<^verbatim>\<open>targets.rs\<close>): the bridge's settings from the process
  environment, and the Redis targets with their tokens from the environment or from a file. The
  environment, the file system and the JSON parser are parameters.
\<close>

section \<open>The environment\<close>

datatype env_var = Present string | NotPresent | NotUnicode

type_synonym env = "string \<Rightarrow> env_var"

datatype config_error =
    InvalidValue string string
  | ReadFailed string
  | NotBoolean string string
  | ProxyError proxy_error
  | PolicyError validate_error
  | TokenError token_error
  | HashError hash_error
  | UnreadableFile string
  | InvalidJson
  | Bail string

definition map_err :: "('e \<Rightarrow> 'f) \<Rightarrow> ('e, 'a) result \<Rightarrow> ('f, 'a) result" where
  "map_err f r = (case r of Inl e \<Rightarrow> Inl (f e) | Inr a \<Rightarrow> Inr a)"

lemma map_err_Inr [simp]: "map_err f r = Inr a \<longleftrightarrow> r = Inr a"
  by (cases r) (simp_all add: map_err_def)

text \<open>A \<^verbatim>\<open>bail!\<close> behind a condition.\<close>

definition ensure :: "bool \<Rightarrow> config_error \<Rightarrow> (config_error, unit) result" where
  "ensure c e = (if c then Ok () else Err e)"

lemma ensure_Inr [simp]: "ensure c e = Inr u \<longleftrightarrow> c"
  by (simp add: ensure_def)

text \<open>The parameter \<open>parse\<close> is the \<^verbatim>\<open>FromStr\<close> of the setting's type.\<close>

definition parse_env_or_default ::
    "env \<Rightarrow> (string \<Rightarrow> 'a option) \<Rightarrow> string \<Rightarrow> 'a \<Rightarrow> (config_error, 'a) result" where
  "parse_env_or_default env parse key dflt =
     (case env key of
        Present value \<Rightarrow> (case parse value of Some x \<Rightarrow> Ok x | None \<Rightarrow> Err (InvalidValue key value))
      | NotPresent \<Rightarrow> Ok dflt
      | NotUnicode \<Rightarrow> Err (ReadFailed key))"

fun parse_env_first ::
    "env \<Rightarrow> (string \<Rightarrow> 'a option) \<Rightarrow> string list \<Rightarrow> 'a \<Rightarrow> (config_error, 'a) result" where
  "parse_env_first env parse [] dflt = Ok dflt"
| "parse_env_first env parse (key # keys) dflt =
     (case env key of
        Present value \<Rightarrow> (case parse value of Some x \<Rightarrow> Ok x | None \<Rightarrow> Err (InvalidValue key value))
      | NotPresent \<Rightarrow> parse_env_first env parse keys dflt
      | NotUnicode \<Rightarrow> Err (ReadFailed key))"

definition parse_csv :: "string \<Rightarrow> string set" where
  "parse_csv value =
     set (filter (\<lambda>item. item \<noteq> []) (map (\<lambda>item. to_ascii_uppercase (trim item)) (split_on CHR '','' value)))"

fun parse_csv_env_first :: "env \<Rightarrow> string list \<Rightarrow> (config_error, string set option) result" where
  "parse_csv_env_first env [] = Ok None"
| "parse_csv_env_first env (key # keys) =
     (case env key of
        Present value \<Rightarrow> Ok (Some (parse_csv value))
      | NotPresent \<Rightarrow> parse_csv_env_first env keys
      | NotUnicode \<Rightarrow> Err (ReadFailed key))"

definition parse_bool_env :: "env \<Rightarrow> string \<Rightarrow> bool \<Rightarrow> (config_error, bool) result" where
  "parse_bool_env env key dflt =
     (case env key of
        Present value \<Rightarrow>
          let v = to_ascii_lowercase (trim value) in
          if v \<in> {''1'', ''true'', ''yes'', ''on''} then Ok True
          else if v \<in> {''0'', ''false'', ''no'', ''off''} then Ok False
          else Err (NotBoolean key v)
      | NotPresent \<Rightarrow> Ok dflt
      | NotUnicode \<Rightarrow> Err (ReadFailed key))"

definition env_parse_command_list :: "string list \<Rightarrow> string set" where
  "env_parse_command_list commands =
     set (filter (\<lambda>c. c \<noteq> []) (map (\<lambda>c. to_ascii_uppercase (trim c)) commands))"

fun present :: "env_var \<Rightarrow> string option" where
  "present (Present v) = Some v"
| "present _ = None"

definition env_first :: "env \<Rightarrow> string list \<Rightarrow> string option" where
  "env_first env keys = find_map (\<lambda>key. present (env key)) keys"

definition env_or :: "env \<Rightarrow> string \<Rightarrow> string \<Rightarrow> string" where
  "env_or env key fallback = (case present (env key) of Some v \<Rightarrow> v | None \<Rightarrow> fallback)"

text \<open>\<^verbatim>\<open>map(trim)\<close> and \<^verbatim>\<open>filter(not empty)\<close> of an optional setting.\<close>

definition trimmed_nonempty :: "string option \<Rightarrow> string option" where
  "trimmed_nonempty v = Option.bind v (\<lambda>s. if trim s = [] then None else Some (trim s))"

definition ok_or :: "'a option \<Rightarrow> 'e \<Rightarrow> ('e, 'a) result" where
  "ok_or v e = (case v of Some x \<Rightarrow> Ok x | None \<Rightarrow> Err e)"

lemma ok_or_Inr [simp]: "ok_or v e = Inr x \<longleftrightarrow> v = Some x"
  by (simp add: ok_or_def split: option.splits)

definition parse_token_type :: "string option \<Rightarrow> string \<Rightarrow> (config_error, token_caps) result" where
  "parse_token_type value key =
     (case value of None \<Rightarrow> Ok TokenCaps_default
      | Some v \<Rightarrow> map_err TokenError (TokenCaps_parse v key))"

section \<open>Targets and tokens\<close>

record auth_token =
  tok_id :: string
  tok_name :: "string option"
  tok_hash :: token_hash
  tok_enabled :: bool
  tok_type :: token_caps

record redis_config =
  rrb_id :: string
  connection_string :: string
  operation_limit :: nat
  connection_shards :: nat
  tokens :: "auth_token list"

definition default_operation_limit :: nat where
  "default_operation_limit = 100"

definition default_connection_shards :: nat where
  "default_connection_shards = 4"

definition default_enabled :: bool where
  "default_enabled = True"

definition load_env_target :: "digests \<Rightarrow> env \<Rightarrow> (config_error, redis_config list) result" where
  "load_env_target D env =
     and_then (ok_or (trimmed_nonempty (env_first env [''RRB_TOKEN'']))
                     (Bail ''RRB_TOKEN is required when mode=env'')) (\<lambda>token.
     and_then (ok_or (trimmed_nonempty (env_first env [''RRB_CONNECTION_STRING'', ''REDIS_URL'']))
                     (Bail ''RRB_CONNECTION_STRING or REDIS_URL is required when mode=env'')) (\<lambda>conn.
     and_then (parse_env_first env (parse_uint usize_max) [''RRB_OPERATION_LIMIT'']
                 default_operation_limit) (\<lambda>limit.
     and_then (parse_env_first env (parse_uint usize_max) [''RRB_CONNECTION_SHARDS'']
                 default_connection_shards) (\<lambda>shards.
     and_then (parse_token_type (env_first env [''RRB_TOKEN_TYPE'']) ''RRB_TOKEN_TYPE'') (\<lambda>caps.
     and_then (ensure (limit \<noteq> 0) (Bail ''RRB_OPERATION_LIMIT must be greater than zero'')) (\<lambda>_.
     and_then (ensure (shards \<noteq> 0) (Bail ''RRB_CONNECTION_SHARDS must be greater than zero'')) (\<lambda>_.
     Ok [\<lparr>rrb_id = ''env'', connection_string = conn, operation_limit = limit,
          connection_shards = shards,
          tokens = [\<lparr>tok_id = ''env'', tok_name = Some ''Environment token'',
                     tok_hash = TokenHash_sha256 D token, tok_enabled = True,
                     tok_type = caps\<rparr>]\<rparr>])))))))"

text \<open>
  The token file as \<^verbatim>\<open>serde_json\<close> delivers it; a field with a default may be absent.
\<close>

record file_auth_token =
  ft_id :: string
  ft_name :: "string option"
  ft_hash :: string
  ft_enabled :: "bool option"
  ft_token_type :: "string option"

record file_target =
  fg_rrb_id :: string
  fg_connection_string :: string
  fg_operation_limit :: "nat option"
  fg_connection_shards :: "nat option"
  fg_tokens :: "file_auth_token list"

record file_config =
  fc_version :: nat
  fc_targets :: "file_target list"

text \<open>The three sets of the loop: target ids, token ids and hashes of enabled tokens seen so far.\<close>

record seen_ids =
  seen_rrb_ids :: "string set"
  seen_token_ids :: "string set"
  seen_hashes :: "token_hash set"

definition parse_file_token ::
    "digests \<Rightarrow> string \<Rightarrow> seen_ids \<Rightarrow> file_auth_token \<Rightarrow> (config_error, auth_token \<times> seen_ids) result" where
  "parse_file_token D target_id seen token =
     (let id' = trim (ft_id token) in
      if id' = [] then Err (Bail (''Token config file contains an empty token id for target '' @ target_id))
      else if id' \<in> seen_token_ids seen
      then Err (Bail (''Token config file contains duplicate token id: '' @ id'))
      else
        let seen1 = seen\<lparr>seen_token_ids := insert id' (seen_token_ids seen)\<rparr>;
            name = trimmed_nonempty (ft_name token) in
        and_then (parse_token_type (ft_token_type token)
                    (''token_type for token '' @ id' @ '' on target '' @ target_id)) (\<lambda>caps.
        if \<not> (case ft_enabled token of Some b \<Rightarrow> b | None \<Rightarrow> default_enabled) then
          and_then (map_err HashError (hmac_sha256_parse D (ft_hash token))) (\<lambda>hash.
          Ok (\<lparr>tok_id = id', tok_name = name, tok_hash = hash, tok_enabled = False, tok_type = caps\<rparr>,
              seen1))
        else
          and_then (map_err HashError (hmac_sha256_parse D (ft_hash token))) (\<lambda>hash.
          if hash \<in> seen_hashes seen1 then Err (Bail ''Token config file contains duplicate token hashes'')
          else Ok (\<lparr>tok_id = id', tok_name = name, tok_hash = hash, tok_enabled = True, tok_type = caps\<rparr>,
                   seen1\<lparr>seen_hashes := insert hash (seen_hashes seen1)\<rparr>))))"

fun parse_file_tokens ::
    "digests \<Rightarrow> string \<Rightarrow> seen_ids \<Rightarrow> file_auth_token list \<Rightarrow>
       (config_error, auth_token list \<times> seen_ids) result" where
  "parse_file_tokens D target_id seen [] = Ok ([], seen)"
| "parse_file_tokens D target_id seen (t # ts) =
     and_then (parse_file_token D target_id seen t) (\<lambda>(tok, seen1).
     and_then (parse_file_tokens D target_id seen1 ts) (\<lambda>(toks, seen2). Ok (tok # toks, seen2)))"

definition parse_file_target ::
    "digests \<Rightarrow> seen_ids \<Rightarrow> file_target \<Rightarrow> (config_error, redis_config \<times> seen_ids) result" where
  "parse_file_target D seen target =
     (let rid = trim (fg_rrb_id target);
          conn = trim (fg_connection_string target);
          limit = (case fg_operation_limit target of Some n \<Rightarrow> n | None \<Rightarrow> default_operation_limit);
          shards = (case fg_connection_shards target of Some n \<Rightarrow> n | None \<Rightarrow> default_connection_shards) in
      if rid = [] then Err (Bail ''Token config file contains an empty rrb_id'')
      else if rid \<in> seen_rrb_ids seen
      then Err (Bail (''Token config file contains duplicate rrb_id: '' @ rid))
      else if conn = []
      then Err (Bail (''Token config file contains an empty Redis connection string for target '' @ rid))
      else if limit = 0
      then Err (Bail (''Token config file contains operation_limit=0 for target '' @ rid))
      else if shards = 0
      then Err (Bail (''Token config file contains connection_shards=0 for target '' @ rid))
      else if fg_tokens target = []
      then Err (Bail (''Token config file contains no tokens for target '' @ rid))
      else
        and_then (parse_file_tokens D rid (seen\<lparr>seen_rrb_ids := insert rid (seen_rrb_ids seen)\<rparr>)
                    (fg_tokens target)) (\<lambda>(toks, seen1).
        if \<not> list_ex tok_enabled toks
        then Err (Bail (''Token config file contains no enabled tokens for target '' @ rid))
        else Ok (\<lparr>rrb_id = rid, connection_string = conn, operation_limit = limit,
                   connection_shards = shards, tokens = toks\<rparr>, seen1)))"

fun parse_targets_loop ::
    "digests \<Rightarrow> seen_ids \<Rightarrow> file_target list \<Rightarrow> (config_error, redis_config list) result" where
  "parse_targets_loop D seen [] = Ok []"
| "parse_targets_loop D seen (t # ts) =
     and_then (parse_file_target D seen t) (\<lambda>(target, seen1).
     and_then (parse_targets_loop D seen1 ts) (\<lambda>targets. Ok (target # targets)))"

definition no_ids :: seen_ids where
  "no_ids = \<lparr>seen_rrb_ids = {}, seen_token_ids = {}, seen_hashes = {}\<rparr>"

definition parse_file_targets ::
    "digests \<Rightarrow> (string \<Rightarrow> file_config option) \<Rightarrow> string \<Rightarrow> string option \<Rightarrow>
       (config_error, redis_config list) result" where
  "parse_file_targets D from_str data hash_token =
     and_then (ok_or (trimmed_nonempty hash_token)
                     (Bail ''RRB_HASH_TOKEN is required when mode=file'')) (\<lambda>_.
     and_then (ok_or (from_str data) InvalidJson) (\<lambda>file.
     if fc_version file \<noteq> 1
     then Err (Bail (''Unsupported token config version: '' @ show_nat (fc_version file)))
     else if fc_targets file = []
     then Err (Bail ''Token config file must contain at least one target'')
     else parse_targets_loop D no_ids (fc_targets file)))"

text \<open>What the process sees outside its own memory.\<close>

record host =
  host_env :: env
  host_read :: "string \<Rightarrow> string option"
  host_json :: "string \<Rightarrow> file_config option"
  host_digests :: digests

text \<open>\<^verbatim>\<open>file_permissions\<close> only logs a warning, when the mode of the file lets others in.\<close>

definition file_permissions_warns :: "nat option \<Rightarrow> bool" where
  "file_permissions_warns mode =
     (case mode of None \<Rightarrow> False | Some m \<Rightarrow> and (and m 0x1FF) 0x3F \<noteq> 0)"

definition load_file_targets :: "host \<Rightarrow> (config_error, redis_config list) result" where
  "load_file_targets H =
     (let path = (case env_first (host_env H) [''RRB_CONFIG_FILE'', ''TOKEN_RESOLUTION_FILE_PATH''] of
                    Some p \<Rightarrow> p | None \<Rightarrow> ''/app/rrb-config/tokens.json'') in
      and_then (ok_or (host_read H path) (UnreadableFile path)) (\<lambda>data.
      parse_file_targets (host_digests H) (host_json H) data
        (trimmed_nonempty (env_first (host_env H) [''RRB_HASH_TOKEN'']))))"

definition load_targets :: "host \<Rightarrow> (config_error, redis_config list) result" where
  "load_targets H =
     (let mode = env_or (host_env H) ''RRB_MODE'' ''file'' in
      if mode = ''env'' then load_env_target (host_digests H) (host_env H)
      else if mode = ''file'' then load_file_targets H
      else Err (Bail (''Unsupported bridge mode: '' @ mode @ ''. Use env or file'')))"

section \<open>The bridge\<close>

record bridge =
  br_host :: string
  br_port :: nat
  br_targets :: "redis_config list"
  br_hash_token :: "string option"
  br_security :: security_policy
  br_max_body_bytes :: nat
  br_max_concurrency :: nat
  br_max_realtime_concurrency :: nat
  br_request_timeout :: duration
  br_acquire_timeout :: duration
  br_max_response_bytes :: nat
  br_metrics_token :: "string option"
  br_auth_lockout_failures :: nat
  br_auth_lockout_window :: duration
  br_auth_lockout_duration :: duration
  br_auth_lockout_max_entries :: nat
  br_trust_proxy_headers :: bool
  br_trusted_proxies :: trusted_proxies

definition from_millis :: "nat \<Rightarrow> duration" where
  "from_millis ms = ms * 1000000"

definition from_secs :: "nat \<Rightarrow> duration" where
  "from_secs s = s * 1000000000"

text \<open>The default denylist, less what the two profiles may use (their own check still denies it).\<close>

definition default_blocked :: "string set" where
  "default_blocked = env_parse_command_list DENIED_COMMANDS - set (RATELIMIT_COMMANDS @ REALTIME_COMMANDS)"

definition load_trusted_proxies :: "env \<Rightarrow> bool \<Rightarrow> (config_error, trusted_proxies) result" where
  "load_trusted_proxies env trust_proxy_headers =
     (if trust_proxy_headers then
        and_then (case env_first env [''RRB_TRUSTED_PROXIES''] of
                    None \<Rightarrow> Ok [] | Some v \<Rightarrow> map_err ProxyError (TrustedProxies_parse v)) (\<lambda>proxies.
        and_then (ensure (proxies \<noteq> []) (Bail ''RRB_TRUSTED_PROXIES must include at least one IP or CIDR when RRB_TRUST_PROXY_HEADERS=true'')) (\<lambda>_.
        Ok proxies))
      else Ok [])"

definition from_env :: "host \<Rightarrow> (config_error, bridge) result" where
  "from_env H =
     (let env = host_env H; bind_host = env_or env ''RRB_HOST'' ''0.0.0.0'';
          num = (\<lambda>key dflt. parse_env_or_default env (parse_uint usize_max) key dflt) in
     and_then (parse_env_or_default env (parse_uint u16_max) ''RRB_PORT'' 8080) (\<lambda>port.
     and_then (num ''RRB_MAX_BODY_BYTES'' (1024 * 1024)) (\<lambda>max_body.
     and_then (num ''RRB_MAX_CONCURRENCY'' 1024) (\<lambda>max_conc.
     and_then (num ''RRB_REALTIME_MAX_CONCURRENCY'' 1024) (\<lambda>max_rt.
     and_then (num ''RRB_MAX_PIPELINE_COMMANDS'' 1000) (\<lambda>max_pipe.
     and_then (num ''RRB_MAX_COMMAND_ARGS'' 256) (\<lambda>max_args.
     and_then (num ''RRB_MAX_ARG_BYTES'' (256 * 1024)) (\<lambda>max_arg.
     and_then (parse_env_or_default env (parse_uint u64_max) ''RRB_REQUEST_TIMEOUT_MS'' 5000) (\<lambda>req_ms.
     and_then (parse_env_or_default env (parse_uint u64_max) ''RRB_ACQUIRE_TIMEOUT_MS'' 100) (\<lambda>acq_ms.
     and_then (num ''RRB_MAX_RESPONSE_BYTES'' (10 * 1024 * 1024)) (\<lambda>max_resp.
     and_then (num ''RRB_AUTH_LOCKOUT_FAILURES'' 10) (\<lambda>lo_failures.
     and_then (parse_env_or_default env (parse_uint u64_max) ''RRB_AUTH_LOCKOUT_WINDOW_SECONDS'' 300) (\<lambda>lo_window.
     and_then (parse_env_or_default env (parse_uint u64_max) ''RRB_AUTH_LOCKOUT_SECONDS'' 300) (\<lambda>lo_secs.
     and_then (num ''RRB_AUTH_LOCKOUT_MAX_ENTRIES'' 65536) (\<lambda>lo_entries.
     and_then (parse_bool_env env ''RRB_TRUST_PROXY_HEADERS'' False) (\<lambda>trust.
     and_then (load_trusted_proxies env trust) (\<lambda>proxies.
     and_then (parse_csv_env_first env [''RRB_ALLOWED_COMMANDS'']) (\<lambda>allowed.
     and_then (parse_csv_env_first env [''RRB_BLOCKED_COMMANDS'']) (\<lambda>extra.
     and_then (ensure (\<not> (lo_failures > 0 \<and> lo_window = 0)) (Bail ''RRB_AUTH_LOCKOUT_WINDOW_SECONDS must be greater than zero when auth lockout is enabled'')) (\<lambda>_.
     and_then (ensure (\<not> (lo_failures > 0 \<and> lo_secs = 0)) (Bail ''RRB_AUTH_LOCKOUT_SECONDS must be greater than zero when auth lockout is enabled'')) (\<lambda>_.
     and_then (ensure (\<not> (lo_failures > 0 \<and> lo_entries = 0)) (Bail ''RRB_AUTH_LOCKOUT_MAX_ENTRIES must be greater than zero when auth lockout is enabled'')) (\<lambda>_.
     let security = \<lparr>allowed_commands = (case allowed of Some cs \<Rightarrow> cs | None \<Rightarrow> env_parse_command_list ALLOWED_COMMANDS),
                     blocked_commands = default_blocked \<union> (case extra of Some cs \<Rightarrow> cs | None \<Rightarrow> {}),
                     max_pipeline_commands = max_pipe, max_command_args = max_args, max_arg_bytes = max_arg\<rparr> in
     and_then (map_err PolicyError (SecurityPolicy_validate security)) (\<lambda>_.
     and_then (ensure (max_conc \<noteq> 0) (Bail ''RRB_MAX_CONCURRENCY must be greater than zero'')) (\<lambda>_.
     and_then (ensure (max_rt \<noteq> 0) (Bail ''RRB_REALTIME_MAX_CONCURRENCY must be greater than zero'')) (\<lambda>_.
     and_then (ensure (req_ms \<noteq> 0) (Bail ''RRB_REQUEST_TIMEOUT_MS must be greater than zero'')) (\<lambda>_.
     and_then (ensure (acq_ms \<noteq> 0) (Bail ''RRB_ACQUIRE_TIMEOUT_MS must be greater than zero'')) (\<lambda>_.
     and_then (ensure (\<not> acq_ms \<ge> req_ms) (Bail ''RRB_ACQUIRE_TIMEOUT_MS must be less than RRB_REQUEST_TIMEOUT_MS'')) (\<lambda>_.
     and_then (ensure (max_resp \<noteq> 0) (Bail ''RRB_MAX_RESPONSE_BYTES must be greater than zero'')) (\<lambda>_.
     let metrics_token = trimmed_nonempty (env_first env [''RRB_METRICS_TOKEN'']); mode = env_or env ''RRB_MODE'' ''file'' in
     and_then (load_targets H) (\<lambda>targets.
     and_then (ensure (targets \<noteq> []) (Bail ''No Redis targets configured'')) (\<lambda>_.
     Ok \<lparr>br_host = bind_host, br_port = port, br_targets = targets,
         br_hash_token = (if mode = ''file'' then trimmed_nonempty (env_first env [''RRB_HASH_TOKEN'']) else None),
         br_security = security, br_max_body_bytes = max_body, br_max_concurrency = max_conc,
         br_max_realtime_concurrency = max_rt, br_request_timeout = from_millis req_ms,
         br_acquire_timeout = from_millis acq_ms, br_max_response_bytes = max_resp,
         br_metrics_token = metrics_token, br_auth_lockout_failures = lo_failures,
         br_auth_lockout_window = from_secs lo_window, br_auth_lockout_duration = from_secs lo_secs,
         br_auth_lockout_max_entries = lo_entries, br_trust_proxy_headers = trust,
         br_trusted_proxies = proxies\<rparr>)))))))))))))))))))))))))))))))"

section \<open>What a loaded configuration satisfies\<close>

definition enabled_hashes :: "auth_token list \<Rightarrow> token_hash list" where
  "enabled_hashes toks = map tok_hash (filter tok_enabled toks)"

definition all_tokens :: "redis_config list \<Rightarrow> auth_token list" where
  "all_tokens ts = concat (map tokens ts)"

definition target_ok :: "redis_config \<Rightarrow> bool" where
  "target_ok t \<longleftrightarrow> rrb_id t \<noteq> [] \<and> connection_string t \<noteq> [] \<and> operation_limit t > 0 \<and>
     connection_shards t > 0 \<and> list_ex tok_enabled (tokens t) \<and>
     list_all (\<lambda>k. tok_id k \<noteq> [] \<and> allows_command_route (tok_type k)) (tokens t)"

definition targets_ok :: "redis_config list \<Rightarrow> bool" where
  "targets_ok ts \<longleftrightarrow> list_all target_ok ts \<and> distinct (map rrb_id ts) \<and>
     distinct (map tok_id (all_tokens ts)) \<and> distinct (enabled_hashes (all_tokens ts))"

lemma enabled_hashes_simps [simp]:
  "enabled_hashes [] = []"
  "enabled_hashes (t # ts) = (if tok_enabled t then [tok_hash t] else []) @ enabled_hashes ts"
  "enabled_hashes (ts @ us) = enabled_hashes ts @ enabled_hashes us"
  by (simp_all add: enabled_hashes_def)

lemma parse_token_type_route: "parse_token_type v key = Ok c \<Longrightarrow> allows_command_route c"
  by (auto simp: parse_token_type_def model_defs dest: TokenCaps_parse_nonempty split: option.splits)

lemma parse_file_token_Ok:
  assumes "parse_file_token D r seen t = Ok (tok, seen')"
  shows "tok_id tok \<noteq> [] \<and> allows_command_route (tok_type tok) \<and>
    tok_id tok \<notin> seen_token_ids seen \<and> seen_rrb_ids seen' = seen_rrb_ids seen \<and>
    seen_token_ids seen' = insert (tok_id tok) (seen_token_ids seen) \<and>
    set (enabled_hashes [tok]) \<inter> seen_hashes seen = {} \<and>
    seen_hashes seen' = seen_hashes seen \<union> set (enabled_hashes [tok])"
  using assms by (auto simp: parse_file_token_def Let_def dest: parse_token_type_route split: if_splits)

lemma parse_file_tokens_Ok:
  "parse_file_tokens D r seen ts = Ok (toks, seen') \<Longrightarrow>
   list_all (\<lambda>k. tok_id k \<noteq> [] \<and> allows_command_route (tok_type k)) toks \<and>
   distinct (map tok_id toks) \<and> set (map tok_id toks) \<inter> seen_token_ids seen = {} \<and>
   seen_token_ids seen' = seen_token_ids seen \<union> set (map tok_id toks) \<and>
   distinct (enabled_hashes toks) \<and> set (enabled_hashes toks) \<inter> seen_hashes seen = {} \<and>
   seen_hashes seen' = seen_hashes seen \<union> set (enabled_hashes toks) \<and>
   seen_rrb_ids seen' = seen_rrb_ids seen"
proof (induction ts arbitrary: seen toks seen')
  case Nil
  then show ?case by auto
next
  case (Cons t ts)
  then obtain tok seen1 toks2 where
    t: "parse_file_token D r seen t = Ok (tok, seen1)" and
    ts: "parse_file_tokens D r seen1 ts = Ok (toks2, seen')" and toks: "toks = tok # toks2"
    by auto
  have eh: "enabled_hashes toks = enabled_hashes [tok] @ enabled_hashes toks2" by (simp add: toks)
  note h = parse_file_token_Ok [OF t] and r = Cons.IH [OF ts]
  show ?case
  proof (intro conjI)
    show "distinct (enabled_hashes toks)" unfolding eh using h r by auto
    show "set (enabled_hashes toks) \<inter> seen_hashes seen = {}" unfolding eh using h r by auto
    show "seen_hashes seen' = seen_hashes seen \<union> set (enabled_hashes toks)"
      unfolding eh using h r by auto
    show "distinct (map tok_id toks)" unfolding toks using h r by auto
  qed (use h r in \<open>auto simp: toks\<close>)
qed

lemma parse_file_target_Ok:
  assumes "parse_file_target D seen t = Ok (target, seen')"
  shows "target_ok target \<and> rrb_id target \<notin> seen_rrb_ids seen \<and>
    seen_rrb_ids seen' = insert (rrb_id target) (seen_rrb_ids seen) \<and>
    distinct (map tok_id (tokens target)) \<and>
    set (map tok_id (tokens target)) \<inter> seen_token_ids seen = {} \<and>
    seen_token_ids seen' = seen_token_ids seen \<union> set (map tok_id (tokens target)) \<and>
    distinct (enabled_hashes (tokens target)) \<and>
    set (enabled_hashes (tokens target)) \<inter> seen_hashes seen = {} \<and>
    seen_hashes seen' = seen_hashes seen \<union> set (enabled_hashes (tokens target))"
proof -
  let ?seen = "seen\<lparr>seen_rrb_ids := insert (trim (fg_rrb_id t)) (seen_rrb_ids seen)\<rparr>"
  from assms obtain toks where
    toks: "parse_file_tokens D (trim (fg_rrb_id t)) ?seen (fg_tokens t) = Ok (toks, seen')"
    and t: "list_ex tok_enabled toks" "tokens target = toks" "rrb_id target = trim (fg_rrb_id t)"
      "trim (fg_rrb_id t) \<notin> seen_rrb_ids seen" "rrb_id target \<noteq> []" "connection_string target \<noteq> []"
      "operation_limit target > 0" "connection_shards target > 0"
    by (auto simp: parse_file_target_def Let_def split: if_splits)
  from parse_file_tokens_Ok [OF toks] show ?thesis using t by (simp add: target_ok_def)
qed

lemma parse_targets_loop_Ok:
  "parse_targets_loop D seen ts = Ok targets \<Longrightarrow>
   targets_ok targets \<and> set (map rrb_id targets) \<inter> seen_rrb_ids seen = {} \<and>
   set (map tok_id (all_tokens targets)) \<inter> seen_token_ids seen = {} \<and>
   set (enabled_hashes (all_tokens targets)) \<inter> seen_hashes seen = {}"
proof (induction ts arbitrary: seen targets)
  case Nil
  then show ?case by (auto simp: targets_ok_def all_tokens_def)
next
  case (Cons t ts)
  then obtain target seen1 rest where
    t: "parse_file_target D seen t = Ok (target, seen1)" and
    ts: "parse_targets_loop D seen1 ts = Ok rest" and e: "targets = target # rest"
    by auto
  note h = parse_file_target_Ok [OF t] and r = Cons.IH [OF ts]
  have at: "all_tokens targets = tokens target @ all_tokens rest" by (simp add: all_tokens_def e)
  have "rrb_id target \<notin> set (map rrb_id rest)" using h r by auto
  moreover have "set (map tok_id (tokens target)) \<inter> set (map tok_id (all_tokens rest)) = {}"
    using h r by blast
  moreover have "set (enabled_hashes (tokens target)) \<inter> set (enabled_hashes (all_tokens rest)) = {}"
    using h r by blast
  ultimately have "targets_ok targets" using h r by (simp add: targets_ok_def at) (simp add: e)
  moreover have "set (map rrb_id targets) \<inter> seen_rrb_ids seen = {}" using h r by (auto simp: e)
  moreover have "set (map tok_id (all_tokens targets)) \<inter> seen_token_ids seen = {}"
    unfolding at using h r by auto
  moreover have "set (enabled_hashes (all_tokens targets)) \<inter> seen_hashes seen = {}"
    unfolding at using h r by auto
  ultimately show ?case by blast
qed

lemma trimmed_nonempty_Some: "trimmed_nonempty v = Some s \<Longrightarrow> s \<noteq> []"
  by (auto simp: trimmed_nonempty_def bind_eq_Some_conv split: if_splits)

lemma load_env_target_Ok: "load_env_target D env = Ok ts \<Longrightarrow> targets_ok ts"
  by (auto simp: load_env_target_def targets_ok_def target_ok_def all_tokens_def
      dest: parse_token_type_route trimmed_nonempty_Some)

lemma load_targets_Ok: "load_targets H = Ok ts \<Longrightarrow> targets_ok ts"
  by (auto simp: load_targets_def load_file_targets_def parse_file_targets_def Let_def
      dest: load_env_target_Ok parse_targets_loop_Ok split: if_splits)

lemma load_trusted_proxies_Ok:
  "load_trusted_proxies env trust = Ok ps \<Longrightarrow> list_all proxy_wf ps \<and> (ps \<noteq> []) = trust"
  by (auto simp: load_trusted_proxies_def TrustedProxies_parse_def dest: parse_proxies_wf
      split: if_splits option.splits)

definition bridge_ok :: "bridge \<Rightarrow> bool" where
  "bridge_ok b \<longleftrightarrow>
     br_targets b \<noteq> [] \<and> targets_ok (br_targets b) \<and>
     SecurityPolicy_validate (br_security b) = Ok () \<and> default_blocked \<subseteq> blocked_commands (br_security b) \<and>
     br_max_concurrency b > 0 \<and> br_max_realtime_concurrency b > 0 \<and>
     0 < br_acquire_timeout b \<and> br_acquire_timeout b < br_request_timeout b \<and>
     br_max_response_bytes b > 0 \<and>
     (br_auth_lockout_failures b > 0 \<longrightarrow> br_auth_lockout_window b > 0 \<and>
        br_auth_lockout_duration b > 0 \<and> br_auth_lockout_max_entries b > 0) \<and>
     (br_trusted_proxies b \<noteq> []) = br_trust_proxy_headers b \<and> list_all proxy_wf (br_trusted_proxies b) \<and>
     (\<forall>t. br_metrics_token b = Some t \<longrightarrow> t \<noteq> []) \<and> (\<forall>t. br_hash_token b = Some t \<longrightarrow> t \<noteq> [])"

lemma from_env_bridge_ok:
  assumes "from_env H = Ok b"
  shows "bridge_ok b"
  using assms unfolding from_env_def Let_def
  by (clarsimp simp: bridge_ok_def from_millis_def from_secs_def)
     (auto dest!: load_targets_Ok load_trusted_proxies_Ok trimmed_nonempty_Some split: if_splits)

section \<open>The default command policy\<close>

lemma tables_normal:
  "list_all (\<lambda>c. list_all graphic c \<and> to_ascii_uppercase c = c \<and> c \<noteq> []) (ALLOWED_COMMANDS @ DENIED_COMMANDS)"
  by code_simp

lemma normal_id:
  assumes "list_all (\<lambda>c. list_all graphic c \<and> to_ascii_uppercase c = c \<and> c \<noteq> []) cs"
  shows "env_parse_command_list cs = set cs"
proof -
  have "filter (\<lambda>c. c \<noteq> []) (map (\<lambda>c. to_ascii_uppercase (trim c)) cs) = cs"
    using assms by (induction cs) (simp_all add: trim_graphic)
  then show ?thesis by (simp add: env_parse_command_list_def)
qed

lemma env_tables:
  "env_parse_command_list ALLOWED_COMMANDS = set ALLOWED_COMMANDS"
  "env_parse_command_list DENIED_COMMANDS = set DENIED_COMMANDS"
  using tables_normal by (auto simp: list_all_append intro!: normal_id)

lemma default_blocked_eq:
  "default_blocked = denied_commands - (ratelimit_commands \<union> realtime_commands)"
  by (simp add: default_blocked_def env_tables denied_commands_def ratelimit_commands_def realtime_commands_def)

lemma from_env_security:
  assumes "from_env H = Ok b"
  shows "allowed_commands (br_security b) =
      (case host_env H ''RRB_ALLOWED_COMMANDS'' of Present v \<Rightarrow> parse_csv v | _ \<Rightarrow> set ALLOWED_COMMANDS)"
    and "blocked_commands (br_security b) = default_blocked \<union>
      (case host_env H ''RRB_BLOCKED_COMMANDS'' of Present v \<Rightarrow> parse_csv v | _ \<Rightarrow> {})"
    and "load_targets H = Ok (br_targets b)"
    and "br_hash_token b = (if env_or (host_env H) ''RRB_MODE'' ''file'' = ''file''
           then trimmed_nonempty (env_first (host_env H) [''RRB_HASH_TOKEN'']) else None)"
  using assms unfolding from_env_def Let_def
  by (clarsimp simp: env_tables split: env_var.splits option.splits)+

lemma validate_Ok:
  "SecurityPolicy_validate p = Ok () \<longleftrightarrow> allowed_commands p \<noteq> {} \<and> allowed_commands p \<inter> denied_commands = {}"
  by (auto simp: SecurityPolicy_validate_def is_denied_command_def Let_def)

lemma allowed_disjoint: "set ALLOWED_COMMANDS \<inter> denied_commands = {}"
  using allowed_not_denied by (auto simp: list_all_iff denied_commands_def)

section \<open>Properties\<close>

text \<open>The smallest environment that starts a bridge.\<close>

definition sample_host :: host where
  "sample_host =
     \<lparr>host_env = (\<lambda>key. if key = ''RRB_MODE'' then Present ''env''
                        else if key = ''RRB_TOKEN'' then Present ''secret''
                        else if key = ''REDIS_URL'' then Present ''redis://r'' else NotPresent),
      host_read = (\<lambda>_. None), host_json = (\<lambda>_. None),
      host_digests = \<lparr>sha256_digest = id, hmac_digest = (@), hex_decode = Some\<rparr>\<rparr>"

lemma trim_samples: "trim ''secret'' = ''secret''" "trim ''redis://r'' = ''redis://r''"
  by (simp_all add: trim_graphic graphic_def)

lemma sample_targets:
  "load_targets sample_host = Ok [\<lparr>rrb_id = ''env'', connection_string = ''redis://r'',
     operation_limit = 100, connection_shards = 4,
     tokens = [\<lparr>tok_id = ''env'', tok_name = Some ''Environment token'', tok_hash = TokenHash ''secret'',
                tok_enabled = True, tok_type = TokenCaps_command\<rparr>]\<rparr>]"
  by (simp add: load_targets_def load_env_target_def sample_host_def env_or_def env_first_def
      trimmed_nonempty_def trim_samples ok_or_def parse_token_type_def ensure_def TokenHash_sha256_def
      default_operation_limit_def default_connection_shards_def TokenCaps_default_def Let_def)

lemma ALLOWED_nonempty: "set ALLOWED_COMMANDS \<noteq> {}"
  by (simp add: ALLOWED_COMMANDS_def)

lemma sample_from_env: "\<exists>b. from_env sample_host = Ok b"
proof -
  have e: "host_env sample_host = (\<lambda>key. if key = ''RRB_MODE'' then Present ''env''
      else if key = ''RRB_TOKEN'' then Present ''secret''
      else if key = ''REDIS_URL'' then Present ''redis://r'' else NotPresent)"
    by (simp add: sample_host_def)
  have v: "SecurityPolicy_validate \<lparr>allowed_commands = set ALLOWED_COMMANDS, blocked_commands = B,
      max_pipeline_commands = x, max_command_args = y, max_arg_bytes = z\<rparr> = Ok ()" for B x y z
    unfolding validate_Ok using allowed_disjoint ALLOWED_nonempty by simp
  show ?thesis
    unfolding from_env_def Let_def sample_targets
    by (simp add: e env_tables v map_err_def parse_env_or_default_def parse_bool_env_def ensure_def
        load_trusted_proxies_def)
qed

text \<open>C27: A bridge that loads has a complete and consistent configuration: at least one target, all
  target ids, all token ids and all hashes of enabled tokens distinct, every target with a positive operation
  limit, at least one connection shard and an enabled token, every token with a capability, a command
  allowlist that is not empty and has no hard-denied command, and a blocklist that keeps the default one; positive
  limits on concurrent requests, on subscriptions and on the bytes of a response, a positive
  acquire timeout below the request timeout, a usable lockout when it is on, trusted proxies exactly when
  proxy headers are trusted, and no empty metrics token or hash key. The limits on the bytes of a body, the
  commands of a batch, and the arguments and their bytes are not checked by the code and may be zero.\<close>
theorem loaded_bridge_valid:
  "from_env H = Ok b \<Longrightarrow> bridge_ok b"
  by (rule from_env_bridge_ok)

theorem loaded_bridge_valid_witness:
  "\<exists>b. from_env sample_host = Ok b \<and> bridge_ok b"
  using sample_from_env loaded_bridge_valid by blast

text \<open>C30: With the default command lists, a loaded bridge admits exactly the allowlist for tokens with
  the command capability, and the commands of the ratelimit and the realtime profile for tokens with that
  capability, nothing else.\<close>
theorem default_policy_admits:
  assumes "from_env H = Ok b" and "host_env H ''RRB_ALLOWED_COMMANDS'' = NotPresent"
    and "host_env H ''RRB_BLOCKED_COMMANDS'' = NotPresent"
  shows "admitted (br_security b) t c \<longleftrightarrow>
    cap_command t \<and> c \<in> set ALLOWED_COMMANDS \<or> cap_ratelimit t \<and> c \<in> set RATELIMIT_COMMANDS \<or>
    cap_realtime t \<and> c \<in> set REALTIME_COMMANDS"
proof -
  have "allowed_commands (br_security b) = set ALLOWED_COMMANDS"
    and "blocked_commands (br_security b) = denied_commands - (ratelimit_commands \<union> realtime_commands)"
    using from_env_security [OF assms(1)] assms(2,3) by (simp_all add: default_blocked_eq)
  then show ?thesis
    using allowed_disjoint
    by (auto simp: admitted_def scoped_def model_defs ratelimit_commands_def realtime_commands_def)
qed

theorem default_policy_admits_witness:
  "\<exists>b. from_env sample_host = Ok b \<and> admitted (br_security b) TokenCaps_command ''APPEND'' \<and>
    \<not> admitted (br_security b) TokenCaps_command ''EVAL''"
proof -
  obtain b where b: "from_env sample_host = Ok b" using sample_from_env by blast
  have "host_env sample_host ''RRB_ALLOWED_COMMANDS'' = NotPresent"
    "host_env sample_host ''RRB_BLOCKED_COMMANDS'' = NotPresent"
    by (simp_all add: sample_host_def)
  moreover have "''APPEND'' \<in> set ALLOWED_COMMANDS" by (simp add: ALLOWED_COMMANDS_def)
  moreover have "''EVAL'' \<notin> set ALLOWED_COMMANDS"
    using allowed_disjoint by (auto simp: denied_commands_def DENIED_COMMANDS_def)
  ultimately show ?thesis
    using b default_policy_admits [OF b, of TokenCaps_command] by (auto simp: TokenCaps_command_def)
qed

text \<open>The operator cannot allow a hard-denied command: with one of them in
  \<^verbatim>\<open>RRB_ALLOWED_COMMANDS\<close>, in any spelling of case and blanks, the bridge does not start, and
  \<^verbatim>\<open>RRB_BLOCKED_COMMANDS\<close> only ever removes commands.\<close>
theorem operator_lists_safe:
  "(host_env H ''RRB_ALLOWED_COMMANDS'' = Present v \<and> raw \<in> set (split_on CHR '','' v) \<and>
      normal_name raw \<in> set DENIED_COMMANDS \<longrightarrow> \<not> is_ok (from_env H)) \<and>
   (from_env H = Ok b \<and> host_env H ''RRB_BLOCKED_COMMANDS'' = Present w \<and>
      raw \<in> set (split_on CHR '','' w) \<and> normal_name raw \<noteq> [] \<longrightarrow>
      \<not> admitted (br_security b) t (normal_name raw))"
proof (intro conjI impI)
  assume A: "host_env H ''RRB_ALLOWED_COMMANDS'' = Present v \<and> raw \<in> set (split_on CHR '','' v) \<and>
      normal_name raw \<in> set DENIED_COMMANDS"
  show "\<not> is_ok (from_env H)"
  proof
    assume "is_ok (from_env H)"
    then obtain b where b: "from_env H = Ok b" by (cases "from_env H") auto
    have "SecurityPolicy_validate (br_security b) = Ok ()"
      using from_env_bridge_ok [OF b] by (simp add: bridge_ok_def)
    then have "parse_csv v \<inter> denied_commands = {}"
      using from_env_security(1) [OF b] A by (simp add: validate_Ok)
    moreover have "[] \<notin> set DENIED_COMMANDS" using tables_normal by (auto simp: list_all_iff)
    then have "normal_name raw \<noteq> []" using A by auto
    then have "normal_name raw \<in> parse_csv v" using A by (auto simp: parse_csv_def normal_name_def)
    ultimately show False using A by (auto simp: denied_commands_def)
  qed
next
  assume A: "from_env H = Ok b \<and> host_env H ''RRB_BLOCKED_COMMANDS'' = Present w \<and>
      raw \<in> set (split_on CHR '','' w) \<and> normal_name raw \<noteq> []"
  then have "normal_name raw \<in> parse_csv w" by (auto simp: parse_csv_def normal_name_def)
  then show "\<not> admitted (br_security b) t (normal_name raw)"
    using from_env_security(2) [of H b] A by (auto simp: admitted_def)
qed

theorem operator_lists_safe_witness:
  "\<not> is_ok (from_env (sample_host\<lparr>host_env := (host_env sample_host)(''RRB_ALLOWED_COMMANDS'' := Present ''get, eval'')\<rparr>))"
proof -
  let ?H = "sample_host\<lparr>host_env := (host_env sample_host)(''RRB_ALLOWED_COMMANDS'' := Present ''get, eval'')\<rparr>"
  have "host_env ?H ''RRB_ALLOWED_COMMANDS'' = Present ''get, eval''"
    and "'' eval'' \<in> set (split_on CHR '','' ''get, eval'')" by simp_all
  moreover have "normal_name '' eval'' = ''EVAL''" by code_simp
  moreover have "''EVAL'' \<in> set DENIED_COMMANDS" by (simp add: DENIED_COMMANDS_def)
  ultimately show ?thesis using operator_lists_safe [of ?H "''get, eval''" "'' eval''"] by simp
qed

end
