(* ===== verification/Metrics.thy ===== *)
theory Metrics
  imports Prelude
begin

text \<open>
  Metrics (\<^verbatim>\<open>src/metrics/\<close>): the sixteen collectors of the bridge, their registration, and the
  operations on them. The Prometheus client library keeps the values, so the model's metrics are the
  calls the code makes on its collectors, in order; \<open>gauge_value\<close> and \<open>counter_value\<close> read a value off
  that log. The two guards report on drop, so dropping is an operation of the model.
\<close>

section \<open>Collectors\<close>

datatype metric =
    auth_failed_total | auth_lockouts_total | auth_locked_requests_total
  | auth_lockout_entry_limit_total | auth_lockout_tracked_ips | auth_lockout_locked_ips
  | request_denied_total | command_denied_total | redis_operations_total
  | redis_operation_duration | redis_operations_inflight | realtime_total | realtime_inflight
  | configured_targets | redis_connected_shards | redis_connection_attempts

datatype metric_type = IntCounterT | IntGaugeT | HistogramT

record descriptor =
  d_name :: string
  d_help :: string
  d_type :: metric_type
  d_labels :: "string list"

fun collector :: "metric \<Rightarrow> descriptor" where
  "collector auth_failed_total = \<lparr>d_name = ''rrb_auth_failed_total'',
     d_help = ''Total failed bridge authentication attempts.'',
     d_type = IntCounterT, d_labels = []\<rparr>"
| "collector auth_lockouts_total = \<lparr>d_name = ''rrb_auth_lockouts_total'',
     d_help = ''Total client IP lockouts created after repeated failed authentication attempts.'',
     d_type = IntCounterT, d_labels = []\<rparr>"
| "collector auth_locked_requests_total = \<lparr>d_name = ''rrb_auth_locked_requests_total'',
     d_help = ''Total requests rejected because the client IP is currently locked out.'',
     d_type = IntCounterT, d_labels = []\<rparr>"
| "collector auth_lockout_entry_limit_total = \<lparr>d_name = ''rrb_auth_lockout_entry_limit_total'',
     d_help = ''Total failed authentication attempts not tracked because the auth lockout table was full.'',
     d_type = IntCounterT, d_labels = []\<rparr>"
| "collector auth_lockout_tracked_ips = \<lparr>d_name = ''rrb_auth_lockout_tracked_ips'',
     d_help = ''Current number of client IPs tracked by the auth lockout table.'',
     d_type = IntGaugeT, d_labels = []\<rparr>"
| "collector auth_lockout_locked_ips = \<lparr>d_name = ''rrb_auth_lockout_locked_ips'',
     d_help = ''Current number of client IPs locked out after failed authentication attempts.'',
     d_type = IntGaugeT, d_labels = []\<rparr>"
| "collector request_denied_total = \<lparr>d_name = ''rrb_request_denied_total'',
     d_help = ''Total bridge requests denied before a successful response is returned.'',
     d_type = IntCounterT, d_labels = [''route'', ''reason'']\<rparr>"
| "collector command_denied_total = \<lparr>d_name = ''rrb_command_denied_total'',
     d_help = ''Total Redis commands denied or rejected by bridge validation.'',
     d_type = IntCounterT, d_labels = [''target'', ''kind'']\<rparr>"
| "collector redis_operations_total = \<lparr>d_name = ''rrb_redis_operations_total'',
     d_help = ''Total Redis operations executed by the bridge.'',
     d_type = IntCounterT, d_labels = [''target'', ''kind'', ''status'']\<rparr>"
| "collector redis_operation_duration = \<lparr>d_name = ''rrb_redis_operation_duration_seconds'',
     d_help = ''Redis operation duration in seconds.'',
     d_type = HistogramT, d_labels = [''target'', ''kind'']\<rparr>"
| "collector redis_operations_inflight = \<lparr>d_name = ''rrb_inflight_redis_operations'',
     d_help = ''In-flight Redis operations by target.'',
     d_type = IntGaugeT, d_labels = [''target'', ''kind'']\<rparr>"
| "collector realtime_total = \<lparr>d_name = ''rrb_realtime_total'',
     d_help = ''Total accepted realtime subscription connections.'',
     d_type = IntCounterT, d_labels = [''target'']\<rparr>"
| "collector realtime_inflight = \<lparr>d_name = ''rrb_realtime_inflight'',
     d_help = ''Current realtime subscription connections.'',
     d_type = IntGaugeT, d_labels = [''target'']\<rparr>"
| "collector configured_targets = \<lparr>d_name = ''rrb_configured_targets'',
     d_help = ''Number of configured Redis bridge targets.'',
     d_type = IntGaugeT, d_labels = []\<rparr>"
| "collector redis_connected_shards = \<lparr>d_name = ''rrb_redis_connected_shards'',
     d_help = ''Current established Redis connection shards by target.'',
     d_type = IntGaugeT, d_labels = [''target'']\<rparr>"
| "collector redis_connection_attempts = \<lparr>d_name = ''rrb_redis_connection_attempts_total'',
     d_help = ''Redis connection creation attempts, separated by outcome.'',
     d_type = IntCounterT, d_labels = [''target'', ''outcome'']\<rparr>"

text \<open>The order in which \<^verbatim>\<open>Collectors\<close> lists and registers its fields.\<close>

definition all_collectors :: "metric list" where
  "all_collectors =
     [auth_failed_total, auth_lockouts_total, auth_locked_requests_total,
      auth_lockout_entry_limit_total, auth_lockout_tracked_ips, auth_lockout_locked_ips,
      request_denied_total, command_denied_total, redis_operations_total,
      redis_operation_duration, redis_operations_inflight, realtime_total, realtime_inflight,
      configured_targets, redis_connected_shards, redis_connection_attempts]"

text \<open>
  \<^verbatim>\<open>Collectors::new\<close> and \<^verbatim>\<open>register\<close> hand each descriptor to the Prometheus library, whose two functions
  are parameters: \<open>create\<close> checks the names of a descriptor, \<open>enter\<close> adds it to a registry.
\<close>

fun try_each :: "('a \<Rightarrow> 's \<Rightarrow> ('e, 's) result) \<Rightarrow> 'a list \<Rightarrow> 's \<Rightarrow> ('e, 's) result" where
  "try_each f [] s = Ok s"
| "try_each f (x # xs) s = and_then (f x s) (try_each f xs)"

definition Collectors_new :: "(descriptor \<Rightarrow> ('e, unit) result) \<Rightarrow> ('e, metric list) result" where
  "Collectors_new create =
     and_then (try_each (\<lambda>m _. create (collector m)) all_collectors ()) (\<lambda>_. Ok all_collectors)"

definition Collectors_register ::
    "(descriptor \<Rightarrow> 'r \<Rightarrow> ('e, 'r) result) \<Rightarrow> metric list \<Rightarrow> 'r \<Rightarrow> ('e, 'r) result" where
  "Collectors_register enter cs reg = try_each (\<lambda>m. enter (collector m)) cs reg"

definition Metrics_new ::
    "(descriptor \<Rightarrow> ('e, unit) result) \<Rightarrow> (descriptor \<Rightarrow> 'r \<Rightarrow> ('e, 'r) result) \<Rightarrow> 'r \<Rightarrow> ('e, 'r) result" where
  "Metrics_new create enter empty_reg =
     and_then (Collectors_new create) (\<lambda>cs. Collectors_register enter cs empty_reg)"

section \<open>The log of calls\<close>

datatype metric_event =
    Inc metric "string list"
  | Dec metric "string list"
  | SetTo metric "string list" int
  | Observe metric "string list"

type_synonym metrics = "metric_event list"

fun gauge_step :: "metric \<Rightarrow> string list \<Rightarrow> metric_event \<Rightarrow> int \<Rightarrow> int" where
  "gauge_step m ls (Inc m' ls') v = (if m' = m \<and> ls' = ls then v + 1 else v)"
| "gauge_step m ls (Dec m' ls') v = (if m' = m \<and> ls' = ls then v - 1 else v)"
| "gauge_step m ls (SetTo m' ls' x) v = (if m' = m \<and> ls' = ls then x else v)"
| "gauge_step m ls (Observe _ _) v = v"

definition gauge_value :: "metrics \<Rightarrow> metric \<Rightarrow> string list \<Rightarrow> int" where
  "gauge_value M m ls = fold (gauge_step m ls) M 0"

definition counter_value :: "metrics \<Rightarrow> metric \<Rightarrow> string list \<Rightarrow> nat" where
  "counter_value M m ls = count_list M (Inc m ls)"

definition histogram_count :: "metrics \<Rightarrow> metric \<Rightarrow> string list \<Rightarrow> nat" where
  "histogram_count M m ls = count_list M (Observe m ls)"

lemma gauge_value_simps [simp]:
  "gauge_value [] m ls = 0"
  "gauge_value (M @ [e]) m ls = gauge_step m ls e (gauge_value M m ls)"
  by (simp_all add: gauge_value_def)

lemma gauge_value_append:
  "gauge_value (M @ M') m ls = fold (gauge_step m ls) M' (gauge_value M m ls)"
  by (simp add: gauge_value_def)

lemma counter_value_simps [simp]:
  "counter_value [] m ls = 0"
  "counter_value (M @ M') m ls = counter_value M m ls + counter_value M' m ls"
  "counter_value (e # M) m ls = (if e = Inc m ls then 1 else 0) + counter_value M m ls"
  by (simp_all add: counter_value_def)

lemma histogram_count_simps [simp]:
  "histogram_count [] m ls = 0"
  "histogram_count (M @ M') m ls = histogram_count M m ls + histogram_count M' m ls"
  "histogram_count (e # M) m ls = (if e = Observe m ls then 1 else 0) + histogram_count M m ls"
  by (simp_all add: histogram_count_def)

text \<open>\<^verbatim>\<open>as i64\<close> of a \<^verbatim>\<open>usize\<close> keeps the 64 bits.\<close>

definition as_i64 :: "nat \<Rightarrow> int" where
  "as_i64 n = sint (word_of_nat n :: 64 word)"

lemma as_i64_small: "n < 2 ^ 63 \<Longrightarrow> as_i64 n = int n"
  by (simp add: as_i64_def signed_of_nat signed_take_bit_int_eq_self)

section \<open>Operations\<close>

record guard =
  guard_target :: string
  guard_kind :: string
  guard_timer :: bool
  guard_completed :: bool

definition Guard_new :: "string \<Rightarrow> string \<Rightarrow> guard" where
  "Guard_new target kind =
     \<lparr>guard_target = target, guard_kind = kind, guard_timer = True, guard_completed = False\<rparr>"

definition Guard_drop :: "guard \<Rightarrow> metrics \<Rightarrow> metrics" where
  "Guard_drop g M =
     (let M1 = (if \<not> guard_completed g
                then M @ [Inc redis_operations_total [guard_target g, guard_kind g, ''cancelled'']]
                else M);
          M2 = M1 @ [Dec redis_operations_inflight [guard_target g, guard_kind g]] in
      if guard_timer g then M2 @ [Observe redis_operation_duration [guard_target g, guard_kind g]]
      else M2)"

text \<open>\<^verbatim>\<open>success\<close>, \<^verbatim>\<open>error\<close> and \<^verbatim>\<open>timeout\<close> consume the guard, so each ends with its drop.\<close>

definition Guard_success :: "guard \<Rightarrow> metrics \<Rightarrow> metrics" where
  "Guard_success g M = Guard_drop (g\<lparr>guard_completed := True\<rparr>)
     (M @ [Inc redis_operations_total [guard_target g, guard_kind g, ''ok'']])"

definition Guard_error :: "guard \<Rightarrow> metrics \<Rightarrow> metrics" where
  "Guard_error g M = Guard_drop (g\<lparr>guard_completed := True\<rparr>)
     (M @ [Inc redis_operations_total [guard_target g, guard_kind g, ''error'']])"

definition Guard_timeout :: "guard \<Rightarrow> metrics \<Rightarrow> metrics" where
  "Guard_timeout g M = Guard_drop (g\<lparr>guard_completed := True\<rparr>)
     (M @ [Inc redis_operations_total [guard_target g, guard_kind g, ''timeout'']])"

definition begin_operation :: "string \<Rightarrow> string \<Rightarrow> metrics \<Rightarrow> guard \<times> metrics" where
  "begin_operation target kind M =
     (Guard_new target kind, M @ [Inc redis_operations_inflight [target, kind]])"

definition command_denied :: "string \<Rightarrow> string \<Rightarrow> metrics \<Rightarrow> metrics" where
  "command_denied target kind M = M @ [Inc command_denied_total [target, kind]]"

record connection_guard =
  cg_target :: string

definition ConnectionGuard_drop :: "connection_guard \<Rightarrow> metrics \<Rightarrow> metrics" where
  "ConnectionGuard_drop g M = M @ [Dec realtime_inflight [cg_target g]]"

definition realtime_connection :: "string \<Rightarrow> metrics \<Rightarrow> connection_guard \<times> metrics" where
  "realtime_connection target M =
     (\<lparr>cg_target = target\<rparr>, M @ [Inc realtime_total [target], Inc realtime_inflight [target]])"

definition auth_failed :: "metrics \<Rightarrow> metrics" where
  "auth_failed M = M @ [Inc auth_failed_total []]"

definition lockout_created :: "metrics \<Rightarrow> metrics" where
  "lockout_created M = M @ [Inc auth_lockouts_total []]"

definition locked_request :: "metrics \<Rightarrow> metrics" where
  "locked_request M = M @ [Inc auth_locked_requests_total []]"

definition lockout_entry_limit :: "metrics \<Rightarrow> metrics" where
  "lockout_entry_limit M = M @ [Inc auth_lockout_entry_limit_total []]"

definition set_lockout_state :: "nat \<Rightarrow> nat \<Rightarrow> metrics \<Rightarrow> metrics" where
  "set_lockout_state tracked locked M =
     M @ [SetTo auth_lockout_tracked_ips [] (as_i64 tracked),
          SetTo auth_lockout_locked_ips [] (as_i64 locked)]"

definition request_denied :: "string \<Rightarrow> string \<Rightarrow> metrics \<Rightarrow> metrics" where
  "request_denied route reason M = M @ [Inc request_denied_total [route, reason]]"

text \<open>
  \<^verbatim>\<open>render\<close>: the registry is gathered and encoded by the library, with the log as its content, and
  the bytes must be UTF-8.
\<close>

datatype render_error = EncodeFailed | NotUtf8

definition render ::
    "(metrics \<Rightarrow> bytes option) \<Rightarrow> (bytes \<Rightarrow> bool) \<Rightarrow> metrics \<Rightarrow> (render_error, string) result" where
  "render encode utf8 M =
     (case encode M of None \<Rightarrow> Err EncodeFailed
      | Some buffer \<Rightarrow> if utf8 buffer then Ok buffer else Err NotUtf8)"

definition content_type :: string where
  "content_type = ''text/plain; version=0.0.4; charset=utf-8''"

lemmas metrics_defs [model_defs] = Guard_new_def Guard_drop_def Guard_success_def Guard_error_def
  Guard_timeout_def begin_operation_def command_denied_def ConnectionGuard_drop_def
  realtime_connection_def auth_failed_def lockout_created_def locked_request_def
  lockout_entry_limit_def set_lockout_state_def request_denied_def

section \<open>Guards that count what is alive\<close>

text \<open>The guards alive, and the log, after any interleaving of openings, closings and other calls.\<close>

inductive guards_run :: "('l \<Rightarrow> metrics \<Rightarrow> 'g \<times> metrics) \<Rightarrow> ('h \<Rightarrow> 'g \<Rightarrow> metrics \<Rightarrow> metrics) \<Rightarrow>
    metric \<Rightarrow> metrics \<Rightarrow> 'g list \<Rightarrow> metrics \<Rightarrow> bool"
  for opn cls gauge M0 where
  run_start: "guards_run opn cls gauge M0 [] M0"
| run_open: "guards_run opn cls gauge M0 gs M \<Longrightarrow> opn l M = (g, M') \<Longrightarrow>
    guards_run opn cls gauge M0 (gs @ [g]) M'"
| run_close: "guards_run opn cls gauge M0 gs M \<Longrightarrow> i < length gs \<Longrightarrow>
    guards_run opn cls gauge M0 (take i gs @ drop (Suc i) gs) (cls h (gs ! i) M)"
| run_other: "guards_run opn cls gauge M0 gs M \<Longrightarrow>
    \<forall>ls. gauge_value M' gauge ls = gauge_value M gauge ls \<Longrightarrow> guards_run opn cls gauge M0 gs M'"

lemma filter_remove_nth:
  "i < length gs \<Longrightarrow>
   length (filter P gs) =
     length (filter P (take i gs @ drop (Suc i) gs)) + (if P (gs ! i) then 1 else 0)"
proof -
  assume i: "i < length gs"
  have "gs = take i gs @ gs ! i # drop (Suc i) gs" using i by (rule id_take_nth_drop)
  then have "filter P gs = filter P (take i gs @ gs ! i # drop (Suc i) gs)" by simp
  then show ?thesis by simp
qed

text \<open>
  A scope guard: opening it raises a gauge by one under the guard's labels, closing it in any of
  its ways lowers the same gauge again, and neither touches the gauge under other labels.
\<close>

locale scope_guard =
  fixes open_guard :: "'l \<Rightarrow> metrics \<Rightarrow> 'g \<times> metrics"
    and close_guard :: "'h \<Rightarrow> 'g \<Rightarrow> metrics \<Rightarrow> metrics"
    and labels_of :: "'g \<Rightarrow> string list"
    and gauge :: metric
  assumes open_gauge: "open_guard l M = (g, M') \<Longrightarrow>
        gauge_value M' gauge ls = gauge_value M gauge ls + (if labels_of g = ls then 1 else 0)"
    and close_gauge: "gauge_value (close_guard h g M) gauge ls =
        gauge_value M gauge ls - (if labels_of g = ls then 1 else 0)"
begin

lemma gauge_counts_alive:
  "guards_run open_guard close_guard gauge M0 gs M \<Longrightarrow>
   gauge_value M gauge ls =
     gauge_value M0 gauge ls + int (length (filter (\<lambda>g. labels_of g = ls) gs))"
proof (induction rule: guards_run.induct)
  case (run_close gs M i h)
  then show ?case
    using filter_remove_nth [of i gs "\<lambda>g. labels_of g = ls"] by (simp add: close_gauge)
qed (simp_all add: open_gauge)

end

text \<open>The two guards of the bridge are scope guards.\<close>

datatype completion = Succeeded | Errored | TimedOut | Dropped

fun close_operation :: "completion \<Rightarrow> guard \<Rightarrow> metrics \<Rightarrow> metrics" where
  "close_operation Succeeded g M = Guard_success g M"
| "close_operation Errored g M = Guard_error g M"
| "close_operation TimedOut g M = Guard_timeout g M"
| "close_operation Dropped g M = Guard_drop g M"

fun status_label :: "completion \<Rightarrow> string" where
  "status_label Succeeded = ''ok''"
| "status_label Errored = ''error''"
| "status_label TimedOut = ''timeout''"
| "status_label Dropped = ''cancelled''"

definition operation_labels :: "guard \<Rightarrow> string list" where
  "operation_labels g = [guard_target g, guard_kind g]"

lemma close_operation_log:
  "guard_completed g = False \<Longrightarrow> guard_timer g \<Longrightarrow> close_operation c g M =
     M @ [Inc redis_operations_total [guard_target g, guard_kind g, status_label c],
          Dec redis_operations_inflight [guard_target g, guard_kind g],
          Observe redis_operation_duration [guard_target g, guard_kind g]]"
  by (cases c) (simp_all add: metrics_defs Let_def)

definition open_operation :: "string \<times> string \<Rightarrow> metrics \<Rightarrow> guard \<times> metrics" where
  "open_operation tk = begin_operation (fst tk) (snd tk)"

definition close_subscription :: "unit \<Rightarrow> connection_guard \<Rightarrow> metrics \<Rightarrow> metrics" where
  "close_subscription _ = ConnectionGuard_drop"

interpretation operations: scope_guard open_operation
  close_operation operation_labels redis_operations_inflight
proof unfold_locales
  show "gauge_value (close_operation h g M) redis_operations_inflight ls =
      gauge_value M redis_operations_inflight ls - (if operation_labels g = ls then 1 else 0)"
    for h g M ls
    by (cases h) (auto simp: metrics_defs Let_def gauge_value_append operation_labels_def)
qed (auto simp: open_operation_def begin_operation_def Guard_new_def operation_labels_def split: prod.splits)

interpretation subscriptions: scope_guard realtime_connection close_subscription
  "\<lambda>g. [cg_target g]" realtime_inflight
  by unfold_locales
    (auto simp: realtime_connection_def close_subscription_def ConnectionGuard_drop_def gauge_value_append)

section \<open>Properties\<close>

text \<open>What \<^verbatim>\<open>with_label_values\<close> and the calls on a collector demand of a log entry.\<close>

fun event_ok :: "metric_event \<Rightarrow> bool" where
  "event_ok (Inc m ls) \<longleftrightarrow>
     length ls = length (d_labels (collector m)) \<and> d_type (collector m) \<noteq> HistogramT"
| "event_ok (Dec m ls) \<longleftrightarrow>
     length ls = length (d_labels (collector m)) \<and> d_type (collector m) = IntGaugeT"
| "event_ok (SetTo m ls _) \<longleftrightarrow>
     length ls = length (d_labels (collector m)) \<and> d_type (collector m) = IntGaugeT"
| "event_ok (Observe m ls) \<longleftrightarrow>
     length ls = length (d_labels (collector m)) \<and> d_type (collector m) = HistogramT"

definition log_ok :: "metrics \<Rightarrow> bool" where
  "log_ok M \<longleftrightarrow> list_all event_ok M"

lemma log_ok_operations:
  assumes "log_ok M"
  shows "log_ok (snd (begin_operation t k M))" "log_ok (close_operation c g M)"
    "log_ok (command_denied t k M)" "log_ok (snd (realtime_connection t M))"
    "log_ok (ConnectionGuard_drop cg M)" "log_ok (auth_failed M)" "log_ok (lockout_created M)"
    "log_ok (locked_request M)" "log_ok (lockout_entry_limit M)"
    "log_ok (set_lockout_state a b M)" "log_ok (request_denied r s M)"
  using assms by (cases c; simp add: log_ok_def metrics_defs Let_def)+

lemma collector_names_distinct: "distinct (map (\<lambda>m. d_name (collector m)) all_collectors)"
  by (simp add: all_collectors_def)

lemma all_collectors_complete: "m \<in> set all_collectors"
  by (cases m) (simp_all add: all_collectors_def)

lemma try_each_fresh:
  assumes "\<And>d r. key d \<notin> names r \<Longrightarrow> \<exists>r'. f d r = Inr r' \<and> names r' = insert (key d) (names r)"
  shows "distinct (map key ds) \<Longrightarrow> set (map key ds) \<inter> names r = {} \<Longrightarrow>
    \<exists>r'. try_each f ds r = Inr r' \<and> names r' = names r \<union> set (map key ds)"
proof (induction ds arbitrary: r)
  case Nil
  then show ?case by simp
next
  case (Cons d ds)
  then obtain r1 where r1: "f d r = Inr r1" "names r1 = insert (key d) (names r)"
    using assms [of d r] by auto
  then show ?case using Cons.IH [of r1] Cons.prems by (auto simp: image_iff)
qed

text \<open>With a Prometheus library that accepts the descriptors and registers every descriptor whose
  name is not in the registry yet, \<^verbatim>\<open>Metrics::new\<close> succeeds on an empty registry and leaves exactly the
  sixteen names of the collectors registered: no two collectors share a name.\<close>
theorem metrics_new_registers_all:
  assumes "\<And>m. create (collector m) = Ok ()"
    and "\<And>d r. d_name d \<notin> names r \<Longrightarrow> \<exists>r'. enter d r = Ok r' \<and> names r' = insert (d_name d) (names r)"
    and "names empty_reg = {}"
  shows "\<exists>r. Metrics_new create enter empty_reg = Ok r \<and>
    names r = {d_name (collector m) | m. True} \<and> card (names r) = 16"
proof -
  have "try_each (\<lambda>m _. create (collector m)) ms () = Ok ()" for ms
    by (induction ms) (simp_all add: assms(1))
  then have "Collectors_new create = Ok all_collectors" by (simp add: Collectors_new_def)
  moreover obtain r where r: "Collectors_register enter all_collectors empty_reg = Ok r"
      "names r = (\<lambda>m. d_name (collector m)) ` set all_collectors"
    using try_each_fresh [of "\<lambda>m. d_name (collector m)" names "\<lambda>m. enter (collector m)"
        all_collectors empty_reg] assms(2,3) collector_names_distinct
    by (auto simp: Collectors_register_def)
  moreover have "card (names r) = 16"
    using r(2) distinct_card [OF collector_names_distinct] by (simp add: all_collectors_def)
  ultimately show ?thesis using all_collectors_complete by (auto simp: Metrics_new_def)
qed

theorem metrics_new_registers_all_witness:
  "\<exists>r. Metrics_new (\<lambda>_. Ok ()) (\<lambda>d r. if d_name d \<in> r then Err () else Ok (insert (d_name d) r)) {} = Ok r \<and>
    card r = 16"
  using metrics_new_registers_all [of "\<lambda>_. Ok ()" id
      "\<lambda>d r. if d_name d \<in> r then Err () else Ok (insert (d_name d) r)" "{}"]
  by auto

text \<open>A Redis operation that begins and ends, in any of the four ways a guard can end (success,
  error, timeout, or dropped because the request was cancelled), leaves the in-flight gauge of its labels
  where it was, adds one to the operations counter under exactly the status of its ending, and records
  one duration; no other series of these three collectors changes.\<close>
theorem operation_accounted_once:
  "begin_operation target kind M = (g, M1) \<Longrightarrow> M2 = close_operation c g (M1 @ N) \<Longrightarrow>
   (\<forall>e \<in> set N. case e of
      Inc m _ \<Rightarrow> m \<notin> {redis_operations_total, redis_operations_inflight}
    | Dec m _ \<Rightarrow> m \<noteq> redis_operations_inflight
    | SetTo m _ _ \<Rightarrow> m \<noteq> redis_operations_inflight
    | Observe m _ \<Rightarrow> m \<noteq> redis_operation_duration) \<Longrightarrow>
   (\<forall>ls. gauge_value M2 redis_operations_inflight ls = gauge_value M redis_operations_inflight ls) \<and>
   (\<forall>ls. counter_value M2 redis_operations_total ls =
      counter_value M redis_operations_total ls +
        (if ls = [target, kind, status_label c] then 1 else 0)) \<and>
   (\<forall>ls. histogram_count M2 redis_operation_duration ls =
      histogram_count M redis_operation_duration ls + (if ls = [target, kind] then 1 else 0))"
proof -
  assume b: "begin_operation target kind M = (g, M1)" and M2: "M2 = close_operation c g (M1 @ N)"
  assume N: "\<forall>e \<in> set N. case e of
      Inc m _ \<Rightarrow> m \<notin> {redis_operations_total, redis_operations_inflight}
    | Dec m _ \<Rightarrow> m \<noteq> redis_operations_inflight
    | SetTo m _ _ \<Rightarrow> m \<noteq> redis_operations_inflight
    | Observe m _ \<Rightarrow> m \<noteq> redis_operation_duration"
  have g: "\<not> guard_completed g" "guard_timer g" "guard_target g = target" "guard_kind g = kind"
    and M1: "M1 = M @ [Inc redis_operations_inflight [target, kind]]"
    using b by (auto simp: begin_operation_def Guard_new_def)
  have "fold (gauge_step redis_operations_inflight ls) N v = v" for ls v
    using N by (induction N arbitrary: v) (auto split: metric_event.splits)
  moreover have "counter_value N redis_operations_total ls = 0"
      and "histogram_count N redis_operation_duration ls = 0" for ls
    using N by (induction N) (auto split: metric_event.splits)
  ultimately show ?thesis
    using g by (simp add: M2 M1 close_operation_log gauge_value_append)
qed

theorem operation_accounted_once_witness:
  "counter_value (close_operation TimedOut (fst (begin_operation ''t'' ''command'' []))
     (snd (begin_operation ''t'' ''command'' []) @ [Inc auth_failed_total []]))
     redis_operations_total [''t'', ''command'', ''timeout''] = 1"
  using operation_accounted_once [of "''t''" "''command''" "[]" "fst (begin_operation ''t'' ''command'' [])"
      "snd (begin_operation ''t'' ''command'' [])" _ TimedOut "[Inc auth_failed_total []]"]
  by simp

text \<open>While operations and subscriptions of any number of requests interleave, the in-flight gauge
  under a pair of labels is the number of operation guards alive with these labels, and the realtime
  gauge of a target is the number of connection guards alive for that target.\<close>
theorem inflight_gauges_count_guards:
  "(guards_run open_operation close_operation redis_operations_inflight [] gs M \<longrightarrow>
     gauge_value M redis_operations_inflight [t, k] =
       int (length (filter (\<lambda>g. guard_target g = t \<and> guard_kind g = k) gs))) \<and>
   (guards_run realtime_connection close_subscription realtime_inflight [] cs M' \<longrightarrow>
     gauge_value M' realtime_inflight [t] = int (length (filter (\<lambda>g. cg_target g = t) cs)))"
  using operations.gauge_counts_alive [of "[]" gs M "[t, k]"]
    subscriptions.gauge_counts_alive [of "[]" cs M' "[t]"]
  by (auto simp: operation_labels_def)

lemma sample_guards_run:
  "guards_run open_operation close_operation redis_operations_inflight []
     ([] @ [Guard_new ''t'' ''command'']) [Inc redis_operations_inflight [''t'', ''command'']]"
  by (rule run_open [OF run_start, where l = "(''t'', ''command'')"])
     (simp add: open_operation_def begin_operation_def)

lemma sample_subscriptions_run:
  "guards_run realtime_connection close_subscription realtime_inflight []
     ([] @ [\<lparr>cg_target = ''t''\<rparr>]) [Inc realtime_total [''t''], Inc realtime_inflight [''t'']]"
  by (rule run_open [OF run_start, where l = "''t''"]) (simp add: realtime_connection_def)

theorem inflight_gauges_count_guards_witness:
  "gauge_value [Inc redis_operations_inflight [''t'', ''command'']] redis_operations_inflight [''t'', ''command''] = 1 \<and>
   gauge_value [Inc realtime_total [''t''], Inc realtime_inflight [''t'']] realtime_inflight [''t''] = 1"
  using inflight_gauges_count_guards [of "[Guard_new ''t'' ''command'']"
      "[Inc redis_operations_inflight [''t'', ''command'']]" "''t''" "''command''"
      "[\<lparr>cg_target = ''t''\<rparr>]" "[Inc realtime_total [''t''], Inc realtime_inflight [''t'']]"]
    sample_guards_run sample_subscriptions_run
  by (simp add: Guard_new_def)

end
