(* ===== verification/Target.thy ===== *)
theory Target
  imports Config Metrics
begin

text \<open>
  A Redis target and the supervisors of its connections (\<^verbatim>\<open>RedisTarget\<close> in \<^verbatim>\<open>src/app/state.rs\<close>). One
  task per shard keeps that shard's connection alive, requests pick a connected shard or wait for one.
  The tasks share the slots, the count of available shards and a change channel; every access to one of
  these is a step of its own in the relation \<open>sup_step\<close>, so all interleavings are covered.
\<close>

section \<open>State\<close>

text \<open>A connection manager is a handle of the Redis library.\<close>

type_synonym conn = nat

record connection_slot =
  generation :: "64 word"
  connection :: "conn option"

text \<open>
  A \<^verbatim>\<open>watch\<close> channel has a value and, inside the library, the number of values sent; a receiver that has
  seen version \<open>v\<close> is woken by \<^verbatim>\<open>changed\<close> once a later one was sent. The operation semaphore is the number
  of permits it has left.
\<close>

record redis_target =
  t_config :: redis_config
  t_connections :: "connection_slot list"
  t_revision :: "64 word"
  t_version :: nat
  t_available :: "64 word"
  t_next :: "64 word"
  t_permits :: nat

definition target_id :: "redis_target \<Rightarrow> string" where
  "target_id t = rrb_id (t_config t)"

definition empty_slot :: connection_slot where
  "empty_slot = \<lparr>generation = 0, connection = None\<rparr>"

definition RedisTarget_new :: "redis_config \<Rightarrow> redis_target" where
  "RedisTarget_new c =
     \<lparr>t_config = c, t_connections = replicate (connection_shards c) empty_slot, t_revision = 0,
      t_version = 0, t_available = 0, t_next = 0, t_permits = operation_limit c\<rparr>"

section \<open>Choosing a shard\<close>

definition select_ready_shard :: "nat \<Rightarrow> nat \<Rightarrow> (nat \<Rightarrow> bool) \<Rightarrow> nat option" where
  "select_ready_shard start len ready =
     find ready (map (\<lambda>offset. (start mod len + offset) mod len) [0..<len])"

section \<open>Connecting and disconnecting\<close>

text \<open>The parts of \<^verbatim>\<open>connected\<close> and \<^verbatim>\<open>disconnected\<close>, each of which is atomic.\<close>

definition slot_connect :: "nat \<Rightarrow> conn \<Rightarrow> redis_target \<Rightarrow> redis_target" where
  "slot_connect shard c t =
     t\<lparr>t_connections := (t_connections t)[shard :=
         \<lparr>generation = max (generation (t_connections t ! shard) + 1) 1, connection = Some c\<rparr>]\<rparr>"

definition slot_disconnect :: "nat \<Rightarrow> 64 word \<Rightarrow> redis_target \<Rightarrow> bool \<times> redis_target" where
  "slot_disconnect shard gen t =
     (let slot = t_connections t ! shard in
      if generation slot \<noteq> gen \<or> connection slot = None then (False, t)
      else (True, t\<lparr>t_connections := (t_connections t)[shard := slot\<lparr>connection := None\<rparr>]\<rparr>))"

definition available_add :: "redis_target \<Rightarrow> redis_target" where
  "available_add t = t\<lparr>t_available := t_available t + 1\<rparr>"

definition available_sub :: "redis_target \<Rightarrow> redis_target" where
  "available_sub t = t\<lparr>t_available := t_available t - 1\<rparr>"

definition notify_changed :: "redis_target \<Rightarrow> redis_target" where
  "notify_changed t = t\<lparr>t_revision := t_revision t + 1, t_version := t_version t + 1\<rparr>"

definition connected :: "nat \<Rightarrow> conn \<Rightarrow> redis_target \<Rightarrow> metrics \<Rightarrow> redis_target \<times> metrics" where
  "connected shard c t M =
     (notify_changed (available_add (slot_connect shard c t)),
      M @ [Inc redis_connected_shards [target_id t]])"

definition disconnected :: "nat \<Rightarrow> 64 word \<Rightarrow> redis_target \<Rightarrow> metrics \<Rightarrow> bool \<times> redis_target \<times> metrics" where
  "disconnected shard gen t M =
     (case slot_disconnect shard gen t of
        (False, t') \<Rightarrow> (False, t', M)
      | (True, t') \<Rightarrow> (True, notify_changed (available_sub t'),
                       M @ [Dec redis_connected_shards [target_id t]]))"

definition connections_initialized :: "redis_target \<Rightarrow> nat" where
  "connections_initialized t = unat (t_available t)"

section \<open>The supervisor of a shard\<close>

definition MAX_BACKOFF :: duration where "MAX_BACKOFF = from_secs 5"
definition INITIAL_BACKOFF :: duration where "INITIAL_BACKOFF = from_millis 250"
definition MAX_FAILED_PROBES :: nat where "MAX_FAILED_PROBES = 2"

text \<open>
  Where a supervisor stands in \<^verbatim>\<open>maintain_connection\<close>: before its first turn, at the head of the loop,
  watching a connection, connecting, inside \<^verbatim>\<open>connected\<close> or \<^verbatim>\<open>disconnected\<close> (the number is how many of their
  effects have happened), or sleeping after a failed attempt.
\<close>

datatype worker_pc =
    Delayed | AtTop | Watching "64 word" | Connecting | Established conn
  | Conn1 | Conn2 | Conn3 | Disc1 | Disc2 | Disc3 | Sleeping

record worker =
  w_pc :: worker_pc
  w_backoff :: duration
  w_failures :: nat
  w_failed_probes :: nat

definition worker_new :: "nat \<Rightarrow> worker" where
  "worker_new shard = \<lparr>w_pc = (if shard > 0 then Delayed else AtTop), w_backoff = INITIAL_BACKOFF,
     w_failures = 0, w_failed_probes = 0\<rparr>"

text \<open>The wait before the first turn of a shard.\<close>

definition start_delay :: "nat \<Rightarrow> duration" where
  "start_delay shard = (if shard > 0 then from_millis (shard * 50 mod 750) else 0)"

definition saturating_u8_inc :: "nat \<Rightarrow> nat" where
  "saturating_u8_inc n = min (n + 1) u8_max"

definition next_backoff :: "duration \<Rightarrow> duration" where
  "next_backoff b = min (b * 2) MAX_BACKOFF"

inductive worker_step ::
    "nat \<Rightarrow> redis_target \<Rightarrow> metrics \<Rightarrow> worker \<Rightarrow> redis_target \<Rightarrow> metrics \<Rightarrow> worker \<Rightarrow> bool"
  for shard where
  ws_start: "w_pc w = Delayed \<Longrightarrow> worker_step shard t M w t M (w\<lparr>w_pc := AtTop\<rparr>)"
| ws_watch: "w_pc w = AtTop \<Longrightarrow> connection (t_connections t ! shard) = Some c \<Longrightarrow>
    worker_step shard t M w t M (w\<lparr>w_pc := Watching (generation (t_connections t ! shard))\<rparr>)"
| ws_connect: "w_pc w = AtTop \<Longrightarrow> connection (t_connections t ! shard) = None \<Longrightarrow>
    worker_step shard t M w t M (w\<lparr>w_pc := Connecting\<rparr>)"
| ws_changed: "w_pc w = Watching g \<Longrightarrow> worker_step shard t M w t M (w\<lparr>w_pc := AtTop\<rparr>)"
| ws_probe_ok: "w_pc w = Watching g \<Longrightarrow>
    worker_step shard t M w t M (w\<lparr>w_pc := AtTop, w_failed_probes := 0\<rparr>)"
| ws_probe_failed: "w_pc w = Watching g \<Longrightarrow>
    saturating_u8_inc (w_failed_probes w) < MAX_FAILED_PROBES \<Longrightarrow>
    worker_step shard t M w t M
      (w\<lparr>w_pc := AtTop, w_failed_probes := saturating_u8_inc (w_failed_probes w)\<rparr>)"
| ws_disconnect: "w_pc w = Watching g \<Longrightarrow>
    saturating_u8_inc (w_failed_probes w) \<ge> MAX_FAILED_PROBES \<Longrightarrow>
    slot_disconnect shard g t = (True, t') \<Longrightarrow>
    worker_step shard t M w t' M
      (w\<lparr>w_pc := Disc1, w_failed_probes := saturating_u8_inc (w_failed_probes w)\<rparr>)"
| ws_superseded: "w_pc w = Watching g \<Longrightarrow>
    saturating_u8_inc (w_failed_probes w) \<ge> MAX_FAILED_PROBES \<Longrightarrow>
    slot_disconnect shard g t = (False, t') \<Longrightarrow>
    worker_step shard t M w t' M (w\<lparr>w_pc := AtTop, w_failed_probes := 0\<rparr>)"
| ws_disc_gauge: "w_pc w = Disc1 \<Longrightarrow>
    worker_step shard t M w t (M @ [Dec redis_connected_shards [target_id t]]) (w\<lparr>w_pc := Disc2\<rparr>)"
| ws_disc_count: "w_pc w = Disc2 \<Longrightarrow> worker_step shard t M w (available_sub t) M (w\<lparr>w_pc := Disc3\<rparr>)"
| ws_disc_notify: "w_pc w = Disc3 \<Longrightarrow>
    worker_step shard t M w (notify_changed t) M (w\<lparr>w_pc := AtTop, w_failed_probes := 0\<rparr>)"
| ws_established: "w_pc w = Connecting \<Longrightarrow>
    worker_step shard t M w t (M @ [Inc redis_connection_attempts [target_id t, ''success'']])
      (w\<lparr>w_pc := Established c\<rparr>)"
| ws_conn_slot: "w_pc w = Established c \<Longrightarrow>
    worker_step shard t M w (slot_connect shard c t) M (w\<lparr>w_pc := Conn1\<rparr>)"
| ws_conn_gauge: "w_pc w = Conn1 \<Longrightarrow>
    worker_step shard t M w t (M @ [Inc redis_connected_shards [target_id t]]) (w\<lparr>w_pc := Conn2\<rparr>)"
| ws_conn_count: "w_pc w = Conn2 \<Longrightarrow> worker_step shard t M w (available_add t) M (w\<lparr>w_pc := Conn3\<rparr>)"
| ws_conn_notify: "w_pc w = Conn3 \<Longrightarrow>
    worker_step shard t M w (notify_changed t) M
      (w\<lparr>w_pc := AtTop, w_backoff := INITIAL_BACKOFF, w_failures := 0, w_failed_probes := 0\<rparr>)"
| ws_refused: "w_pc w = Connecting \<Longrightarrow>
    worker_step shard t M w t (M @ [Inc redis_connection_attempts [target_id t, ''error'']])
      (w\<lparr>w_pc := Sleeping, w_failures := min (w_failures w + 1) u64_max\<rparr>)"
| ws_slept: "w_pc w = Sleeping \<Longrightarrow>
    worker_step shard t M w t M (w\<lparr>w_pc := AtTop, w_backoff := next_backoff (w_backoff w)\<rparr>)"

section \<open>A request that looks for a connection\<close>

text \<open>
  \<^verbatim>\<open>connection\<close>: remember the version seen, scan the shards from the start index in cyclic order as
  \<open>select_ready_shard\<close> does, read the slot found once more, and wait for a change if that
  gave nothing.
\<close>

datatype request_pc =
    RIdle
  | RScan nat nat nat
  | RFound nat nat nat
  | RWait nat nat
  | RDone nat "64 word" conn

abbreviation shard_at :: "nat \<Rightarrow> nat \<Rightarrow> nat \<Rightarrow> nat" where
  "shard_at start len offset \<equiv> (start mod len + offset) mod len"

inductive request_step :: "redis_target \<Rightarrow> request_pc \<Rightarrow> redis_target \<Rightarrow> request_pc \<Rightarrow> bool" where
  rq_begin: "request_step t RIdle (t\<lparr>t_next := t_next t + 1\<rparr>)
    (RScan (t_version t) (unat (t_next t)) 0)"
| rq_ready: "k < length (t_connections t) \<Longrightarrow>
    connection (t_connections t ! shard_at start (length (t_connections t)) k) \<noteq> None \<Longrightarrow>
    request_step t (RScan v start k) t (RFound v start (shard_at start (length (t_connections t)) k))"
| rq_off: "k < length (t_connections t) \<Longrightarrow>
    connection (t_connections t ! shard_at start (length (t_connections t)) k) = None \<Longrightarrow>
    request_step t (RScan v start k) t (RScan v start (k + 1))"
| rq_none: "request_step t (RScan v start (length (t_connections t))) t (RWait v start)"
| rq_take: "connection (t_connections t ! i) = Some c \<Longrightarrow>
    request_step t (RFound v start i) t (RDone i (generation (t_connections t ! i)) c)"
| rq_lost: "connection (t_connections t ! i) = None \<Longrightarrow>
    request_step t (RFound v start i) t (RWait v start)"
| rq_wake: "v < t_version t \<Longrightarrow>
    request_step t (RWait v start) t (RScan (t_version t) start 0)"
| rq_finish: "request_step t (RDone i g c) t RIdle"

section \<open>A target under its supervisors and requests\<close>

record sup =
  s_target :: redis_target
  s_metrics :: metrics
  s_workers :: "worker list"
  s_requests :: "request_pc list"

definition sup_init :: "redis_config \<Rightarrow> metrics \<Rightarrow> nat \<Rightarrow> sup" where
  "sup_init c M n =
     \<lparr>s_target = RedisTarget_new c, s_metrics = M @ [SetTo redis_connected_shards [rrb_id c] 0],
      s_workers = map worker_new [0..<connection_shards c], s_requests = replicate n RIdle\<rparr>"

inductive sup_step :: "sup \<Rightarrow> sup \<Rightarrow> bool" where
  worker_moves: "i < length (s_workers s) \<Longrightarrow>
    worker_step i (s_target s) (s_metrics s) (s_workers s ! i) t' M' w' \<Longrightarrow>
    sup_step s (s\<lparr>s_target := t', s_metrics := M', s_workers := (s_workers s)[i := w']\<rparr>)"
| request_moves: "j < length (s_requests s) \<Longrightarrow>
    request_step (s_target s) (s_requests s ! j) t' r' \<Longrightarrow>
    sup_step s (s\<lparr>s_target := t', s_requests := (s_requests s)[j := r']\<rparr>)"

inductive sup_reach :: "redis_config \<Rightarrow> metrics \<Rightarrow> nat \<Rightarrow> sup \<Rightarrow> bool" for c M n where
  sup_start: "sup_reach c M n (sup_init c M n)"
| sup_next: "sup_reach c M n s \<Longrightarrow> sup_step s s' \<Longrightarrow> sup_reach c M n s'"

section \<open>Accounting of the available shards\<close>

abbreviation is_on :: "redis_target \<Rightarrow> nat \<Rightarrow> bool" where
  "is_on t i \<equiv> connection (t_connections t ! i) \<noteq> None"

text \<open>Whether a shard is counted as available and in the gauge, by its slot and its supervisor.\<close>

definition counted :: "connection_slot \<Rightarrow> worker_pc \<Rightarrow> bool" where
  "counted slot pc \<longleftrightarrow> connection slot \<noteq> None \<and> pc \<notin> {Conn1, Conn2} \<or> pc \<in> {Disc1, Disc2}"

definition gauged :: "connection_slot \<Rightarrow> worker_pc \<Rightarrow> bool" where
  "gauged slot pc \<longleftrightarrow> connection slot \<noteq> None \<and> pc \<noteq> Conn1 \<or> pc = Disc1"

text \<open>An update of the shared state that has begun and whose notification is still to come.\<close>

definition updating :: "worker_pc \<Rightarrow> bool" where
  "updating pc \<longleftrightarrow> pc \<in> {Conn1, Conn2, Conn3, Disc1, Disc2, Disc3}"

text \<open>Only the supervisor of a shard writes its slot, so its position tells what the slot holds.\<close>

fun shard_ok :: "connection_slot \<Rightarrow> worker_pc \<Rightarrow> bool" where
  "shard_ok slot AtTop = True"
| "shard_ok slot (Watching g) = (connection slot \<noteq> None \<and> generation slot = g)"
| "shard_ok slot pc = ((connection slot \<noteq> None) = (pc \<in> {Conn1, Conn2, Conn3}))"

lemmas shard_defs = counted_def gauged_def updating_def slot_connect_def slot_disconnect_def
  available_add_def available_sub_def notify_changed_def target_id_def

lemma worker_step_local:
  assumes "worker_step i t M w t' M' w'" and "shard_ok (t_connections t ! i) (w_pc w)"
    and "i < length (t_connections t)"
  shows "t_config t' = t_config t \<and> length (t_connections t') = length (t_connections t) \<and>
    t_next t' = t_next t \<and> (\<forall>j. j \<noteq> i \<longrightarrow> t_connections t' ! j = t_connections t ! j) \<and>
    shard_ok (t_connections t' ! i) (w_pc w')"
  using assms by cases (auto simp: shard_defs Let_def split: if_splits)

lemma worker_step_counts:
  assumes "worker_step i t M w t' M' w'" and "shard_ok (t_connections t ! i) (w_pc w)"
    and "i < length (t_connections t)"
  shows "t_available t' + of_bool (counted (t_connections t ! i) (w_pc w)) =
      t_available t + of_bool (counted (t_connections t' ! i) (w_pc w'))"
    and "gauge_value M' redis_connected_shards [target_id t] +
        of_bool (gauged (t_connections t ! i) (w_pc w)) =
      gauge_value M redis_connected_shards [target_id t] +
        of_bool (gauged (t_connections t' ! i) (w_pc w'))"
  using assms by (cases; auto simp: shard_defs Let_def split: if_splits)+

lemma worker_step_signals:
  assumes "worker_step i t M w t' M' w'" and "shard_ok (t_connections t ! i) (w_pc w)"
    and "i < length (t_connections t)"
  shows "t_version t < t_version t' \<or>
    t_version t' = t_version t \<and> (updating (w_pc w) \<longrightarrow> updating (w_pc w')) \<and>
    (is_on t' i = is_on t i \<or> updating (w_pc w'))"
  using assms by cases (auto simp: shard_defs Let_def split: if_splits)

lemma request_step_target:
  "request_step t r t' r' \<Longrightarrow>
   t_config t' = t_config t \<and> t_connections t' = t_connections t \<and> t_version t' = t_version t \<and>
   t_available t' = t_available t"
  by (cases rule: request_step.cases) auto

text \<open>The sum over the shards of a quantity that is zero or one for each.\<close>

lemma sum_change_one:
  fixes f g :: "nat \<Rightarrow> 'a::comm_monoid_add"
  assumes "i < n" and "\<And>j. j < n \<Longrightarrow> j \<noteq> i \<Longrightarrow> g j = f j"
  shows "(\<Sum>j<n. g j) + f i = (\<Sum>j<n. f j) + g i"
proof -
  have "(\<Sum>j<n. g j) = g i + (\<Sum>j\<in>{..<n} - {i}. g j)" by (rule sum.remove) (use assms in auto)
  moreover have "(\<Sum>j<n. f j) = f i + (\<Sum>j\<in>{..<n} - {i}. f j)" by (rule sum.remove) (use assms in auto)
  moreover have "(\<Sum>j\<in>{..<n} - {i}. g j) = (\<Sum>j\<in>{..<n} - {i}. f j)"
    by (rule sum.cong) (use assms in auto)
  ultimately show ?thesis by (simp add: ac_simps)
qed

lemma same_balance:
  fixes a :: "'a::cancel_comm_monoid_add"
  assumes "x' + f = x + f'" and "a' + f = a + f'" and "a = x"
  shows "a' = x'"
  using assms by (metis add_right_cancel)

abbreviation pc_of :: "sup \<Rightarrow> nat \<Rightarrow> worker_pc" where
  "pc_of s i \<equiv> w_pc (s_workers s ! i)"

abbreviation slot_of :: "sup \<Rightarrow> nat \<Rightarrow> connection_slot" where
  "slot_of s i \<equiv> t_connections (s_target s) ! i"

definition sup_shape :: "redis_config \<Rightarrow> sup \<Rightarrow> bool" where
  "sup_shape c s \<longleftrightarrow>
     t_config (s_target s) = c \<and> length (t_connections (s_target s)) = connection_shards c \<and>
     length (s_workers s) = connection_shards c \<and>
     (\<forall>i < connection_shards c. shard_ok (slot_of s i) (pc_of s i))"

definition sup_counts :: "redis_config \<Rightarrow> sup \<Rightarrow> bool" where
  "sup_counts c s \<longleftrightarrow>
     t_available (s_target s) = (\<Sum>i<connection_shards c. of_bool (counted (slot_of s i) (pc_of s i))) \<and>
     gauge_value (s_metrics s) redis_connected_shards [rrb_id c] =
       (\<Sum>i<connection_shards c. of_bool (gauged (slot_of s i) (pc_of s i)))"

lemma sup_shape_init: "sup_shape c (sup_init c M n)"
  by (auto simp: sup_shape_def sup_init_def RedisTarget_new_def worker_new_def empty_slot_def)

lemma sup_counts_init: "sup_counts c (sup_init c M n)"
proof -
  have "\<not> counted empty_slot (w_pc (worker_new i))" and "\<not> gauged empty_slot (w_pc (worker_new i))" for i
    by (simp_all add: counted_def gauged_def empty_slot_def worker_new_def)
  then show ?thesis by (simp add: sup_counts_def sup_init_def RedisTarget_new_def)
qed

lemma sup_shape_step:
  assumes "sup_step s s'" and "sup_shape c s"
  shows "sup_shape c s'"
  using assms(1)
proof cases
  case (worker_moves i t' M' w')
  then have i: "i < connection_shards c" using assms(2) by (simp add: sup_shape_def)
  have ok: "shard_ok (slot_of s i) (pc_of s i)" using assms(2) i by (simp add: sup_shape_def)
  from worker_step_local [OF worker_moves(3) ok] i assms(2) show ?thesis
    unfolding worker_moves(1) by (auto simp: sup_shape_def nth_list_update)
next
  case (request_moves j t' r')
  from request_step_target [OF request_moves(3)] assms(2) show ?thesis
    unfolding request_moves(1) by (simp add: sup_shape_def)
qed

lemma sup_counts_step:
  assumes "sup_step s s'" and "sup_shape c s" and "sup_counts c s"
  shows "sup_counts c s'"
  using assms(1)
proof cases
  case (worker_moves i t' M' w')
  then have i: "i < connection_shards c" using assms(2) by (simp add: sup_shape_def)
  have ok: "shard_ok (slot_of s i) (pc_of s i)" and li: "i < length (t_connections (s_target s))"
    and id: "target_id (s_target s) = rrb_id c" and lw: "i < length (s_workers s)"
    using assms(2) i by (auto simp: sup_shape_def target_id_def)
  have same: "slot_of s' j = slot_of s j \<and> pc_of s' j = pc_of s j" if "j \<noteq> i" for j
    using worker_step_local [OF worker_moves(3) ok li] that unfolding worker_moves(1) by simp
  have here: "slot_of s' i = t_connections t' ! i" "pc_of s' i = w_pc w'"
    using lw by (simp_all add: worker_moves(1))
  note c = worker_step_counts [OF worker_moves(3) ok li]
  have a: "t_available (s_target s') = t_available t'" and m: "s_metrics s' = M'"
    by (simp_all add: worker_moves(1))
  have "(\<Sum>j<connection_shards c. of_bool (counted (slot_of s' j) (pc_of s' j)) :: 64 word) +
        of_bool (counted (slot_of s i) (pc_of s i)) =
      (\<Sum>j<connection_shards c. of_bool (counted (slot_of s j) (pc_of s j))) +
        of_bool (counted (slot_of s' i) (pc_of s' i))"
    using same by (intro sum_change_one [OF i]) auto
  from same_balance [OF this [unfolded here] c(1) conjunct1 [OF assms(3) [unfolded sup_counts_def]]]
  have 1: "t_available t' =
      (\<Sum>j<connection_shards c. of_bool (counted (slot_of s' j) (pc_of s' j)))" .
  have "(\<Sum>j<connection_shards c. of_bool (gauged (slot_of s' j) (pc_of s' j)) :: int) +
        of_bool (gauged (slot_of s i) (pc_of s i)) =
      (\<Sum>j<connection_shards c. of_bool (gauged (slot_of s j) (pc_of s j))) +
        of_bool (gauged (slot_of s' i) (pc_of s' i))"
    using same by (intro sum_change_one [OF i]) auto
  from same_balance [OF this [unfolded here] c(2) [unfolded id] conjunct2 [OF assms(3) [unfolded sup_counts_def]]]
  have 2: "gauge_value M' redis_connected_shards [rrb_id c] =
      (\<Sum>j<connection_shards c. of_bool (gauged (slot_of s' j) (pc_of s' j)))" .
  show ?thesis unfolding sup_counts_def a m using 1 2 by (rule conjI)
next
  case (request_moves j t' r')
  from request_step_target [OF request_moves(3)] assms(3) show ?thesis
    unfolding request_moves(1) by (simp add: sup_counts_def del: sum_of_bool_eq)
qed

lemma sup_reach_inv: "sup_reach c M n s \<Longrightarrow> sup_shape c s \<and> sup_counts c s"
  by (induction rule: sup_reach.induct)
     (auto simp: sup_shape_init sup_counts_init intro: sup_shape_step sup_counts_step)

section \<open>No wake-up is lost\<close>

lemma shard_at_onto: "i < n \<Longrightarrow> \<exists>k < n. shard_at start n k = i"
proof (intro exI conjI)
  assume i: "i < n"
  let ?a = "start mod n"
  have a: "?a < n" using i by simp
  show "(i + (n - ?a)) mod n < n" using i by simp
  have "(?a + (i + (n - ?a)) mod n) mod n = (?a + (i + (n - ?a))) mod n" by (rule mod_add_right_eq)
  also have "?a + (i + (n - ?a)) = i + n" using a by simp
  also have "(i + n) mod n = i" using i by simp
  finally show "shard_at start n ((i + (n - ?a)) mod n) = i" .
qed

text \<open>
  What the position of a request promises: unless a change has been sent since the version it saw,
  the shards it has found off are still off or about to be announced.
\<close>

fun request_ok :: "sup \<Rightarrow> request_pc \<Rightarrow> bool" where
  "request_ok s RIdle = True"
| "request_ok s (RScan v start k) =
     (k \<le> length (t_connections (s_target s)) \<and> v \<le> t_version (s_target s) \<and>
      (v < t_version (s_target s) \<or>
       (\<forall>j < k. \<not> is_on (s_target s) (shard_at start (length (t_connections (s_target s))) j) \<or>
          updating (pc_of s (shard_at start (length (t_connections (s_target s))) j)))))"
| "request_ok s (RFound v start i) =
     (i < length (t_connections (s_target s)) \<and> v \<le> t_version (s_target s) \<and>
      (v < t_version (s_target s) \<or> is_on (s_target s) i \<or> updating (pc_of s i)))"
| "request_ok s (RWait v start) =
     (v \<le> t_version (s_target s) \<and>
      (v < t_version (s_target s) \<or>
       (\<exists>i < length (t_connections (s_target s)). updating (pc_of s i)) \<or>
       (\<forall>i < length (t_connections (s_target s)). \<not> is_on (s_target s) i)))"
| "request_ok s (RDone i g c) = (i < length (t_connections (s_target s)))"

lemma request_step_ok:
  assumes "request_step (s_target s) r t' r'" and "request_ok s r"
  shows "request_ok (s\<lparr>s_target := t', s_requests := rs\<rparr>) r'"
  using assms(1)
proof cases
  case (rq_ready k start v)
  then have "k < length (t_connections (s_target s))" by simp
  then have "shard_at start (length (t_connections (s_target s))) k < length (t_connections (s_target s))"
    by (metis gr_implies_not0 mod_less_divisor not_gr_zero)
  then show ?thesis using rq_ready assms(2) by auto
next
  case (rq_off k start v)
  then show ?thesis using assms(2) by (auto simp: less_Suc_eq)
next
  case (rq_none v start)
  have "updating (pc_of s i) \<or> \<not> is_on (s_target s) i"
    if i: "i < length (t_connections (s_target s))" and v: "\<not> v < t_version (s_target s)" for i
  proof -
    obtain k where k: "k < length (t_connections (s_target s))"
        "shard_at start (length (t_connections (s_target s))) k = i"
      using shard_at_onto [OF i] by blast
    then show ?thesis using rq_none assms(2) v by auto
  qed
  then show ?thesis using rq_none assms(2) by auto
qed (use assms(2) in auto)

lemma request_ok_stable:
  assumes "request_ok s r" and "t_version (s_target s) \<le> t_version (s_target s')"
    and "length (t_connections (s_target s')) = length (t_connections (s_target s))"
    and "t_version (s_target s) < t_version (s_target s') \<or>
      (\<forall>j < length (t_connections (s_target s)). (updating (pc_of s j) \<longrightarrow> updating (pc_of s' j)) \<and>
         (is_on (s_target s') j = is_on (s_target s) j \<or> updating (pc_of s' j)))"
  shows "request_ok s' r"
proof (cases "t_version (s_target s) < t_version (s_target s')")
  case True
  then show ?thesis using assms(1,3) by (cases r) auto
next
  case False
  then have v: "t_version (s_target s') = t_version (s_target s)" using assms(2) by simp
  have st: "updating (pc_of s j) \<Longrightarrow> updating (pc_of s' j)"
      "is_on (s_target s') j = is_on (s_target s) j \<or> updating (pc_of s' j)"
    if "j < length (t_connections (s_target s))" for j
    using assms(4) False that by auto
  show ?thesis
  proof (cases r)
    case (RScan x start k)
    let ?at = "shard_at start (length (t_connections (s_target s)))"
    have "\<not> is_on (s_target s') (?at j) \<or> updating (pc_of s' (?at j))"
      if j: "j < k" and nx: "\<not> x < t_version (s_target s)" for j
    proof -
      have "?at j < length (t_connections (s_target s))"
        using j assms(1) RScan by (intro mod_less_divisor) auto
      moreover have "\<not> is_on (s_target s) (?at j) \<or> updating (pc_of s (?at j))"
        using j nx assms(1) RScan by auto
      ultimately show ?thesis using st [of "?at j"] by metis
    qed
    moreover have "k \<le> length (t_connections (s_target s))" and "x \<le> t_version (s_target s)"
      using assms(1) RScan by simp_all
    ultimately show ?thesis unfolding RScan request_ok.simps assms(3) v by blast
  next
    case (RWait x start)
    show ?thesis
      using assms(1) st unfolding RWait request_ok.simps assms(3) v by metis
  next
    case (RFound x start i)
    show ?thesis
      using assms(1) st unfolding RFound request_ok.simps assms(3) v by metis
  qed (use assms(1,3) in simp_all)
qed

lemma request_ok_cong: "request_ok (s\<lparr>s_requests := rs\<rparr>) r = request_ok s r"
  by (cases r) auto

definition sup_requests_ok :: "sup \<Rightarrow> bool" where
  "sup_requests_ok s \<longleftrightarrow> list_all (request_ok s) (s_requests s)"

lemma sup_requests_step:
  assumes "sup_step s s'" and "sup_shape c s" and "sup_requests_ok s"
  shows "sup_requests_ok s'"
  using assms(1)
proof cases
  case (worker_moves i t' M' w')
  have i: "i < connection_shards c" and li: "i < length (t_connections (s_target s))"
    and ok: "shard_ok (slot_of s i) (pc_of s i)" and lw: "i < length (s_workers s)"
    using assms(2) worker_moves(2) by (auto simp: sup_shape_def)
  note loc = worker_step_local [OF worker_moves(3) ok li]
    and sig = worker_step_signals [OF worker_moves(3) ok li]
  have "request_ok s' r" if "request_ok s r" for r
  proof (rule request_ok_stable [OF that])
    show "t_version (s_target s) \<le> t_version (s_target s')" using sig by (auto simp: worker_moves(1))
    show "length (t_connections (s_target s')) = length (t_connections (s_target s))"
      using loc by (simp add: worker_moves(1))
    show "t_version (s_target s) < t_version (s_target s') \<or>
      (\<forall>j < length (t_connections (s_target s)). (updating (pc_of s j) \<longrightarrow> updating (pc_of s' j)) \<and>
         (is_on (s_target s') j = is_on (s_target s) j \<or> updating (pc_of s' j)))"
      using sig loc lw by (auto simp: worker_moves(1) nth_list_update)
  qed
  then show ?thesis using assms(3) by (auto simp: sup_requests_ok_def list_all_iff worker_moves(1))
next
  case (request_moves j t' r')
  note eq = request_step_target [OF request_moves(3)]
  have new: "request_ok s' r'"
    unfolding request_moves(1)
    using request_step_ok [OF request_moves(3)] assms(3) request_moves(2)
    by (simp add: sup_requests_ok_def list_all_length)
  have "request_ok s' r" if "request_ok s r" for r
    by (rule request_ok_stable [OF that]) (use eq in \<open>auto simp: request_moves(1)\<close>)
  then have "\<forall>r \<in> set (s_requests s). request_ok s' r"
    using assms(3) by (simp add: sup_requests_ok_def list_all_iff)
  moreover have "set (s_requests s') \<subseteq> insert r' (set (s_requests s))"
    by (simp add: request_moves(1) set_update_subset_insert)
  ultimately show ?thesis using new by (auto simp: sup_requests_ok_def list_all_iff)
qed

lemma sup_reach_requests: "sup_reach c M n s \<Longrightarrow> sup_requests_ok s"
proof (induction rule: sup_reach.induct)
  case sup_start
  then show ?case by (simp add: sup_requests_ok_def sup_init_def list_all_iff)
next
  case (sup_next s s')
  then show ?case using sup_reach_inv sup_requests_step by blast
qed

section \<open>Properties\<close>

definition quiet :: "sup \<Rightarrow> bool" where
  "quiet s \<longleftrightarrow> list_all (\<lambda>w. \<not> updating (w_pc w)) (s_workers s)"

lemma counted_le: "(\<Sum>i<n. of_bool (P i) :: nat) \<le> n"
  by (induction n) auto

lemma unat_count: "n \<le> usize_max \<Longrightarrow> unat (\<Sum>i<n. of_bool (P i) :: 64 word) = card {i. i < n \<and> P i}"
proof -
  assume n: "n \<le> usize_max"
  have eq: "(\<Sum>i<n. of_bool (P i) :: 64 word) = word_of_nat (\<Sum>i<n. of_bool (P i))" by simp
  have "(\<Sum>i<n. of_bool (P i) :: nat) < 2 ^ 64" using counted_le [of P n] n by simp
  then have "unat (word_of_nat (\<Sum>i<n. of_bool (P i)) :: 64 word) = (\<Sum>i<n. of_bool (P i))"
    unfolding unat_of_nat by (intro mod_less) simp
  then have "unat (\<Sum>i<n. of_bool (P i) :: 64 word) = (\<Sum>i<n. of_bool (P i))" by (simp only: eq)
  also have "\<dots> = card {i. i < n \<and> P i}" by (simp add: lessThan_def Int_def)
  finally show ?thesis .
qed

text \<open>
  A run for the witnesses: with one shard, a request finds it off and waits; then the supervisor
  connects and announces the shard.
\<close>

definition sample_config :: redis_config where
  "sample_config = \<lparr>rrb_id = ''t'', connection_string = ''redis://r'', operation_limit = 2,
     connection_shards = 1, tokens = []\<rparr>"

definition sample_sup ::
    "connection_slot \<Rightarrow> nat \<Rightarrow> 64 word \<Rightarrow> worker_pc \<Rightarrow> metrics \<Rightarrow> request_pc \<Rightarrow> sup" where
  "sample_sup slot v a pc M r =
     \<lparr>s_target = \<lparr>t_config = sample_config, t_connections = [slot], t_revision = of_nat v, t_version = v,
        t_available = a, t_next = of_bool (r \<noteq> RIdle), t_permits = 2\<rparr>,
      s_metrics = SetTo redis_connected_shards [''t''] 0 # M,
      s_workers = [\<lparr>w_pc = pc, w_backoff = INITIAL_BACKOFF, w_failures = 0, w_failed_probes = 0\<rparr>],
      s_requests = [r]\<rparr>"

abbreviation sample_reach :: "sup \<Rightarrow> bool" where
  "sample_reach \<equiv> sup_reach sample_config [] 1"

lemma sample_worker:
  assumes "sample_reach (sample_sup slot v a pc M r)"
    and "worker_step 0 (s_target (sample_sup slot v a pc M r)) (s_metrics (sample_sup slot v a pc M r))
      (hd (s_workers (sample_sup slot v a pc M r)))
      (s_target (sample_sup slot' v' a' pc' M' r)) (s_metrics (sample_sup slot' v' a' pc' M' r))
      (hd (s_workers (sample_sup slot' v' a' pc' M' r)))"
  shows "sample_reach (sample_sup slot' v' a' pc' M' r)"
proof -
  have "sup_step (sample_sup slot v a pc M r) (sample_sup slot' v' a' pc' M' r)"
    using worker_moves [of 0 "sample_sup slot v a pc M r"] assms(2) by (simp add: sample_sup_def)
  then show ?thesis using assms(1) by (rule sup_next [rotated])
qed

lemma sample_request:
  assumes "sample_reach (sample_sup slot v a pc M r)"
    and "request_step (s_target (sample_sup slot v a pc M r)) r (s_target (sample_sup slot v a pc M r')) r'"
  shows "sample_reach (sample_sup slot v a pc M r')"
proof -
  have "sup_step (sample_sup slot v a pc M r) (sample_sup slot v a pc M r')"
    using request_moves [of 0 "sample_sup slot v a pc M r"] assms(2) by (simp add: sample_sup_def)
  then show ?thesis using assms(1) by (rule sup_next [rotated])
qed

lemma sample_waits: "sample_reach (sample_sup empty_slot 0 0 AtTop [] (RWait 0 0))"
proof -
  have "sample_reach (sample_sup empty_slot 0 0 AtTop [] RIdle)"
    using sup_start [of sample_config "[]" 1]
    by (simp add: sup_init_def RedisTarget_new_def sample_sup_def sample_config_def worker_new_def)
  then have "sample_reach (sample_sup empty_slot 0 0 AtTop [] (RScan 0 0 0))"
    by (rule sample_request) (use rq_begin [of "s_target (sample_sup empty_slot 0 0 AtTop [] RIdle)"] in
      \<open>simp add: sample_sup_def\<close>)
  then have "sample_reach (sample_sup empty_slot 0 0 AtTop [] (RScan 0 0 1))"
    by (rule sample_request) (use rq_off [of 0 "s_target (sample_sup empty_slot 0 0 AtTop [] (RScan 0 0 0))"] in
      \<open>simp add: sample_sup_def empty_slot_def\<close>)
  then show ?thesis
    by (rule sample_request) (use rq_none [of "s_target (sample_sup empty_slot 0 0 AtTop [] (RScan 0 0 1))"] in
      \<open>simp add: sample_sup_def\<close>)
qed

abbreviation sample_slot :: connection_slot where
  "sample_slot \<equiv> \<lparr>generation = 1, connection = Some 7\<rparr>"

abbreviation sample_log :: metrics where
  "sample_log \<equiv> [Inc redis_connection_attempts [''t'', ''success''], Inc redis_connected_shards [''t'']]"

lemma sample_connects: "sample_reach (sample_sup sample_slot 1 1 AtTop sample_log (RWait 0 0))"
proof -
  note defs = sample_sup_def sample_config_def empty_slot_def shard_defs
  have "sample_reach (sample_sup empty_slot 0 0 Connecting [] (RWait 0 0))"
    by (rule sample_worker [OF sample_waits])
       (use ws_connect [of "hd (s_workers (sample_sup empty_slot 0 0 AtTop [] (RWait 0 0)))"] in \<open>simp add: defs\<close>)
  then have "sample_reach (sample_sup empty_slot 0 0 (Established 7) (butlast sample_log) (RWait 0 0))"
    by (rule sample_worker)
       (use ws_established [of "hd (s_workers (sample_sup empty_slot 0 0 Connecting [] (RWait 0 0)))" 0
          "s_target (sample_sup empty_slot 0 0 Connecting [] (RWait 0 0))"
          "s_metrics (sample_sup empty_slot 0 0 Connecting [] (RWait 0 0))" 7] in \<open>simp add: defs\<close>)
  then have "sample_reach (sample_sup sample_slot 0 0 Conn1 (butlast sample_log) (RWait 0 0))"
    by (rule sample_worker)
       (use ws_conn_slot [of "hd (s_workers (sample_sup empty_slot 0 0 (Established 7) [] (RWait 0 0)))" 7 0
          "s_target (sample_sup empty_slot 0 0 (Established 7) [] (RWait 0 0))"] in \<open>simp add: defs\<close>)
  then have "sample_reach (sample_sup sample_slot 0 0 Conn2 sample_log (RWait 0 0))"
    by (rule sample_worker)
       (use ws_conn_gauge [of "hd (s_workers (sample_sup sample_slot 0 0 Conn1 [] (RWait 0 0)))" 0
          "s_target (sample_sup sample_slot 0 0 Conn1 [] (RWait 0 0))"
          "s_metrics (sample_sup sample_slot 0 0 Conn1 (butlast sample_log) (RWait 0 0))"] in \<open>simp add: defs\<close>)
  then have "sample_reach (sample_sup sample_slot 0 1 Conn3 sample_log (RWait 0 0))"
    by (rule sample_worker)
       (use ws_conn_count [of "hd (s_workers (sample_sup sample_slot 0 0 Conn2 [] (RWait 0 0)))" 0
          "s_target (sample_sup sample_slot 0 0 Conn2 [] (RWait 0 0))"] in \<open>simp add: defs\<close>)
  then show ?thesis
    by (rule sample_worker)
       (use ws_conn_notify [of "hd (s_workers (sample_sup sample_slot 0 1 Conn3 [] (RWait 0 0)))" 0
          "s_target (sample_sup sample_slot 0 1 Conn3 [] (RWait 0 0))"] in \<open>simp add: defs\<close>)
qed

text \<open>C21: In every interleaving of the supervisors and the requests of a target, the count of available
  shards is the number of shards that are connected and announced, so it never underflows; and
  whenever no supervisor is in the middle of an update, the count behind \<^verbatim>\<open>readyz\<close>, the
  gauge of connected shards and the number of slots that hold a connection are all the same.\<close>
theorem available_shards_exact:
  assumes "sup_reach c M n s" and "connection_shards c \<le> usize_max"
  shows "unat (t_available (s_target s)) = card {i. i < connection_shards c \<and> counted (slot_of s i) (pc_of s i)} \<and>
    (\<forall>i < connection_shards c. pc_of s i = Disc2 \<longrightarrow> t_available (s_target s) \<noteq> 0) \<and>
    (quiet s \<longrightarrow>
      unat (t_available (s_target s)) = card {i. i < connection_shards c \<and> is_on (s_target s) i} \<and>
      gauge_value (s_metrics s) redis_connected_shards [rrb_id c] = int (unat (t_available (s_target s))))"
proof -
  have inv: "sup_shape c s" "sup_counts c s" using sup_reach_inv [OF assms(1)] by auto
  have av: "unat (t_available (s_target s)) =
      card {i. i < connection_shards c \<and> counted (slot_of s i) (pc_of s i)}"
    using inv(2) unat_count [OF assms(2)] unfolding sup_counts_def by metis
  have "t_available (s_target s) \<noteq> 0" if "i < connection_shards c" "pc_of s i = Disc2" for i
  proof -
    have "i \<in> {i. i < connection_shards c \<and> counted (slot_of s i) (pc_of s i)}"
      using that by (simp add: counted_def)
    then have "card {i. i < connection_shards c \<and> counted (slot_of s i) (pc_of s i)} \<noteq> 0"
      by (subst card_0_eq) auto
    then show ?thesis using av by auto
  qed
  moreover have "unat (t_available (s_target s)) = card {i. i < connection_shards c \<and> is_on (s_target s) i} \<and>
      gauge_value (s_metrics s) redis_connected_shards [rrb_id c] = int (unat (t_available (s_target s)))"
    if q: "quiet s"
  proof -
    have nu: "\<not> updating (pc_of s i)" if "i < connection_shards c" for i
      using q that inv(1) by (simp add: quiet_def list_all_length sup_shape_def)
    have "counted (slot_of s i) (pc_of s i) = is_on (s_target s) i"
      "gauged (slot_of s i) (pc_of s i) = is_on (s_target s) i" if "i < connection_shards c" for i
      using nu [OF that] by (auto simp: counted_def gauged_def updating_def)
    then have c: "{i. i < connection_shards c \<and> counted (slot_of s i) (pc_of s i)} =
        {i. i < connection_shards c \<and> is_on (s_target s) i}"
      and g: "(\<Sum>i<connection_shards c. of_bool (gauged (slot_of s i) (pc_of s i)) :: int) =
        (\<Sum>i<connection_shards c. of_bool (is_on (s_target s) i))"
      by (auto intro!: sum.cong simp del: sum_of_bool_eq)
    have "(\<Sum>i<connection_shards c. of_bool (is_on (s_target s) i) :: int) =
        int (card {i. i < connection_shards c \<and> is_on (s_target s) i})"
      by (simp add: lessThan_def Int_def)
    then show ?thesis using av c g inv(2) by (simp add: sup_counts_def del: sum_of_bool_eq)
  qed
  ultimately show ?thesis using av by blast
qed

theorem available_shards_exact_witness:
  "unat (t_available (s_target (sample_sup sample_slot 1 1 AtTop sample_log (RWait 0 0)))) = 1 \<and>
   gauge_value (s_metrics (sample_sup sample_slot 1 1 AtTop sample_log (RWait 0 0)))
     redis_connected_shards [''t''] = 1"
proof -
  have "quiet (sample_sup sample_slot 1 1 AtTop sample_log (RWait 0 0))"
    by (simp add: quiet_def sample_sup_def updating_def)
  moreover have "{i. i < connection_shards sample_config \<and>
      is_on (s_target (sample_sup sample_slot 1 1 AtTop sample_log (RWait 0 0))) i} = {0}"
    by (auto simp: sample_config_def sample_sup_def)
  moreover have "connection_shards sample_config \<le> usize_max" by (simp add: sample_config_def)
  ultimately have u: "unat (t_available (s_target (sample_sup sample_slot 1 1 AtTop sample_log (RWait 0 0)))) = card {0::nat}"
    and g: "gauge_value (s_metrics (sample_sup sample_slot 1 1 AtTop sample_log (RWait 0 0)))
      redis_connected_shards [rrb_id sample_config] =
      int (unat (t_available (s_target (sample_sup sample_slot 1 1 AtTop sample_log (RWait 0 0)))))"
    using available_shards_exact [OF sample_connects] by metis+
  show ?thesis using u g [unfolded u] by (simp add: sample_config_def)
qed

text \<open>C22: A request that waits for a connection is never forgotten. Whatever the interleaving, when a
  shard of its target is connected and no supervisor is in the middle of an update, the change
  has been sent since the request last looked, so the request can take its next step and scan the shards
  again.\<close>
theorem waiting_request_is_woken:
  assumes "sup_reach c M n s" and "j < length (s_requests s)" and "s_requests s ! j = RWait v start"
    and "quiet s" and "i < connection_shards c" and "is_on (s_target s) i"
  shows "request_step (s_target s) (s_requests s ! j) (s_target s)
    (RScan (t_version (s_target s)) start 0)"
proof -
  have shape: "sup_shape c s" using sup_reach_inv [OF assms(1)] by simp
  have "request_ok s (RWait v start)"
    using sup_reach_requests [OF assms(1)] assms(2,3) unfolding sup_requests_ok_def list_all_length
    by metis
  moreover have "\<not> updating (pc_of s i)" if "i < length (t_connections (s_target s))" for i
    using assms(4) that shape by (simp add: quiet_def list_all_length sup_shape_def)
  ultimately have "v < t_version (s_target s)"
    using assms(5,6) shape by (auto simp: sup_shape_def)
  then show ?thesis unfolding assms(3) by (rule rq_wake)
qed

theorem waiting_request_is_woken_witness:
  "request_step (s_target (sample_sup sample_slot 1 1 AtTop sample_log (RWait 0 0))) (RWait 0 0)
     (s_target (sample_sup sample_slot 1 1 AtTop sample_log (RWait 0 0))) (RScan 1 0 0)"
  using waiting_request_is_woken [OF sample_connects, of 0 0 0 0]
  by (simp add: sample_sup_def quiet_def updating_def sample_config_def)

text \<open>\<^verbatim>\<open>select_ready_shard\<close> returns the first ready shard in cyclic order from the start index, and none
  exactly when no shard is ready; when all are ready it is the start index itself, so consecutive
  requests take the shards in turn.\<close>
theorem select_ready_shard_spec:
  "select_ready_shard start len ready =
     (if \<exists>i < len. ready i
      then Some (shard_at start len (LEAST k. k < len \<and> ready (shard_at start len k)))
      else None) \<and>
   (0 < len \<longrightarrow> (\<forall>i < len. ready i) \<longrightarrow> select_ready_shard start len ready = Some (start mod len))"
proof
  have at: "shard_at start len k < len" if "k < len" for k
    using that by (intro mod_less_divisor) auto
  show "select_ready_shard start len ready =
     (if \<exists>i < len. ready i
      then Some (shard_at start len (LEAST k. k < len \<and> ready (shard_at start len k)))
      else None)"
  proof (cases "\<exists>i < len. ready i")
    case False
    then show ?thesis using at by (auto simp: select_ready_shard_def find_None_iff)
  next
    case True
    then obtain k where k: "k < len \<and> ready (shard_at start len k)" using shard_at_onto by metis
    let ?k = "LEAST k. k < len \<and> ready (shard_at start len k)"
    have least: "?k < len \<and> ready (shard_at start len ?k)" 
      using LeastI [of "\<lambda>k. k < len \<and> ready (shard_at start len k)" k] k by blast
    have "\<not> ready (shard_at start len j)" if "j < ?k" for j
      using not_less_Least [OF that] that least by auto
    then have "find ready (map (shard_at start len) [0..<len]) = Some (shard_at start len ?k)"
      using least by (subst find_Some_iff) (auto intro!: exI [of _ ?k])
    then show ?thesis using True by (simp add: select_ready_shard_def)
  qed
  show "0 < len \<longrightarrow> (\<forall>i < len. ready i) \<longrightarrow> select_ready_shard start len ready = Some (start mod len)"
    using at by (simp add: select_ready_shard_def upt_conv_Cons)
qed

theorem select_ready_shard_spec_witness:
  "select_ready_shard 6 4 (\<lambda>i. i < 4) = Some 2"
  using conjunct2 [OF select_ready_shard_spec [of 6 4 "\<lambda>i. i < 4"]] by simp

lemma next_generation_differs: "max (g + 1) 1 \<noteq> (g :: 64 word)"
proof (cases "g + 1 = 0")
  case True
  then have "g = - 1" by (simp add: add_eq_0_iff2)
  then show ?thesis by simp
next
  case False
  then have "unat (g + 1) \<noteq> 0" by (simp add: unat_eq_0)
  then have "1 \<le> g + 1" by (simp add: word_le_nat_alt)
  then show ?thesis by (simp add: max_def)
qed

text \<open>A connection is taken down once, and only by a probe of that same connection. After
  \<^verbatim>\<open>connected\<close> the generation of the shard has changed, so \<^verbatim>\<open>disconnected\<close> with the generation of an earlier
  connection does nothing; with the current one it clears the slot and lowers count and gauge to what
  they were before the connection, and a second call does nothing.\<close>
theorem disconnect_only_own_generation:
  assumes "shard < length (t_connections t)" and "connected shard c t M = (t1, M1)"
    and "disconnected shard (generation (t_connections t1 ! shard)) t1 M1 = (b, t2, M2)"
  shows "disconnected shard (generation (t_connections t ! shard)) t1 M1 = (False, t1, M1) \<and>
    b \<and> \<not> is_on t2 shard \<and> t_available t2 = t_available t \<and>
    (\<forall>ls. gauge_value M2 redis_connected_shards ls = gauge_value M redis_connected_shards ls) \<and>
    disconnected shard (generation (t_connections t1 ! shard)) t2 M2 = (False, t2, M2)"
proof -
  let ?g = "generation (t_connections t ! shard)"
  have g1: "generation (t_connections t1 ! shard) = max (?g + 1) 1" and on: "is_on t1 shard"
    and M1: "M1 = M @ [Inc redis_connected_shards [target_id t]]" and id: "target_id t1 = target_id t"
    and a1: "t_available t1 = t_available t + 1" and len: "length (t_connections t1) = length (t_connections t)"
    using assms(1,2) by (auto simp: connected_def shard_defs)
  have "max (?g + 1) 1 \<noteq> ?g" by (rule next_generation_differs)
  then show ?thesis
    using assms(1,3) g1 on M1 id a1 len
    by (auto simp: disconnected_def shard_defs Let_def gauge_value_append split: if_splits)
qed

definition sample_target :: redis_target where
  "sample_target = RedisTarget_new sample_config"

theorem disconnect_only_own_generation_witness:
  "disconnected 0 0 (fst (connected 0 7 sample_target [])) (snd (connected 0 7 sample_target [])) =
     (False, fst (connected 0 7 sample_target []), snd (connected 0 7 sample_target []))"
  using disconnect_only_own_generation [of 0 sample_target 7 "[]" "fst (connected 0 7 sample_target [])"
      "snd (connected 0 7 sample_target [])"]
  by (cases "disconnected 0 (generation (t_connections (fst (connected 0 7 sample_target [])) ! 0))
      (fst (connected 0 7 sample_target [])) (snd (connected 0 7 sample_target []))")
     (auto simp: sample_target_def RedisTarget_new_def sample_config_def empty_slot_def)

section \<open>Probes and back-off\<close>

definition worker_ok :: "worker \<Rightarrow> bool" where
  "worker_ok w \<longleftrightarrow> INITIAL_BACKOFF \<le> w_backoff w \<and> w_backoff w \<le> MAX_BACKOFF \<and>
     w_failures w \<le> u64_max \<and> w_failed_probes w \<le> MAX_FAILED_PROBES \<and>
     (w_failed_probes w = MAX_FAILED_PROBES \<longrightarrow> w_pc w \<in> {Disc1, Disc2, Disc3})"

lemmas worker_bounds = worker_ok_def next_backoff_def saturating_u8_inc_def MAX_FAILED_PROBES_def
  INITIAL_BACKOFF_def MAX_BACKOFF_def from_millis_def from_secs_def

lemma worker_step_ok: "worker_step i t M w t' M' w' \<Longrightarrow> worker_ok w \<Longrightarrow> worker_ok w'"
  by (cases rule: worker_step.cases) (auto simp: worker_bounds)

lemma sup_reach_workers: "sup_reach c M n s \<Longrightarrow> list_all worker_ok (s_workers s)"
proof (induction rule: sup_reach.induct)
  case sup_start
  then show ?case by (auto simp: sup_init_def worker_new_def list_all_iff worker_bounds)
next
  case (sup_next s s')
  from sup_next(2) show ?case
  proof cases
    case (worker_moves i t' M' w')
    then have "worker_ok w'" using sup_next(3) worker_step_ok by (auto simp: list_all_length)
    then show ?thesis
      using sup_next(3) set_update_subset_insert [of "s_workers s" i w']
      by (auto simp: worker_moves(1) list_all_iff)
  next
    case (request_moves j t' r')
    then show ?thesis using sup_next(3) by simp
  qed
qed

text \<open>A supervisor retries for ever with a delay that is always between 250 milliseconds and 5 seconds,
  starts within 750 milliseconds, and never counts more than two failed probes: it takes the
  connection down at the second one in a row.\<close>
theorem supervisor_backoff_bounded:
  assumes "sup_reach c M n s" and "w \<in> set (s_workers s)"
  shows "250000000 \<le> w_backoff w \<and> w_backoff w \<le> 5000000000 \<and> start_delay i < 750000000 \<and>
    w_failed_probes w \<le> 2 \<and> (w_failed_probes w = 2 \<longrightarrow> w_pc w \<in> {Disc1, Disc2, Disc3})"
proof -
  have "worker_ok w" using sup_reach_workers [OF assms(1)] assms(2) by (simp add: list_all_iff)
  moreover have "start_delay i < 750000000" by (simp add: start_delay_def from_millis_def)
  ultimately show ?thesis by (simp add: worker_bounds)
qed

theorem supervisor_backoff_bounded_witness:
  "w_backoff (hd (s_workers (sample_sup sample_slot 1 1 AtTop sample_log (RWait 0 0)))) \<le> 5000000000"
  using supervisor_backoff_bounded [OF sample_connects,
      of "hd (s_workers (sample_sup sample_slot 1 1 AtTop sample_log (RWait 0 0)))"]
  by (simp add: sample_sup_def)

end
