(* ===== verification/Lockout.thy ===== *)
theory Lockout
  imports Rust_Net
begin

text \<open>
  Authentication lockout (\<^verbatim>\<open>src/auth/lockout.rs\<close>): per client address a window of failures and, once
  the limit is reached, a time until which further failures are answered as locked. The table is
  behind a mutex, so every operation is one step. A panic inside an operation poisons the mutex,
  and every later operation that locks it panics too; the model keeps that flag.
\<close>

section \<open>State\<close>

record auth_state =
  failures :: nat
  window_started_at :: instant
  last_seen_at :: instant
  locked_until :: "instant option"

datatype auth_failure = Disabled | Tracked | Locked | AlreadyLocked | EntryLimitReached

record auth_snapshot =
  tracked_ips :: nat
  locked_ips :: nat

record auth_lockout =
  max_failures :: nat
  failure_window :: duration
  lockout_duration :: duration
  max_entries :: nat
  entries :: "(ip_addr, auth_state) hmap"
  poisoned :: bool

text \<open>
  \<^verbatim>\<open>Instant + Duration\<close> panics where the sum has no representation: on the 64-bit Unix targets an
  instant is a signed 64-bit number of seconds and a nanosecond part. \<^verbatim>\<open>duration_since\<close> saturates at
  zero, as subtraction of natural numbers does.
\<close>

definition INSTANT_LIMIT :: nat where
  "INSTANT_LIMIT = 9223372036854775808000000000"

definition instant_add :: "instant \<Rightarrow> duration \<Rightarrow> instant option" where
  "instant_add now d = (if now + d < INSTANT_LIMIT then Some (now + d) else None)"

definition AuthState_new :: "instant \<Rightarrow> auth_state" where
  "AuthState_new now =
     \<lparr>failures = 0, window_started_at = now, last_seen_at = now, locked_until = None\<rparr>"

definition is_stale :: "auth_state \<Rightarrow> instant \<Rightarrow> duration \<Rightarrow> bool" where
  "is_stale s now window =
     (case locked_until s of
        Some until \<Rightarrow> until \<le> now
      | None \<Rightarrow> now - last_seen_at s \<ge> window)"

definition reset_window :: "auth_state \<Rightarrow> instant \<Rightarrow> auth_state" where
  "reset_window s now =
     s\<lparr>failures := 0, window_started_at := now, last_seen_at := now, locked_until := None\<rparr>"

definition AuthLockout_new :: "nat \<Rightarrow> duration \<Rightarrow> duration \<Rightarrow> nat \<Rightarrow> auth_lockout" where
  "AuthLockout_new mf window dur me =
     \<lparr>max_failures = mf, failure_window = window, lockout_duration = dur, max_entries = me,
      entries = [], poisoned = False\<rparr>"

definition is_enabled :: "auth_lockout \<Rightarrow> bool" where
  "is_enabled L \<longleftrightarrow> max_failures L > 0"

definition cleanup_stale_entries ::
    "(ip_addr, auth_state) hmap \<Rightarrow> instant \<Rightarrow> duration \<Rightarrow> (ip_addr, auth_state) hmap" where
  "cleanup_stale_entries es now window = hretain (\<lambda>_ s. \<not> is_stale s now window) es"

section \<open>Operations\<close>

text \<open>
  What \<^verbatim>\<open>record_failure_at\<close> does with the entry of the address: the result and the new entry, or a
  panic that leaves the entry counted.
\<close>

definition fail_entry :: "auth_lockout \<Rightarrow> auth_state \<Rightarrow> instant \<Rightarrow> auth_failure outcome \<times> auth_state" where
  "fail_entry L state now =
     (if (case locked_until state of Some until \<Rightarrow> until > now | None \<Rightarrow> False)
      then (Done AlreadyLocked, state)
      else
        let s1 = (if locked_until state \<noteq> None then reset_window state now else state);
            s2 = (if now - window_started_at s1 \<ge> failure_window L then reset_window s1 now else s1);
            s3 = s2\<lparr>failures := failures s2 + 1, last_seen_at := now\<rparr> in
        if failures s3 \<ge> max_failures L then
          (case instant_add now (lockout_duration L) of
             None \<Rightarrow> (Panic, s3)
           | Some until \<Rightarrow> (Done Locked, s3\<lparr>locked_until := Some until\<rparr>))
        else (Done Tracked, s3))"

definition record_failure_at :: "auth_lockout \<Rightarrow> ip_addr \<Rightarrow> instant \<Rightarrow> auth_failure outcome \<times> auth_lockout" where
  "record_failure_at L ip now =
     (if \<not> is_enabled L then (Done Disabled, L)
      else if poisoned L then (Panic, L)
      else
        let full = (length (entries L) \<ge> max_entries L \<and> hget (entries L) ip = None);
            es = (if full then cleanup_stale_entries (entries L) now (failure_window L)
                  else entries L) in
        if full \<and> length es \<ge> max_entries L
        then (Done EntryLimitReached, L\<lparr>entries := es\<rparr>)
        else
          let state = (case hget es ip of Some s \<Rightarrow> s | None \<Rightarrow> AuthState_new now);
              (r, state') = fail_entry L state now in
          (r, L\<lparr>entries := hinsert ip state' es, poisoned := (r = Panic)\<rparr>))"

definition record_success :: "auth_lockout \<Rightarrow> ip_addr \<Rightarrow> unit outcome \<times> auth_lockout" where
  "record_success L ip =
     (if \<not> is_enabled L then (Done (), L)
      else if poisoned L then (Panic, L)
      else (Done (), L\<lparr>entries := hremove ip (entries L)\<rparr>))"

definition is_locked_now :: "instant \<Rightarrow> auth_state \<Rightarrow> bool" where
  "is_locked_now now s = (case locked_until s of Some until \<Rightarrow> until > now | None \<Rightarrow> False)"

definition snapshot_at :: "auth_lockout \<Rightarrow> instant \<Rightarrow> auth_snapshot outcome \<times> auth_lockout" where
  "snapshot_at L now =
     (if \<not> is_enabled L then (Done \<lparr>tracked_ips = 0, locked_ips = 0\<rparr>, L)
      else if poisoned L then (Panic, L)
      else
        let es = cleanup_stale_entries (entries L) now (failure_window L) in
        (Done \<lparr>tracked_ips = length es,
               locked_ips = length (filter (is_locked_now now) (map snd es))\<rparr>,
         L\<lparr>entries := es\<rparr>))"

section \<open>Invariant\<close>

text \<open>
  Up to time \<open>t\<close>: the table has one entry per address and at most \<^verbatim>\<open>max_entries\<close>; an entry has
  counted at least one failure, and it is locked exactly when the count has reached the limit,
  until the lockout duration after the failure that locked it.
\<close>

definition entry_ok :: "auth_lockout \<Rightarrow> instant \<Rightarrow> auth_state \<Rightarrow> bool" where
  "entry_ok L t s \<longleftrightarrow>
     window_started_at s \<le> last_seen_at s \<and> last_seen_at s \<le> t \<and> 1 \<le> failures s \<and>
     (case locked_until s of
        None \<Rightarrow> failures s < max_failures L
      | Some u \<Rightarrow> failures s = max_failures L \<and> u = last_seen_at s + lockout_duration L)"

definition lockout_inv :: "auth_lockout \<Rightarrow> instant \<Rightarrow> bool" where
  "lockout_inv L t \<longleftrightarrow>
     \<not> poisoned L \<and> hwf (entries L) \<and> length (entries L) \<le> max_entries L \<and>
     (\<forall>ip s. hget (entries L) ip = Some s \<longrightarrow> entry_ok L t s)"

text \<open>What no operation changes.\<close>

definition same_limits :: "auth_lockout \<Rightarrow> auth_lockout \<Rightarrow> bool" where
  "same_limits L L' \<longleftrightarrow>
     max_failures L' = max_failures L \<and> failure_window L' = failure_window L \<and>
     lockout_duration L' = lockout_duration L \<and> max_entries L' = max_entries L"

lemma entry_ok_mono: "entry_ok L t s \<Longrightarrow> t \<le> t' \<Longrightarrow> entry_ok L t' s"
  by (auto simp: entry_ok_def)

lemma lockout_inv_mono: "lockout_inv L t \<Longrightarrow> t \<le> t' \<Longrightarrow> lockout_inv L t'"
  unfolding lockout_inv_def using entry_ok_mono by blast

lemma entry_ok_limits: "same_limits L L' \<Longrightarrow> entry_ok L' t s = entry_ok L t s"
  by (simp add: same_limits_def entry_ok_def split: option.split)

lemma lockout_inv_new: "lockout_inv (AuthLockout_new mf w d me) t"
  by (simp add: lockout_inv_def AuthLockout_new_def)

lemma cleanup_get:
  "hwf es \<Longrightarrow> hget (cleanup_stale_entries es now w) ip =
     (case hget es ip of None \<Rightarrow> None | Some s \<Rightarrow> if is_stale s now w then None else Some s)"
  by (simp add: cleanup_stale_entries_def hget_hretain split: option.splits)

lemma cleanup_wf: "hwf es \<Longrightarrow> hwf (cleanup_stale_entries es now w)"
  by (simp add: cleanup_stale_entries_def hwf_hretain)

lemma cleanup_length: "hwf es \<Longrightarrow> length (cleanup_stale_entries es now w) \<le> length es"
  using hm.len_retain_le by (auto simp: cleanup_stale_entries_def)

lemma lockout_inv_entries:
  assumes "lockout_inv L t" and "hwf es" and "length es \<le> max_entries L"
    and "\<And>ip s. hget es ip = Some s \<Longrightarrow> entry_ok L t s"
  shows "lockout_inv (L\<lparr>entries := es\<rparr>) t"
  using assms entry_ok_limits [of L "L\<lparr>entries := es\<rparr>" t]
  by (simp add: lockout_inv_def same_limits_def)

lemma lockout_inv_cleanup:
  assumes "lockout_inv L t"
  shows "lockout_inv (L\<lparr>entries := cleanup_stale_entries (entries L) now w\<rparr>) t"
proof (rule lockout_inv_entries [OF assms])
  have wf: "hwf (entries L)" and "length (entries L) \<le> max_entries L"
    using assms by (auto simp: lockout_inv_def)
  then show "length (cleanup_stale_entries (entries L) now w) \<le> max_entries L"
    using cleanup_length [OF wf, of now w] by simp
  show "hwf (cleanup_stale_entries (entries L) now w)" using wf by (rule cleanup_wf)
  show "entry_ok L t s" if "hget (cleanup_stale_entries (entries L) now w) ip = Some s" for ip s
    using that assms by (auto simp: cleanup_get [OF wf] lockout_inv_def split: option.splits if_splits)
qed

lemma fail_entry_ok:
  assumes "is_enabled L" and "entry_ok L t s \<or> s = AuthState_new now" and "t \<le> now"
    and "fail_entry L s now = (Done r, s')"
  shows "entry_ok L now s'"
  using assms
  by (auto simp: fail_entry_def entry_ok_def AuthState_new_def reset_window_def instant_add_def
      is_enabled_def Let_def split: if_splits option.splits)

lemma fail_entry_panic:
  "fst (fail_entry L s now) = Panic \<Longrightarrow> INSTANT_LIMIT \<le> now + lockout_duration L"
  by (auto simp: fail_entry_def instant_add_def Let_def split: if_splits option.splits)

text \<open>
  The shape of \<^verbatim>\<open>record_failure_at\<close> on an enabled table: the entries after a possible clean-up, and
  either the entry limit or a step on the entry of the address.
\<close>

definition cleaned :: "auth_lockout \<Rightarrow> ip_addr \<Rightarrow> instant \<Rightarrow> (ip_addr, auth_state) hmap" where
  "cleaned L ip now =
     (if length (entries L) \<ge> max_entries L \<and> hget (entries L) ip = None
      then cleanup_stale_entries (entries L) now (failure_window L) else entries L)"

definition room :: "auth_lockout \<Rightarrow> ip_addr \<Rightarrow> instant \<Rightarrow> bool" where
  "room L ip now \<longleftrightarrow> hget (entries L) ip \<noteq> None \<or> length (cleaned L ip now) < max_entries L"

definition entry_or_new :: "(ip_addr, auth_state) hmap \<Rightarrow> ip_addr \<Rightarrow> instant \<Rightarrow> auth_state" where
  "entry_or_new es ip now = (case hget es ip of Some s \<Rightarrow> s | None \<Rightarrow> AuthState_new now)"

lemma cleaned_wf: "lockout_inv L t \<Longrightarrow> hwf (cleaned L ip now)"
  by (simp add: cleaned_def lockout_inv_def cleanup_wf)

lemma cleaned_get_self: "lockout_inv L t \<Longrightarrow> hget (cleaned L ip now) ip = hget (entries L) ip"
  by (simp add: cleaned_def lockout_inv_def cleanup_get)

lemma cleaned_ok: "lockout_inv L t \<Longrightarrow> hget (cleaned L ip now) ip' = Some s \<Longrightarrow> entry_ok L t s"
  by (auto simp: cleaned_def lockout_inv_def cleanup_get split: if_splits option.splits)

lemma cleaned_length: "lockout_inv L t \<Longrightarrow> length (cleaned L ip now) \<le> max_entries L"
  using cleanup_length [of "entries L" now "failure_window L"]
  by (auto simp: cleaned_def lockout_inv_def)

lemma record_failure_room:
  assumes "is_enabled L" and "lockout_inv L t" and "room L ip now"
    and "fail_entry L (entry_or_new (entries L) ip now) now = (r, s')"
  shows "record_failure_at L ip now =
    (r, L\<lparr>entries := hinsert ip s' (cleaned L ip now), poisoned := (r = Panic)\<rparr>)"
proof -
  have np: "\<not> poisoned L" using assms(2) by (simp add: lockout_inv_def)
  have notfull: "\<not> ((length (entries L) \<ge> max_entries L \<and> hget (entries L) ip = None) \<and>
      length (cleaned L ip now) \<ge> max_entries L)"
    using assms(3) by (auto simp: room_def)
  have st: "(case hget (cleaned L ip now) ip of Some s \<Rightarrow> s | None \<Rightarrow> AuthState_new now) =
      entry_or_new (entries L) ip now"
    by (simp add: entry_or_new_def cleaned_get_self [OF assms(2)])
  show ?thesis
    using assms(1,4) np notfull st
    unfolding record_failure_at_def Let_def cleaned_def [symmetric] by auto
qed

lemma record_failure_no_room:
  assumes "is_enabled L" and "lockout_inv L t" and "\<not> room L ip now"
  shows "record_failure_at L ip now = (Done EntryLimitReached, L\<lparr>entries := cleaned L ip now\<rparr>)"
proof -
  have np: "\<not> poisoned L" using assms(2) by (simp add: lockout_inv_def)
  have none: "hget (entries L) ip = None" and full: "max_entries L \<le> length (cleaned L ip now)"
    using assms(3) by (auto simp: room_def)
  have "max_entries L \<le> length (entries L)"
    using full by (simp add: cleaned_def split: if_splits)
  then show ?thesis
    using assms(1) np none full unfolding record_failure_at_def Let_def cleaned_def [symmetric] by simp
qed

lemma hinsert_length:
  assumes "lockout_inv L t" and "room L ip now"
  shows "length (hinsert ip s (cleaned L ip now)) \<le> max_entries L"
proof (cases "hget (entries L) ip")
  case None
  then have "length (cleaned L ip now) < max_entries L" using assms(2) by (simp add: room_def)
  then show ?thesis
    using hm.len_insert_absent [OF cleaned_wf [OF assms(1)]] cleaned_get_self [OF assms(1)] None
    by simp
next
  case (Some s0)
  then show ?thesis
    using hm.len_insert_present [OF cleaned_wf [OF assms(1)]] cleaned_get_self [OF assms(1)]
      cleaned_length [OF assms(1)] by simp
qed

lemma record_failure_inv:
  assumes "lockout_inv L t" and "t \<le> now" and "record_failure_at L ip now = (Done r, L')"
  shows "lockout_inv L' now"
proof (cases "is_enabled L")
  case False
  then show ?thesis
    using assms lockout_inv_mono by (auto simp: record_failure_at_def)
next
  case en: True
  show ?thesis
  proof (cases "room L ip now")
    case False
    then have "L' = L\<lparr>entries := cleaned L ip now\<rparr>"
      using record_failure_no_room [OF en assms(1)] assms(3) by simp
    moreover have "lockout_inv (L\<lparr>entries := cleaned L ip now\<rparr>) t"
      by (rule lockout_inv_entries [OF assms(1) cleaned_wf [OF assms(1)] cleaned_length [OF assms(1)]])
         (rule cleaned_ok [OF assms(1)])
    ultimately show ?thesis using assms(2) lockout_inv_mono by blast
  next
    case True
    obtain r' s' where f: "fail_entry L (entry_or_new (entries L) ip now) now = (r', s')"
      by fastforce
    have r: "r' = Done r" and L': "L' = L\<lparr>entries := hinsert ip s' (cleaned L ip now), poisoned := False\<rparr>"
      using record_failure_room [OF en assms(1) True f] assms(3) by auto
    have "entry_ok L t (entry_or_new (entries L) ip now) \<or>
        entry_or_new (entries L) ip now = AuthState_new now"
      using assms(1) by (auto simp: entry_or_new_def lockout_inv_def split: option.splits)
    then have ok: "entry_ok L now s'"
      using fail_entry_ok [OF en _ assms(2)] f r by blast
    have "lockout_inv (L\<lparr>entries := hinsert ip s' (cleaned L ip now)\<rparr>) now"
    proof (rule lockout_inv_entries [OF lockout_inv_mono [OF assms(1,2)]])
      show "hwf (hinsert ip s' (cleaned L ip now))"
        by (rule hm.invar_insert [OF cleaned_wf [OF assms(1)]])
      show "length (hinsert ip s' (cleaned L ip now)) \<le> max_entries L"
        by (rule hinsert_length [OF assms(1) True])
      show "entry_ok L now s" if "hget (hinsert ip s' (cleaned L ip now)) ip' = Some s" for ip' s
        using that ok cleaned_ok [OF assms(1)] entry_ok_mono [OF _ assms(2)]
        by (auto simp: update_conv' split: if_splits)
    qed
    moreover have "L' = L\<lparr>entries := hinsert ip s' (cleaned L ip now)\<rparr>"
      using assms(1) unfolding L' by (cases L) (simp add: lockout_inv_def)
    ultimately show ?thesis by simp
  qed
qed

lemma record_success_inv:
  assumes "lockout_inv L t" and "record_success L ip = (r, L')"
  shows "lockout_inv L' t \<and> r = Done ()"
proof (cases "is_enabled L")
  case False
  then show ?thesis using assms by (auto simp: record_success_def)
next
  case True
  have wf: "hwf (entries L)" and np: "\<not> poisoned L" using assms(1) by (auto simp: lockout_inv_def)
  have "lockout_inv (L\<lparr>entries := hremove ip (entries L)\<rparr>) t"
  proof (rule lockout_inv_entries [OF assms(1) hm.invar_remove [OF wf]])
    show "length (hremove ip (entries L)) \<le> max_entries L"
      using hm.len_remove_le [OF wf] assms(1) le_trans by (fastforce simp: lockout_inv_def)
    show "entry_ok L t s" if "hget (hremove ip (entries L)) ip' = Some s" for ip' s
      using that assms(1) by (auto simp: delete_conv' lockout_inv_def split: if_splits)
  qed
  then show ?thesis using assms(2) True np by (auto simp: record_success_def)
qed

lemma snapshot_inv:
  assumes "lockout_inv L t" and "snapshot_at L now = (r, L')"
  shows "lockout_inv L' t \<and> r \<noteq> Panic"
  using assms lockout_inv_cleanup [OF assms(1)]
  by (auto simp: snapshot_at_def Let_def lockout_inv_def split: if_splits)

section \<open>The specification: one status per address\<close>

text \<open>
  What a table means at a time: an address is fresh, has failed a number of times in the window
  that began at some time, or is locked until some time. Clean-up, capacity and the layout of the
  entries do not show.
\<close>

datatype auth_status = Fresh | Counting nat instant | LockedUntil instant

definition entry_status :: "duration \<Rightarrow> instant \<Rightarrow> auth_state \<Rightarrow> auth_status" where
  "entry_status window now s =
     (case locked_until s of
        Some u \<Rightarrow> if u > now then LockedUntil u else Fresh
      | None \<Rightarrow> if now - window_started_at s \<ge> window then Fresh
                else Counting (failures s) (window_started_at s))"

definition status :: "auth_lockout \<Rightarrow> instant \<Rightarrow> ip_addr \<Rightarrow> auth_status" where
  "status L now ip =
     (case hget (entries L) ip of None \<Rightarrow> Fresh | Some s \<Rightarrow> entry_status (failure_window L) now s)"

fun spec_failure :: "nat \<Rightarrow> duration \<Rightarrow> instant \<Rightarrow> auth_status \<Rightarrow> auth_failure \<times> auth_status" where
  "spec_failure mf dur now (LockedUntil u) = (AlreadyLocked, LockedUntil u)"
| "spec_failure mf dur now (Counting n ws) =
     (if n + 1 \<ge> mf then (Locked, LockedUntil (now + dur)) else (Tracked, Counting (n + 1) ws))"
| "spec_failure mf dur now Fresh =
     (if 1 \<ge> mf then (Locked, LockedUntil (now + dur)) else (Tracked, Counting 1 now))"

text \<open>The limits a loaded configuration has when lockout is on, and a clock within range.\<close>

definition limits_ok :: "auth_lockout \<Rightarrow> instant \<Rightarrow> bool" where
  "limits_ok L now \<longleftrightarrow>
     max_failures L > 0 \<and> failure_window L > 0 \<and> lockout_duration L > 0 \<and>
     now + lockout_duration L < INSTANT_LIMIT"

text \<open>Removing stale entries is invisible: a stale entry already counts as fresh.\<close>

lemma stale_is_fresh:
  "entry_ok L t s \<Longrightarrow> is_stale s now w \<Longrightarrow> entry_status w now s = Fresh"
  by (auto simp: entry_ok_def is_stale_def entry_status_def split: option.splits)

lemma status_cleanup:
  assumes "lockout_inv L t"
  shows "status (L\<lparr>entries := cleanup_stale_entries (entries L) now (failure_window L)\<rparr>) now ip =
    status L now ip"
proof (cases "hget (entries L) ip")
  case None
  then show ?thesis using assms by (simp add: status_def lockout_inv_def cleanup_get)
next
  case (Some s)
  then have ok: "entry_ok L t s" using assms by (simp add: lockout_inv_def)
  show ?thesis
    using Some assms stale_is_fresh [OF ok, of now "failure_window L"]
    by (simp add: status_def lockout_inv_def cleanup_get)
qed

lemma status_cleaned:
  "lockout_inv L t \<Longrightarrow> status (L\<lparr>entries := cleaned L ip now\<rparr>) now ip' = status L now ip'"
  using status_cleanup by (simp add: cleaned_def)

lemma fail_entry_spec:
  assumes "limits_ok L now" and "entry_ok L t s" and "t \<le> now"
    and "fail_entry L s now = (r, s')"
  shows "(r, entry_status (failure_window L) now s') =
    apfst Done (spec_failure (max_failures L) (lockout_duration L) now
      (entry_status (failure_window L) now s))"
  using assms
  by (auto simp: fail_entry_def entry_status_def entry_ok_def limits_ok_def reset_window_def
      instant_add_def Let_def split: if_splits option.splits)

lemma fail_entry_new_spec:
  assumes "limits_ok L now" and "fail_entry L (AuthState_new now) now = (r, s')"
  shows "(r, entry_status (failure_window L) now s') =
    apfst Done (spec_failure (max_failures L) (lockout_duration L) now Fresh)"
  using assms
  by (auto simp: fail_entry_def entry_status_def limits_ok_def AuthState_new_def reset_window_def
      instant_add_def Let_def split: if_splits)

lemma record_failure_refines:
  assumes "lockout_inv L t" and "t \<le> now" and "limits_ok L now" and "room L ip now"
  obtains r L' where "record_failure_at L ip now = (Done r, L')" and
    "(r, status L' now ip) =
       spec_failure (max_failures L) (lockout_duration L) now (status L now ip)" and
    "\<And>ip'. ip' \<noteq> ip \<Longrightarrow> status L' now ip' = status L now ip'" and "same_limits L L'"
    and "hget (entries L') ip \<noteq> None"
proof -
  have en: "is_enabled L" using assms(3) by (simp add: limits_ok_def is_enabled_def)
  obtain r s' where f: "fail_entry L (entry_or_new (entries L) ip now) now = (r, s')"
    by fastforce
  define L' where "L' = L\<lparr>entries := hinsert ip s' (cleaned L ip now), poisoned := (r = Panic)\<rparr>"
  have step: "record_failure_at L ip now = (r, L')"
    unfolding L'_def by (rule record_failure_room [OF en assms(1,4) f])
  have spec: "(r, entry_status (failure_window L) now s') =
      apfst Done (spec_failure (max_failures L) (lockout_duration L) now (status L now ip))"
  proof (cases "hget (entries L) ip")
    case None
    then show ?thesis
      using fail_entry_new_spec [OF assms(3)] f by (simp add: entry_or_new_def status_def)
  next
    case (Some s)
    then have "entry_ok L t s" using assms(1) by (simp add: lockout_inv_def)
    from fail_entry_spec [OF assms(3) this assms(2)] f Some show ?thesis
      by (simp add: entry_or_new_def status_def)
  qed
  then obtain r0 where r: "r = Done r0" by (auto simp: apfst_def map_prod_def split: prod.splits)
  have self: "status L' now ip = entry_status (failure_window L) now s'"
    by (simp add: status_def L'_def update_conv')
  have other: "status L' now ip' = status L now ip'" if "ip' \<noteq> ip" for ip'
    using that status_cleaned [OF assms(1), of ip now ip']
    by (simp add: status_def L'_def update_conv' cong: option.case_cong)
  show thesis
  proof (rule that)
    show "record_failure_at L ip now = (Done r0, L')" using step r by simp
    show "(r0, status L' now ip) =
        spec_failure (max_failures L) (lockout_duration L) now (status L now ip)"
      using spec r self by (auto simp: apfst_def map_prod_def split: prod.splits)
    show "\<And>ip'. ip' \<noteq> ip \<Longrightarrow> status L' now ip' = status L now ip'" by (rule other)
    show "same_limits L L'" by (simp add: same_limits_def L'_def)
    show "hget (entries L') ip \<noteq> None" by (simp add: L'_def update_conv')
  qed
qed

section \<open>Runs of failures against a table that refines the specification\<close>

fun aged :: "duration \<Rightarrow> instant \<Rightarrow> auth_status \<Rightarrow> auth_status" where
  "aged w now Fresh = Fresh"
| "aged w now (Counting n ws) = (if now - ws \<ge> w then Fresh else Counting n ws)"
| "aged w now (LockedUntil u) = (if u > now then LockedUntil u else Fresh)"

fun fail_all :: "('t \<Rightarrow> 'ip \<Rightarrow> instant \<Rightarrow> 'r \<times> 't) \<Rightarrow> 't \<Rightarrow> 'ip \<Rightarrow> instant list \<Rightarrow> 'r list \<times> 't" where
  "fail_all f T ip [] = ([], T)"
| "fail_all f T ip (now # ts) =
     (let (r, T') = f T ip now; (rs, T'') = fail_all f T' ip ts in (r # rs, T''))"

text \<open>
  The contract between the lockout table and the authentication code: a failure on a ready table
  answers as the specification says, leaves the table ready for later times and keeps the limits,
  and a status only ages with time.
\<close>

locale failure_table =
  fixes fail :: "'t \<Rightarrow> 'ip \<Rightarrow> instant \<Rightarrow> auth_failure outcome \<times> 't"
    and view :: "'t \<Rightarrow> instant \<Rightarrow> 'ip \<Rightarrow> auth_status"
    and ready :: "'t \<Rightarrow> 'ip \<Rightarrow> instant \<Rightarrow> bool"
    and lim :: "'t \<Rightarrow> nat" and window :: "'t \<Rightarrow> duration" and dur :: "'t \<Rightarrow> duration"
  assumes fail_spec: "ready T ip now \<Longrightarrow> \<exists>r T'. fail T ip now = (Done r, T') \<and>
        (r, view T' now ip) = spec_failure (lim T) (dur T) now (view T now ip)"
    and fail_limits: "ready T ip now \<Longrightarrow> fail T ip now = (r, T') \<Longrightarrow>
        lim T' = lim T \<and> window T' = window T \<and> dur T' = dur T"
    and fail_ready: "ready T ip now \<Longrightarrow> fail T ip now = (r, T') \<Longrightarrow> now \<le> now' \<Longrightarrow>
        now' + dur T < INSTANT_LIMIT \<Longrightarrow> ready T' ip now'"
    and view_aged: "ready T ip now \<Longrightarrow> fail T ip now = (r, T') \<Longrightarrow> now \<le> now' \<Longrightarrow>
        view T' now' ip = aged (window T) now' (view T' now ip)"
begin

lemma counting_run:
  assumes "ready T ip now" and "view T now ip = Counting n ws"
    and "ws \<le> now" and "sorted (now # ts)" and "n + length (now # ts) = lim T"
    and "\<forall>t \<in> set (now # ts). t < ws + window T \<and> t + dur T < INSTANT_LIMIT"
  shows "fst (fail_all fail T ip (now # ts)) = replicate (length ts) (Done Tracked) @ [Done Locked] \<and>
    view (snd (fail_all fail T ip (now # ts))) (last (now # ts)) ip =
      LockedUntil (last (now # ts) + dur T)"
  using assms
proof (induction ts arbitrary: T now n)
  case Nil
  obtain r T' where f: "fail T ip now = (Done r, T')"
    "(r, view T' now ip) = spec_failure (lim T) (dur T) now (view T now ip)"
    using fail_spec [OF Nil.prems(1)] by blast
  then show ?case using Nil.prems by simp
next
  case (Cons t ts)
  obtain r T' where f: "fail T ip now = (Done r, T')"
    "(r, view T' now ip) = spec_failure (lim T) (dur T) now (view T now ip)"
    using fail_spec [OF Cons.prems(1)] by blast
  have r: "r = Tracked" and v: "view T' now ip = Counting (n + 1) ws"
    using f(2) Cons.prems(2,5) by simp_all
  have L: "lim T' = lim T" "window T' = window T" "dur T' = dur T"
    using fail_limits [OF Cons.prems(1) f(1)] by auto
  have le: "now \<le> t" using Cons.prems(4) by simp
  have "ready T' ip t" using fail_ready [OF Cons.prems(1) f(1) le] Cons.prems(6) by simp
  moreover have "view T' t ip = Counting (n + 1) ws"
    using view_aged [OF Cons.prems(1) f(1) le] v Cons.prems(3,6) le by auto
  ultimately have "fst (fail_all fail T' ip (t # ts)) = replicate (length ts) (Done Tracked) @ [Done Locked] \<and>
      view (snd (fail_all fail T' ip (t # ts))) (last (t # ts)) ip = LockedUntil (last (t # ts) + dur T')"
    using Cons.prems le L by (intro Cons.IH) auto
  then show ?case
    using f(1) r L by (auto simp: Let_def split: prod.splits)
qed

lemma run_ready:
  assumes "ready T ip now" and "sorted (now # ts)"
    and "\<forall>t \<in> set (now # ts). t + dur T < INSTANT_LIMIT"
    and "last (now # ts) \<le> later" and "later + dur T < INSTANT_LIMIT"
  shows "ready (snd (fail_all fail T ip (now # ts))) ip later \<and>
    dur (snd (fail_all fail T ip (now # ts))) = dur T"
  using assms
proof (induction ts arbitrary: T now)
  case Nil
  obtain r T' where f: "fail T ip now = (r, T')" by fastforce
  then show ?case
    using fail_ready [OF Nil.prems(1) f] fail_limits [OF Nil.prems(1) f] Nil.prems by simp
next
  case (Cons t ts)
  obtain r T' where f: "fail T ip now = (r, T')" by fastforce
  have d: "dur T' = dur T" using fail_limits [OF Cons.prems(1) f] by simp
  have "ready T' ip t" using fail_ready [OF Cons.prems(1) f, of t] Cons.prems(2,3) by simp
  from Cons.IH [OF this] Cons.prems d f show ?case by (simp add: Let_def split_beta)
qed

lemma fresh_run:
  assumes "ready T ip now" and "view T now ip = Fresh" and "sorted (now # ts)"
    and "length (now # ts) = lim T"
    and "\<forall>t \<in> set (now # ts). t < now + window T \<and> t + dur T < INSTANT_LIMIT"
  shows "fst (fail_all fail T ip (now # ts)) = replicate (length ts) (Done Tracked) @ [Done Locked] \<and>
    view (snd (fail_all fail T ip (now # ts))) (last (now # ts)) ip =
      LockedUntil (last (now # ts) + dur T)"
proof -
  obtain r T' where f: "fail T ip now = (Done r, T')"
    "(r, view T' now ip) = spec_failure (lim T) (dur T) now (view T now ip)"
    using fail_spec [OF assms(1)] by blast
  show ?thesis
  proof (cases ts)
    case Nil
    then show ?thesis using f assms(2,4) by simp
  next
    case (Cons t rest)
    have r: "r = Tracked" and v: "view T' now ip = Counting 1 now"
      using f(2) assms(2,4) Cons by simp_all
    have L: "lim T' = lim T" "window T' = window T" "dur T' = dur T"
      using fail_limits [OF assms(1) f(1)] by auto
    have le: "now \<le> t" using assms(3) Cons by simp
    have "ready T' ip t" using fail_ready [OF assms(1) f(1) le] assms(5) Cons by simp
    moreover have "view T' t ip = Counting 1 now"
      using view_aged [OF assms(1) f(1) le] v assms(5) Cons le by auto
    ultimately have "fst (fail_all fail T' ip (t # rest)) =
        replicate (length rest) (Done Tracked) @ [Done Locked] \<and>
        view (snd (fail_all fail T' ip (t # rest))) (last (t # rest)) ip =
          LockedUntil (last (t # rest) + dur T')"
      using assms Cons L le by (intro counting_run [where n = 1 and ws = now]) auto
    then show ?thesis
      using f(1) r L Cons by (auto simp: Let_def split: prod.splits)
  qed
qed

end

text \<open>The table of the bridge meets the contract while its invariant holds.\<close>

definition table_ready :: "auth_lockout \<Rightarrow> ip_addr \<Rightarrow> instant \<Rightarrow> bool" where
  "table_ready L ip now \<longleftrightarrow> lockout_inv L now \<and> limits_ok L now \<and> room L ip now"

lemma status_aged: "now \<le> now' \<Longrightarrow> status L now' ip = aged (failure_window L) now' (status L now ip)"
  by (auto simp: status_def entry_status_def split: option.splits)

lemma table_fail_ready:
  assumes "table_ready L ip now" and "record_failure_at L ip now = (r, L')" and "now \<le> now'"
    and "now' + lockout_duration L < INSTANT_LIMIT"
  shows "table_ready L' ip now' \<and> same_limits L L'"
proof -
  have i: "lockout_inv L now" "limits_ok L now" "room L ip now"
    using assms(1) by (auto simp: table_ready_def)
  obtain r0 L0 where s: "record_failure_at L ip now = (Done r0, L0)" "same_limits L L0"
      "hget (entries L0) ip \<noteq> None"
    using record_failure_refines [OF i(1) order_refl i(2,3)] by metis
  then have L': "L' = L0" "r = Done r0" using assms(2) by simp_all
  have "lockout_inv L' now'"
    using record_failure_inv [OF i(1) order_refl] s(1) L' lockout_inv_mono assms(3) by blast
  then show ?thesis
    using s(2,3) L' i(2) assms(4) by (auto simp: table_ready_def limits_ok_def same_limits_def room_def)
qed

interpretation table: failure_table record_failure_at status table_ready max_failures failure_window
  lockout_duration
proof unfold_locales
  fix L :: auth_lockout and ip now
  assume R: "table_ready L ip now"
  then have i: "lockout_inv L now" "limits_ok L now" "room L ip now"
    by (auto simp: table_ready_def)
  show "\<exists>r T'. record_failure_at L ip now = (Done r, T') \<and>
      (r, status T' now ip) =
        spec_failure (max_failures L) (lockout_duration L) now (status L now ip)"
    using record_failure_refines [OF i(1) order_refl i(2,3)] by metis
  fix r L' now'
  assume f: "record_failure_at L ip now = (r, L')"
  have "now + lockout_duration L < INSTANT_LIMIT" using i(2) by (simp add: limits_ok_def)
  from table_fail_ready [OF R f order_refl this]
  show lim: "max_failures L' = max_failures L \<and> failure_window L' = failure_window L \<and>
      lockout_duration L' = lockout_duration L"
    by (simp add: same_limits_def)
  assume le: "now \<le> now'"
  show "status L' now' ip = aged (failure_window L) now' (status L' now ip)"
    using status_aged [OF le, of L' ip] lim by simp
  assume "now' + lockout_duration L < INSTANT_LIMIT"
  from table_fail_ready [OF R f le this] show "table_ready L' ip now'" by simp
qed

section \<open>Tables the bridge can reach\<close>

text \<open>
  The states a table goes through, with the time of the last operation: created once, then any
  sequence of operations by any tasks, in the order in which they take the mutex. The clock never
  runs backwards and a lockout ends within the range of instants.
\<close>

inductive lockout_reach :: "nat \<Rightarrow> duration \<Rightarrow> duration \<Rightarrow> nat \<Rightarrow> auth_lockout \<Rightarrow> instant \<Rightarrow> bool"
  for mf w d me where
  reach_new: "lockout_reach mf w d me (AuthLockout_new mf w d me) 0"
| reach_failure: "lockout_reach mf w d me L t \<Longrightarrow> t \<le> now \<Longrightarrow> now + d < INSTANT_LIMIT \<Longrightarrow>
    lockout_reach mf w d me (snd (record_failure_at L ip now)) now"
| reach_success: "lockout_reach mf w d me L t \<Longrightarrow> lockout_reach mf w d me (snd (record_success L ip)) t"
| reach_snapshot: "lockout_reach mf w d me L t \<Longrightarrow> t \<le> now \<Longrightarrow>
    lockout_reach mf w d me (snd (snapshot_at L now)) now"

inductive_cases lockout_reachE: "lockout_reach mf w d me L t"

lemma record_failure_done:
  assumes "lockout_inv L t" and "now + lockout_duration L < INSTANT_LIMIT"
  shows "\<exists>r L'. record_failure_at L ip now = (Done r, L') \<and> same_limits L L'"
proof (cases "is_enabled L")
  case False
  then show ?thesis by (simp add: record_failure_at_def same_limits_def)
next
  case en: True
  show ?thesis
  proof (cases "room L ip now")
    case False
    then show ?thesis
      using record_failure_no_room [OF en assms(1)] by (simp add: same_limits_def)
  next
    case True
    obtain r s' where f: "fail_entry L (entry_or_new (entries L) ip now) now = (r, s')"
      by fastforce
    then have "r \<noteq> Panic" using fail_entry_panic [of L "entry_or_new (entries L) ip now" now] assms(2) by auto
    then show ?thesis
      using record_failure_room [OF en assms(1) True f] by (cases r) (auto simp: same_limits_def)
  qed
qed

lemma record_success_limits: "same_limits L (snd (record_success L ip))"
  by (simp add: record_success_def same_limits_def)

lemma snapshot_limits: "same_limits L (snd (snapshot_at L now))"
  by (simp add: snapshot_at_def same_limits_def Let_def)

lemma reach_limits_inv:
  assumes "lockout_reach mf w d me L t"
  shows "max_failures L = mf \<and> failure_window L = w \<and> lockout_duration L = d \<and>
    max_entries L = me \<and> lockout_inv L t"
  using assms
proof induction
  case reach_new
  then show ?case by (simp add: lockout_inv_new) (simp add: AuthLockout_new_def)
next
  case (reach_failure L t now ip)
  then obtain r L' where r: "record_failure_at L ip now = (Done r, L')" "same_limits L L'"
    using record_failure_done [of L t now ip] by auto
  then show ?case
    using reach_failure record_failure_inv [of L t now ip r L'] by (simp add: same_limits_def)
next
  case (reach_success L t ip)
  then show ?case
    using record_success_limits [of L ip] record_success_inv [of L t ip]
    by (cases "record_success L ip") (simp add: same_limits_def)
next
  case (reach_snapshot L t now)
  then show ?case
    using snapshot_limits [of L now] snapshot_inv [of L t now] lockout_inv_mono
    by (cases "snapshot_at L now") (auto simp: same_limits_def)
qed

lemma record_success_status:
  assumes "lockout_inv L t" and "is_enabled L"
  shows "status (snd (record_success L ip)) now ip' = (if ip' = ip then Fresh else status L now ip')"
  using assms by (simp add: record_success_def status_def lockout_inv_def delete_conv'
      cong: option.case_cong)

lemma fail_all_reach:
  "lockout_reach mf w d me L t \<Longrightarrow> sorted (t # ts) \<Longrightarrow> \<forall>u \<in> set ts. u + d < INSTANT_LIMIT \<Longrightarrow>
   lockout_reach mf w d me (snd (fail_all record_failure_at L ip ts)) (last (t # ts))"
proof (induction ts arbitrary: L t)
  case Nil
  then show ?case by simp
next
  case (Cons u ts)
  have "lockout_reach mf w d me (snd (record_failure_at L ip u)) u"
    using Cons.prems by (intro reach_failure) auto
  from Cons.IH [OF this] Cons.prems show ?case by (simp add: Let_def split_beta)
qed

lemma locked_answer:
  assumes "lockout_reach mf w d me L t" and "t \<le> now" and "now + d < INSTANT_LIMIT"
    and "mf > 0" and "w > 0" and "d > 0" and "status L now ip = LockedUntil u"
  shows "\<exists>L'. record_failure_at L ip now = (Done AlreadyLocked, L') \<and> status L' now ip = LockedUntil u"
proof -
  have i: "lockout_inv L t" "max_failures L = mf" "failure_window L = w" "lockout_duration L = d"
    using reach_limits_inv [OF assms(1)] by auto
  have lim: "limits_ok L now" using i assms by (simp add: limits_ok_def)
  have "room L ip now" using assms(7) by (auto simp: room_def status_def split: option.splits)
  from record_failure_refines [OF i(1) assms(2) lim this] assms(7) show ?thesis by (metis spec_failure.simps(1) prod.inject)
qed

text \<open>The addresses that are locked at a time, and how a snapshot counts them.\<close>

lemma count_entries:
  assumes "hwf es"
  shows "length (filter P (map snd es)) = card {k. \<exists>v. hget es k = Some v \<and> P v}"
proof -
  have "length (filter P (map snd es)) = length (hretain (\<lambda>_. P) es)"
    by (simp add: hretain_def filter_map comp_def case_prod_unfold)
  also have "\<dots> = card (dom (hget (hretain (\<lambda>_. P) es)))"
    by (rule hm.len_card [OF hm.invar_retain [OF assms]])
  also have "dom (hget (hretain (\<lambda>_. P) es)) = {k. \<exists>v. hget es k = Some v \<and> P v}"
    by (auto simp: dom_def hm.get_retain [OF assms] split: option.splits if_splits)
  finally show ?thesis .
qed

lemma is_locked_status:
  "(\<exists>v. hget (entries L) k = Some v \<and> is_locked_now now v) \<longleftrightarrow> (\<exists>u. status L now k = LockedUntil u)"
  by (auto simp: status_def entry_status_def is_locked_now_def split: option.splits if_splits)

section \<open>Properties\<close>

text \<open>The example of the witnesses: two failures lock an address for ten units of time.\<close>

definition sample_lockout :: auth_lockout where
  "sample_lockout = AuthLockout_new 2 5 10 1"

lemma sample_reach: "lockout_reach 2 5 10 1 sample_lockout 0"
  unfolding sample_lockout_def by (rule reach_new)

text \<open>C23: Whatever sequence of failures, successes and snapshots the tasks of the bridge make, with
  a lockout that ends within the range of instants, no operation panics, the mutex is not poisoned, the
  table holds one entry per address and at most \<^verbatim>\<open>max_entries\<close>, and an entry has counted between
  one failure and the limit and is locked exactly when it has reached the limit.\<close>
theorem lockout_table_invariant:
  assumes "lockout_reach mf w d me L t" and "t \<le> now" and "now + d < INSTANT_LIMIT"
  shows "\<not> poisoned L \<and> distinct (map fst (entries L)) \<and> length (entries L) \<le> me \<and>
    (\<forall>ip s. hget (entries L) ip = Some s \<longrightarrow>
      1 \<le> failures s \<and> failures s \<le> mf \<and> (locked_until s \<noteq> None \<longleftrightarrow> failures s = mf)) \<and>
    (\<forall>ip. fst (record_failure_at L ip now) \<noteq> Panic \<and> fst (record_success L ip) \<noteq> Panic) \<and>
    fst (snapshot_at L now) \<noteq> Panic"
proof (intro conjI allI impI)
  have i: "lockout_inv L t" "max_failures L = mf" "lockout_duration L = d" "max_entries L = me"
    using reach_limits_inv [OF assms(1)] by auto
  show "\<not> poisoned L" and "distinct (map fst (entries L))" and "length (entries L) \<le> me"
    using i by (simp_all add: lockout_inv_def)
  show "fst (record_failure_at L ip now) \<noteq> Panic" for ip
    using record_failure_done [OF i(1), of now ip] assms(3) i(3) by auto
  show "fst (record_success L ip) \<noteq> Panic" for ip
    using record_success_inv [OF i(1)] by (cases "record_success L ip") auto
  fix ip s
  assume "hget (entries L) ip = Some s"
  then have "entry_ok L t s" using i(1) by (simp add: lockout_inv_def)
  then show "1 \<le> failures s" and "failures s \<le> mf" and "locked_until s \<noteq> None \<longleftrightarrow> failures s = mf"
    using i(2) by (auto simp: entry_ok_def split: option.splits)
next
  have i: "lockout_inv L t" using reach_limits_inv [OF assms(1)] by auto
  show "fst (snapshot_at L now) \<noteq> Panic"
    using snapshot_inv [OF i] by (cases "snapshot_at L now") auto
qed

theorem lockout_table_invariant_witness:
  "fst (record_failure_at (snd (record_failure_at sample_lockout (ipv4 1 2 3 4) 7)) (ipv4 1 2 3 4) 8) \<noteq> Panic"
  using lockout_table_invariant [OF reach_failure [OF sample_reach, of 7 "ipv4 1 2 3 4"], of 8]
  by (simp add: INSTANT_LIMIT_def)

text \<open>C24: \<^verbatim>\<open>record_failure_at\<close> refines the specification. On a reachable table a failure answers and
  moves the status of the address as \<open>spec_failure\<close> says when the table has room for the address, and
  answers that the entry limit is reached and changes no status when it has not; in both cases, and
  whatever the clean-up removes, no other address changes its status.\<close>
theorem record_failure_refines_spec:
  assumes "lockout_reach mf w d me L t" and "t \<le> now" and "now + d < INSTANT_LIMIT"
    and "mf > 0" and "w > 0" and "d > 0"
  shows "\<exists>r L'. record_failure_at L ip now = (Done r, L') \<and>
    (r, status L' now ip) =
      (if room L ip now then spec_failure mf d now (status L now ip)
       else (EntryLimitReached, status L now ip)) \<and>
    (\<forall>ip'. ip' \<noteq> ip \<longrightarrow> status L' now ip' = status L now ip')"
proof -
  have i: "lockout_inv L t" "max_failures L = mf" "failure_window L = w" "lockout_duration L = d"
    using reach_limits_inv [OF assms(1)] by auto
  have en: "is_enabled L" and lim: "limits_ok L now"
    using i assms by (simp_all add: is_enabled_def limits_ok_def)
  show ?thesis
  proof (cases "room L ip now")
    case True
    then show ?thesis using record_failure_refines [OF i(1) assms(2) lim True] i by metis
  next
    case False
    then show ?thesis
      using record_failure_no_room [OF en i(1)] status_cleaned [OF i(1)] by simp
  qed
qed

theorem record_failure_refines_spec_witness:
  "\<exists>r L'. record_failure_at sample_lockout (ipv4 1 2 3 4) 7 = (Done r, L') \<and>
    (r, status L' 7 (ipv4 1 2 3 4)) = (Tracked, Counting 1 7)"
proof -
  have "room sample_lockout (ipv4 1 2 3 4) 7" and "status sample_lockout 7 (ipv4 1 2 3 4) = Fresh"
    by (simp_all add: sample_lockout_def AuthLockout_new_def room_def cleaned_def status_def)
  then show ?thesis
    using record_failure_refines_spec [OF sample_reach, of 7 "ipv4 1 2 3 4"]
    by (auto simp: INSTANT_LIMIT_def)
qed

text \<open>An address that fails as often as the limit within one window is locked by the last of these
  failures, after all the others were only tracked, and until the lockout duration has passed every
  further failure is answered as already locked and leaves the status as it is.\<close>
theorem failures_lock_address:
  assumes "lockout_reach mf w d me L t" and "t \<le> now" and "d > 0"
    and "room L ip now" and "status L now ip = Fresh"
    and "sorted (now # ts)" and "length (now # ts) = mf"
    and "\<forall>u \<in> set (now # ts). u < now + w \<and> u + d < INSTANT_LIMIT"
    and "last (now # ts) \<le> later" and "later < last (now # ts) + d" and "later + d < INSTANT_LIMIT"
  shows "\<exists>L'. fail_all record_failure_at L ip (now # ts) =
      (replicate (mf - 1) (Done Tracked) @ [Done Locked], L') \<and>
    status L' later ip = LockedUntil (last (now # ts) + d) \<and>
    (\<exists>L''. record_failure_at L' ip later = (Done AlreadyLocked, L'') \<and>
       status L'' later ip = LockedUntil (last (now # ts) + d))"
proof -
  have i: "lockout_inv L t" "max_failures L = mf" "failure_window L = w" "lockout_duration L = d"
    using reach_limits_inv [OF assms(1)] by auto
  have "now < now + w" using assms(8) by simp
  then have "limits_ok L now" using i assms(3,7,8) by (auto simp: limits_ok_def)
  then have "table_ready L ip now"
    using i assms(2,4) lockout_inv_mono by (auto simp: table_ready_def)
  from table.fresh_run [OF this assms(5,6)] i assms(7,8)
  have run: "fst (fail_all record_failure_at L ip (now # ts)) =
        replicate (length ts) (Done Tracked) @ [Done Locked]"
      "status (snd (fail_all record_failure_at L ip (now # ts))) (last (now # ts)) ip =
        LockedUntil (last (now # ts) + d)"
    by auto
  then have st: "status (snd (fail_all record_failure_at L ip (now # ts))) later ip =
      LockedUntil (last (now # ts) + d)"
    using status_aged [OF assms(9)] assms(10) by auto
  have "lockout_reach mf w d me (snd (fail_all record_failure_at L ip (now # ts))) (last (t # now # ts))"
    using assms(1,2,6,8) by (intro fail_all_reach) auto
  from locked_answer [OF this _ assms(11) _ _ assms(3) st]
  have "\<exists>L''. record_failure_at (snd (fail_all record_failure_at L ip (now # ts))) ip later =
      (Done AlreadyLocked, L'') \<and> status L'' later ip = LockedUntil (last (now # ts) + d)"
    using assms(7-9) \<open>now < now + w\<close> by auto
  moreover have "length ts = mf - 1" using assms(7) by auto
  ultimately show ?thesis using run(1) st
    by (intro exI [of _ "snd (fail_all record_failure_at L ip (now # ts))"]) (simp add: prod_eq_iff)
qed

theorem failures_lock_address_witness:
  "\<exists>L'. fail_all record_failure_at sample_lockout (ipv4 1 2 3 4) [7, 9] =
      ([Done Tracked, Done Locked], L') \<and>
    (\<exists>L''. record_failure_at L' (ipv4 1 2 3 4) 12 = (Done AlreadyLocked, L''))"
  using failures_lock_address [OF sample_reach, of 7 "ipv4 1 2 3 4" "[9]" 12]
  by (auto simp add: INSTANT_LIMIT_def sample_lockout_def AuthLockout_new_def room_def cleaned_def
      status_def)

text \<open>A successful authentication makes its own address fresh again, even a locked one, and leaves the
  status of every other address as it is; a snapshot changes no status at all and reports as locked
  exactly the addresses whose status is locked at that time.\<close>
theorem success_and_snapshot_spec:
  assumes "lockout_reach mf w d me L t" and "t \<le> now" and "mf > 0"
  shows "(\<forall>ip'. status (snd (record_success L ip)) now ip' =
      (if ip' = ip then Fresh else status L now ip')) \<and>
    (\<forall>ip'. status (snd (snapshot_at L now)) now ip' = status L now ip') \<and>
    (\<exists>n. fst (snapshot_at L now) =
      Done \<lparr>tracked_ips = n, locked_ips = card {a. \<exists>u. status L now a = LockedUntil u}\<rparr> \<and> n \<le> me)"
proof (intro conjI allI)
  have i: "lockout_inv L t" "max_failures L = mf" "max_entries L = me"
    using reach_limits_inv [OF assms(1)] by auto
  have en: "is_enabled L" using i assms(3) by (simp add: is_enabled_def)
  let ?es = "cleanup_stale_entries (entries L) now (failure_window L)"
  have snap: "snapshot_at L now = (Done \<lparr>tracked_ips = length ?es,
      locked_ips = length (filter (is_locked_now now) (map snd ?es))\<rparr>, L\<lparr>entries := ?es\<rparr>)"
    using en i(1) by (simp add: snapshot_at_def lockout_inv_def Let_def)
  show "status (snd (record_success L ip)) now ip' = (if ip' = ip then Fresh else status L now ip')" for ip'
    by (rule record_success_status [OF i(1) en])
  show st: "status (snd (snapshot_at L now)) now ip' = status L now ip'" for ip'
    unfolding snap using status_cleanup [OF i(1)] by simp
  have inv: "lockout_inv (L\<lparr>entries := ?es\<rparr>) t" by (rule lockout_inv_cleanup [OF i(1)])
  then have "length (filter (is_locked_now now) (map snd ?es)) =
      card {a. \<exists>u. status (L\<lparr>entries := ?es\<rparr>) now a = LockedUntil u}"
    using count_entries [of ?es "is_locked_now now"] is_locked_status [of "L\<lparr>entries := ?es\<rparr>" _ now]
    by (simp add: lockout_inv_def)
  moreover have "status (L\<lparr>entries := ?es\<rparr>) now a = status L now a" for a
    using status_cleanup [OF i(1)] .
  ultimately show "\<exists>n. fst (snapshot_at L now) =
      Done \<lparr>tracked_ips = n, locked_ips = card {a. \<exists>u. status L now a = LockedUntil u}\<rparr> \<and> n \<le> me"
    unfolding snap using inv i(3) by (simp add: lockout_inv_def)
qed

theorem success_and_snapshot_spec_witness:
  "status (snd (record_success sample_lockout (ipv4 1 2 3 4))) 3 (ipv4 1 2 3 4) = Fresh"
  using success_and_snapshot_spec [OF sample_reach, of 3 "ipv4 1 2 3 4"] by simp

text \<open>C40: A lockout duration that does not fit into the range of instants makes the failure that reaches
  the limit panic while the mutex is held: the table is poisoned, and from then on every operation on
  it panics, \<^verbatim>\<open>record_success\<close> of a client with a valid token included.\<close>
theorem lockout_overflow_poisons:
  assumes "lockout_inv L t" and "is_enabled L" and "room L ip now"
    and "status L now ip = Counting n ws" and "max_failures L \<le> n + 1"
    and "INSTANT_LIMIT \<le> now + lockout_duration L"
  shows "\<exists>L'. record_failure_at L ip now = (Panic, L') \<and>
    (\<forall>ip' u. fst (record_failure_at L' ip' u) = Panic \<and> fst (record_success L' ip') = Panic \<and>
      fst (snapshot_at L' u) = Panic)"
proof -
  obtain s where s: "hget (entries L) ip = Some s" "locked_until s = None" "failures s = n"
      "now - window_started_at s < failure_window L"
    using assms(4) by (auto simp: status_def entry_status_def split: option.splits if_splits)
  then have "\<exists>s'. fail_entry L s now = (Panic, s')"
    using assms(5,6) by (simp add: fail_entry_def instant_add_def Let_def)
  then obtain s' where "fail_entry L (entry_or_new (entries L) ip now) now = (Panic, s')"
    using s(1) by (auto simp: entry_or_new_def)
  from record_failure_room [OF assms(2,1,3) this]
  show ?thesis
    using assms(2) by (simp add: record_failure_at_def record_success_def snapshot_at_def is_enabled_def)
qed

text \<open>The largest lockout a configuration can ask for: \<^verbatim>\<open>u64::MAX\<close> seconds.\<close>

definition sample_endless :: auth_lockout where
  "sample_endless = snd (record_failure_at
     (AuthLockout_new 2 5000000000 18446744073709551615000000000 8) (ipv4 1 2 3 4) 7)"

lemma sample_endless_entries:
  "sample_endless = \<lparr>max_failures = 2, failure_window = 5000000000,
     lockout_duration = 18446744073709551615000000000, max_entries = 8,
     entries = [(ipv4 1 2 3 4, \<lparr>failures = 1, window_started_at = 7, last_seen_at = 7,
       locked_until = None\<rparr>)], poisoned = False\<rparr>"
  by (simp add: sample_endless_def record_failure_at_def AuthLockout_new_def is_enabled_def
      fail_entry_def AuthState_new_def Let_def)

theorem lockout_overflow_poisons_witness:
  "\<exists>L'. record_failure_at sample_endless (ipv4 1 2 3 4) 9 = (Panic, L') \<and>
    fst (record_success L' (ipv4 9 9 9 9)) = Panic"
proof -
  have i: "lockout_inv sample_endless 7" "is_enabled sample_endless"
    "room sample_endless (ipv4 1 2 3 4) 9"
    by (auto simp: sample_endless_entries lockout_inv_def entry_ok_def is_enabled_def room_def
        split: if_splits)
  have "status sample_endless 9 (ipv4 1 2 3 4) = Counting 1 7"
    by (simp add: sample_endless_entries status_def entry_status_def)
  from lockout_overflow_poisons [OF i this] show ?thesis
    by (auto simp: sample_endless_entries INSTANT_LIMIT_def)
qed

end
