(* ===== verification/Rust_Utf8.thy ===== *)
theory Rust_Utf8
  imports Rust_Str
begin

text \<open>
  UTF-8 as the Rust standard library checks it: \<^verbatim>\<open>std::str::from_utf8\<close> accepts exactly the well-formed
  sequences, and \<^verbatim>\<open>String::from_utf8_lossy\<close> replaces each maximal ill-formed part by U+FFFD.
\<close>

definition cont_byte :: "char \<Rightarrow> bool" where
  "cont_byte c \<longleftrightarrow> 0x80 \<le> byte c \<and> byte c \<le> 0xBF"

text \<open>The second byte that may follow a lead byte: no overlong forms, no surrogates, nothing above U+10FFFF.\<close>

definition second_ok :: "nat \<Rightarrow> char \<Rightarrow> bool" where
  "second_ok lead c \<longleftrightarrow>
     (if lead = 0xE0 then 0xA0 \<le> byte c \<and> byte c \<le> 0xBF
      else if lead = 0xED then 0x80 \<le> byte c \<and> byte c \<le> 0x9F
      else if lead = 0xF0 then 0x90 \<le> byte c \<and> byte c \<le> 0xBF
      else if lead = 0xF4 then 0x80 \<le> byte c \<and> byte c \<le> 0x8F
      else cont_byte c)"

definition seq_len :: "nat \<Rightarrow> nat" where
  "seq_len lead =
     (if lead < 0x80 then 1 else if 0xC2 \<le> lead \<and> lead \<le> 0xDF then 2
      else if 0xE0 \<le> lead \<and> lead \<le> 0xEF then 3 else if 0xF0 \<le> lead \<and> lead \<le> 0xF4 then 4 else 0)"

text \<open>The next sequence: how many bytes it takes and whether it is a character.\<close>

fun utf8_seq :: "bytes \<Rightarrow> nat \<times> bool" where
  "utf8_seq [] = (0, True)"
| "utf8_seq (a # s) =
     (let n = seq_len (byte a) in
      if n = 1 then (1, True)
      else if n = 0 then (1, False)
      else case s of
        [] \<Rightarrow> (1, False)
      | b # s2 \<Rightarrow>
          if \<not> second_ok (byte a) b then (1, False)
          else if n = 2 then (2, True)
          else case s2 of
            [] \<Rightarrow> (2, False)
          | c # s3 \<Rightarrow>
              if \<not> cont_byte c then (2, False)
              else if n = 3 then (3, True)
              else case s3 of
                [] \<Rightarrow> (3, False)
              | d # _ \<Rightarrow> if cont_byte d then (4, True) else (3, False))"

lemma utf8_seq_pos: "s \<noteq> [] \<Longrightarrow> 0 < fst (utf8_seq s)"
  by (cases s) (auto simp: Let_def split: list.splits)

lemma utf8_seq_le: "fst (utf8_seq s) \<le> length s"
  by (cases s) (auto simp: Let_def split: list.splits)

function utf8_chunks :: "bytes \<Rightarrow> (bytes \<times> bool) list" where
  "utf8_chunks s =
     (if s = [] then []
      else let (n, ok) = utf8_seq s in (take n s, ok) # utf8_chunks (drop n s))"
  by pat_completeness auto
termination
proof (relation "measure length")
  fix s :: bytes and x n ok
  assume "s \<noteq> []" "x = utf8_seq s" "(n, ok) = x"
  then have "0 < n" using utf8_seq_pos [of s] by (metis fst_conv)
  then show "(drop n s, s) \<in> measure length" using \<open>s \<noteq> []\<close> by simp
qed simp

declare utf8_chunks.simps [simp del]

definition utf8_valid :: "bytes \<Rightarrow> bool" where
  "utf8_valid s = list_all snd (utf8_chunks s)"

definition replacement_char :: bytes where
  "replacement_char = [CHR 0xEF, CHR 0xBF, CHR 0xBD]"

definition from_utf8_lossy :: "bytes \<Rightarrow> string" where
  "from_utf8_lossy s = concat (map (\<lambda>(c, ok). if ok then c else replacement_char) (utf8_chunks s))"

lemma utf8_chunks_Nil [simp]: "utf8_chunks [] = []"
  by (simp add: utf8_chunks.simps)

lemma utf8_chunks_Cons:
  "s \<noteq> [] \<Longrightarrow> utf8_seq s = (n, ok) \<Longrightarrow> utf8_chunks s = (take n s, ok) # utf8_chunks (drop n s)"
  by (subst utf8_chunks.simps) simp

lemma concat_utf8_chunks: "concat (map fst (utf8_chunks s)) = s"
proof (induction s rule: utf8_chunks.induct)
  case (1 s)
  show ?case
  proof (cases "s = []")
    case False
    obtain n ok where u: "utf8_seq s = (n, ok)" by fastforce
    then show ?thesis using 1 [OF False, of "(n, ok)"] utf8_chunks_Cons [OF False u] by simp
  qed simp
qed

text \<open>A complete character at the front is one chunk, whatever follows it.\<close>

lemma utf8_seq_app: "utf8_seq s = (n, True) \<Longrightarrow> s \<noteq> [] \<Longrightarrow> utf8_seq (take n s @ r) = (n, True)"
  by (cases s) (auto simp: Let_def take_Cons' split: if_splits list.splits)

lemma utf8_chunks_app:
  assumes "utf8_seq s = (n, True)" and "s \<noteq> []"
  shows "utf8_chunks (take n s @ r) = (take n s, True) # utf8_chunks r"
proof -
  have "n \<le> length s" using utf8_seq_le [of s] assms by simp
  moreover have "0 < n" using utf8_seq_pos [of s] assms by simp
  ultimately show ?thesis
    using utf8_chunks_Cons [of "take n s @ r" n True] utf8_seq_app [OF assms] assms(2)
    by auto
qed

lemma replacement_chunk: "utf8_chunks (replacement_char @ r) = (replacement_char, True) # utf8_chunks r"
  using utf8_chunks_app [of replacement_char 3 r]
  by (simp add: replacement_char_def seq_len_def second_ok_def cont_byte_def Let_def)

lemma lossy_valid_id: "utf8_valid s \<Longrightarrow> from_utf8_lossy s = s"
proof -
  assume "utf8_valid s"
  then have "map (\<lambda>(c, ok). if ok then c else replacement_char) (utf8_chunks s) = map fst (utf8_chunks s)"
    by (auto simp: utf8_valid_def list_all_iff)
  then show ?thesis using concat_utf8_chunks [of s] by (simp add: from_utf8_lossy_def del: map_eq_conv)
qed

lemma lossy_is_valid: "utf8_valid (from_utf8_lossy s)"
proof (induction s rule: utf8_chunks.induct)
  case (1 s)
  show ?case
  proof (cases "s = []")
    case True
    then show ?thesis by (simp add: from_utf8_lossy_def utf8_valid_def)
  next
    case False
    obtain n ok where u: "utf8_seq s = (n, ok)" by fastforce
    have c: "from_utf8_lossy s = (if ok then take n s else replacement_char) @ from_utf8_lossy (drop n s)"
      using utf8_chunks_Cons [OF False u] by (simp add: from_utf8_lossy_def)
    have IH: "utf8_valid (from_utf8_lossy (drop n s))" using 1 [OF False, of "(n, ok)"] u by simp
    show ?thesis
    proof (cases ok)
      case True
      then show ?thesis using c u utf8_chunks_app [of s n] False IH by (simp add: utf8_valid_def)
    next
      case False
      then show ?thesis using c replacement_chunk IH by (simp add: utf8_valid_def)
    qed
  qed
qed

lemma graphic_chunk: "graphic a \<Longrightarrow> utf8_chunks (a # s) = ([a], True) # utf8_chunks s"
  using utf8_chunks_Cons [of "a # s" 1 True] by (simp add: graphic_def seq_len_def Let_def)

lemma utf8_valid_graphic: "list_all graphic s \<Longrightarrow> utf8_valid s"
  by (induction s) (simp_all add: utf8_valid_def graphic_chunk)

text \<open>The lossy decoding has no character below 128 that the bytes do not have.\<close>

lemma lossy_ascii: "c \<in> set (from_utf8_lossy s) \<Longrightarrow> byte c < 0x80 \<Longrightarrow> c \<in> set s"
proof -
  assume c: "c \<in> set (from_utf8_lossy s)" "byte c < 0x80"
  then obtain chunk where "chunk \<in> set (map fst (utf8_chunks s))" "c \<in> set chunk"
    by (fastforce simp: from_utf8_lossy_def replacement_char_def split: if_splits)
  then have "c \<in> set (concat (map fst (utf8_chunks s)))" by auto
  then show ?thesis by (simp only: concat_utf8_chunks)
qed

end
