(* ===== verification/Response.thy ===== *)
theory Response
  imports Rust_Utf8
begin

text \<open>
  Errors and responses of the HTTP side (\<^verbatim>\<open>src/app/error.rs\<close>, \<^verbatim>\<open>src/app/response.rs\<close>): an error is a
  status and a message, and a Redis reply is serialised into a writer that refuses to grow beyond the
  response limit.
\<close>

section \<open>Responses\<close>

datatype json = JString string | JNat nat | JObject "(string \<times> json) list"

text \<open>
  The body of a response: a JSON value that axum's \<^verbatim>\<open>Json\<close> encodes, bytes that the bridge has encoded
  itself, or a stream of events.
\<close>

datatype body = JsonBody json | BytesBody bytes | EventStream

record response =
  resp_status :: nat
  resp_headers :: "(string \<times> string) list"
  resp_body :: body

definition json_response :: "nat \<Rightarrow> json \<Rightarrow> response" where
  "json_response status value = \<lparr>resp_status = status, resp_headers = [], resp_body = JsonBody value\<rparr>"

record api_error =
  ae_status :: nat
  ae_message :: string

definition bad_request :: "string \<Rightarrow> api_error" where
  "bad_request message = \<lparr>ae_status = 400, ae_message = message\<rparr>"

definition ApiError_unauthorized :: "string \<Rightarrow> api_error" where
  "ApiError_unauthorized message = \<lparr>ae_status = 401, ae_message = message\<rparr>"

definition forbidden :: "string \<Rightarrow> api_error" where
  "forbidden message = \<lparr>ae_status = 403, ae_message = message\<rparr>"

definition unavailable :: "string \<Rightarrow> api_error" where
  "unavailable message = \<lparr>ae_status = 503, ae_message = message\<rparr>"

definition ApiError_timeout :: "string \<Rightarrow> api_error" where
  "ApiError_timeout message = \<lparr>ae_status = 504, ae_message = message\<rparr>"

definition too_many_requests :: "string \<Rightarrow> api_error" where
  "too_many_requests message = \<lparr>ae_status = 429, ae_message = message\<rparr>"

definition response_too_large :: "string \<Rightarrow> api_error" where
  "response_too_large message = \<lparr>ae_status = 502, ae_message = message\<rparr>"

definition into_response :: "api_error \<Rightarrow> response" where
  "into_response e = json_response (ae_status e) (JObject [(''error'', JString (ae_message e))])"

lemmas api_error_defs [model_defs] = bad_request_def ApiError_unauthorized_def forbidden_def
  unavailable_def ApiError_timeout_def too_many_requests_def response_too_large_def
  into_response_def json_response_def

section \<open>The limited writer\<close>

datatype response_error = TooLarge nat | Encode

fun metric_reason :: "response_error \<Rightarrow> string" where
  "metric_reason (TooLarge _) = ''response_too_large''"
| "metric_reason Encode = ''response_encode''"

fun into_api_error :: "response_error \<Rightarrow> api_error" where
  "into_api_error (TooLarge max_response_bytes) = response_too_large
     (''Redis response is too large. Maximum allowed bytes: '' @ show_nat max_response_bytes @ ''.'')"
| "into_api_error Encode = unavailable ''Failed to encode Redis response''"

record limit_body =
  lb_body :: bytes
  lb_written :: nat
  lb_max :: nat
  lb_exceeded :: bool

definition LimitBody_new :: "nat \<Rightarrow> limit_body" where
  "LimitBody_new m = \<lparr>lb_body = [], lb_written = 0, lb_max = m, lb_exceeded = False\<rparr>"

text \<open>\<^verbatim>\<open>saturating_sub\<close> on \<^verbatim>\<open>usize\<close> is subtraction of natural numbers.\<close>

definition LimitBody_write :: "limit_body \<Rightarrow> bytes \<Rightarrow> (unit, nat) result \<times> limit_body" where
  "LimitBody_write w buf =
     (if length buf > lb_max w - lb_written w then (Err (), w\<lparr>lb_exceeded := True\<rparr>)
      else (Ok (length buf),
            w\<lparr>lb_written := lb_written w + length buf, lb_body := lb_body w @ buf\<rparr>))"

text \<open>
  \<^verbatim>\<open>serde_json::to_writer\<close> is a parameter: for a value, the buffers it hands to \<^verbatim>\<open>write_all\<close> in order, and
  whether the serialisation itself ends in an error. \<^verbatim>\<open>write_all\<close> does not call \<^verbatim>\<open>write\<close> for an empty
  buffer, and one call takes a whole buffer or fails.
\<close>

fun write_all :: "limit_body \<Rightarrow> bytes list \<Rightarrow> bool \<times> limit_body" where
  "write_all w [] = (True, w)"
| "write_all w (buf # bufs) =
     (if buf = [] then write_all w bufs
      else case LimitBody_write w buf of
        (Inl _, w') \<Rightarrow> (False, w')
      | (Inr _, w') \<Rightarrow> write_all w' bufs)"

definition serialized_response ::
    "('v \<Rightarrow> bytes list \<times> bool) \<Rightarrow> nat \<Rightarrow> 'v \<Rightarrow> nat \<Rightarrow> (response_error, response) result" where
  "serialized_response to_json status value max_response_bytes =
     (let (bufs, fails) = to_json value;
          (written, writer) = write_all (LimitBody_new max_response_bytes) bufs in
      if written \<and> \<not> fails
      then Ok \<lparr>resp_status = status, resp_headers = [(''content-type'', ''application/json'')],
               resp_body = BytesBody (lb_body writer)\<rparr>
      else if lb_exceeded writer then Err (TooLarge max_response_bytes)
      else Err Encode)"

section \<open>Properties\<close>

text \<open>The writer counts what it holds and never holds more than the limit.\<close>

definition limit_body_inv :: "limit_body \<Rightarrow> bool" where
  "limit_body_inv w \<longleftrightarrow> lb_written w = length (lb_body w) \<and> lb_written w \<le> lb_max w"

lemma LimitBody_new_inv: "limit_body_inv (LimitBody_new m)"
  by (simp add: limit_body_inv_def LimitBody_new_def)

lemma LimitBody_write_inv:
  "limit_body_inv w \<Longrightarrow> LimitBody_write w buf = (r, w') \<Longrightarrow> limit_body_inv w' \<and> lb_max w' = lb_max w"
  by (auto simp: limit_body_inv_def LimitBody_write_def split: if_splits)

lemma write_all_spec:
  "limit_body_inv w \<Longrightarrow> \<not> lb_exceeded w \<Longrightarrow> write_all w bufs = (ok, w') \<Longrightarrow>
   limit_body_inv w' \<and> lb_max w' = lb_max w \<and>
   (ok \<longleftrightarrow> length (lb_body w @ concat bufs) \<le> lb_max w) \<and> lb_exceeded w' = (\<not> ok) \<and>
   (ok \<longrightarrow> lb_body w' = lb_body w @ concat bufs) \<and> prefix (lb_body w') (lb_body w @ concat bufs)"
proof (induction w bufs rule: write_all.induct)
  case (1 w)
  then show ?case by (auto simp: limit_body_inv_def)
next
  case (2 w buf bufs)
  show ?case
  proof (cases "buf = []")
    case True
    then show ?thesis using 2 by simp
  next
    case nonempty: False
    show ?thesis
    proof (cases "length buf > lb_max w - lb_written w")
      case True
      then show ?thesis
        using 2(3-5) nonempty by (auto simp: LimitBody_write_def limit_body_inv_def)
    next
      case False
      define w1 where "w1 = w\<lparr>lb_written := lb_written w + length buf, lb_body := lb_body w @ buf\<rparr>"
      have w: "LimitBody_write w buf = (Ok (length buf), w1)"
        using False by (simp add: LimitBody_write_def w1_def)
      have "limit_body_inv w1" using LimitBody_write_inv [OF 2(3) w] by simp
      moreover have "\<not> lb_exceeded w1" "lb_max w1 = lb_max w" "lb_body w1 = lb_body w @ buf"
        using 2(4) by (simp_all add: w1_def)
      moreover have "write_all w1 bufs = (ok, w')" using 2(5) nonempty w by simp
      ultimately show ?thesis using 2(2) [OF nonempty w [symmetric], of "length buf"] w by simp
    qed
  qed
qed

text \<open>C32: A response is sent completely or not at all. \<^verbatim>\<open>serialized_response\<close> answers with exactly the
  bytes of the serialised reply when they fit into the limit, with the too-large error exactly when they do
  not, wherever in the reply the limit is crossed, and with the encoding error when the serialiser
  failed within the limit.\<close>
theorem response_all_or_nothing:
  "serialized_response to_json status v m =
     (let reply = concat (fst (to_json v)) in
      if length reply > m then Err (TooLarge m)
      else if snd (to_json v) then Err Encode
      else Ok \<lparr>resp_status = status, resp_headers = [(''content-type'', ''application/json'')],
               resp_body = BytesBody reply\<rparr>)"
proof -
  obtain bufs fails where j: "to_json v = (bufs, fails)" by fastforce
  obtain ok w where w: "write_all (LimitBody_new m) bufs = (ok, w)" by fastforce
  have "\<not> lb_exceeded (LimitBody_new m)" "lb_body (LimitBody_new m) = []" "lb_max (LimitBody_new m) = m"
    by (simp_all add: LimitBody_new_def)
  with write_all_spec [OF LimitBody_new_inv _ w] show ?thesis
    by (auto simp: serialized_response_def j w Let_def)
qed

text \<open>However much the serialiser writes, also in a reply that ends up too large, the writer never
  buffers more bytes than the response limit.\<close>
theorem response_memory_bounded:
  "write_all (LimitBody_new m) bufs = (ok, w) \<Longrightarrow> length (lb_body w) \<le> m \<and> lb_written w = length (lb_body w)"
  using write_all_spec [OF LimitBody_new_inv, of m bufs ok w]
  by (auto simp: limit_body_inv_def LimitBody_new_def)

theorem response_memory_bounded_witness:
  "write_all (LimitBody_new 3) [''ab'', ''cde''] =
     (False, \<lparr>lb_body = ''ab'', lb_written = 2, lb_max = 3, lb_exceeded = True\<rparr>) \<and> length ''ab'' \<le> (3::nat)"
proof -
  have "write_all (LimitBody_new 3) [''ab'', ''cde''] =
      (False, \<lparr>lb_body = ''ab'', lb_written = 2, lb_max = 3, lb_exceeded = True\<rparr>)"
    by (simp add: LimitBody_new_def LimitBody_write_def)
  then show ?thesis using response_memory_bounded by fastforce
qed

end
