(* ===== verification/App_State.thy ===== *)
theory App_State
  imports Target Lockout Response
begin

text \<open>
  The state of the running bridge (\<^verbatim>\<open>AppState\<close> in \<^verbatim>\<open>src/app/state.rs\<close>): the targets, the route of every enabled
  token, the policy, the limits, the metrics and the lockout table, all built from a loaded
  configuration. A route names its target by its position, as the code shares it by reference.
\<close>

section \<open>State\<close>

record auth_route =
  route_target :: nat
  route_type :: token_caps

record app_state =
  st_targets :: "redis_target list"
  st_token_routes :: "(token_hash, auth_route) hmap"
  st_security :: security_policy
  st_request_timeout :: duration
  st_acquire_timeout :: duration
  st_max_response_bytes :: nat
  st_metrics :: metrics
  st_metrics_token :: "string option"
  st_hash_token :: "string option"
  st_auth_lockout :: auth_lockout
  st_trust_proxy_headers :: bool
  st_trusted_proxies :: trusted_proxies
  st_realtime_permits :: nat

text \<open>
  The libraries at start-up: \<^verbatim>\<open>redis::Client::open\<close> checks a URL, the Prometheus library creates and
  registers collectors, and a semaphore cannot be made with more permits than the runtime supports.
\<close>

record libraries =
  lib_client_open :: "string \<Rightarrow> bool"
  lib_create :: "descriptor \<Rightarrow> (string, unit) result"
  lib_enter :: "descriptor \<Rightarrow> descriptor list \<Rightarrow> (string, descriptor list) result"
  lib_max_permits :: nat

datatype app_error =
    MetricsError string
  | ZeroOperationLimit string
  | ZeroConnectionShards string
  | InvalidUrl string
  | DuplicateTokenHash

section \<open>Building the state\<close>

text \<open>The routes of one target: \<^verbatim>\<open>insert\<close> tells whether the hash was there already.\<close>

fun add_routes ::
    "nat \<Rightarrow> auth_token list \<Rightarrow> (token_hash, auth_route) hmap \<Rightarrow> (app_error, (token_hash, auth_route) hmap) result" where
  "add_routes i [] routes = Ok routes"
| "add_routes i (token # toks) routes =
     (if tok_enabled token then
        if hget routes (tok_hash token) \<noteq> None then Err DuplicateTokenHash
        else add_routes i toks
               (hinsert (tok_hash token) \<lparr>route_target = i, route_type = tok_type token\<rparr> routes)
      else add_routes i toks routes)"

fun add_targets ::
    "libraries \<Rightarrow> redis_config list \<Rightarrow> redis_target list \<Rightarrow> (token_hash, auth_route) hmap \<Rightarrow> metrics \<Rightarrow>
       (app_error, redis_target list \<times> (token_hash, auth_route) hmap \<times> metrics) result outcome" where
  "add_targets L [] targets routes M = Done (Ok (targets, routes, M))"
| "add_targets L (c # cs) targets routes M =
     (if operation_limit c = 0 then Done (Err (ZeroOperationLimit (rrb_id c)))
      else if connection_shards c = 0 then Done (Err (ZeroConnectionShards (rrb_id c)))
      else if \<not> lib_client_open L (connection_string c) then Done (Err (InvalidUrl (rrb_id c)))
      else if operation_limit c > lib_max_permits L then Panic
      else case add_routes (length targets) (tokens c) routes of
        Inl e \<Rightarrow> Done (Err e)
      | Inr routes' \<Rightarrow>
          add_targets L cs (targets @ [RedisTarget_new c]) routes'
            (M @ [SetTo redis_connected_shards [rrb_id c] 0]))"

definition AppState_new :: "libraries \<Rightarrow> bridge \<Rightarrow> (app_error, app_state) result outcome" where
  "AppState_new L config =
     (case Metrics_new (lib_create L) (lib_enter L) [] of
        Inl e \<Rightarrow> Done (Err (MetricsError e))
      | Inr _ \<Rightarrow>
          (case add_targets L (br_targets config) [] []
                  [SetTo configured_targets [] (as_i64 (length (br_targets config)))] of
             Panic \<Rightarrow> Panic
           | Done (Inl e) \<Rightarrow> Done (Err e)
           | Done (Inr (targets, routes, M)) \<Rightarrow>
               if br_max_realtime_concurrency config > lib_max_permits L then Panic
               else Done (Ok
                 \<lparr>st_targets = targets, st_token_routes = routes, st_security = br_security config,
                  st_request_timeout = br_request_timeout config,
                  st_acquire_timeout = br_acquire_timeout config,
                  st_max_response_bytes = br_max_response_bytes config, st_metrics = M,
                  st_metrics_token = br_metrics_token config, st_hash_token = br_hash_token config,
                  st_auth_lockout = AuthLockout_new (br_auth_lockout_failures config)
                    (br_auth_lockout_window config) (br_auth_lockout_duration config)
                    (br_auth_lockout_max_entries config),
                  st_trust_proxy_headers = br_trust_proxy_headers config,
                  st_trusted_proxies = br_trusted_proxies config,
                  st_realtime_permits = br_max_realtime_concurrency config\<rparr>)))"

section \<open>Operations\<close>

text \<open>\<^verbatim>\<open>start_connection_workers\<close> spawns one supervisor per shard of every target.\<close>

definition start_connection_workers :: "app_state \<Rightarrow> worker list list" where
  "start_connection_workers S = map (\<lambda>t. map worker_new [0..<length (t_connections t)]) (st_targets S)"

definition targets_ready :: "app_state \<Rightarrow> bool" where
  "targets_ready S \<longleftrightarrow> st_targets S \<noteq> [] \<and> list_all (\<lambda>t. t_available t > 0) (st_targets S)"

definition target_count :: "app_state \<Rightarrow> nat" where
  "target_count S = length (st_targets S)"

text \<open>\<^verbatim>\<open>try_acquire_owned\<close>: a permit, or the limiter is saturated. The permit is given back on drop.\<close>

definition acquire_realtime :: "app_state \<Rightarrow> bool \<times> app_state" where
  "acquire_realtime S =
     (if st_realtime_permits S = 0 then (False, S)
      else (True, S\<lparr>st_realtime_permits := st_realtime_permits S - 1\<rparr>))"

definition release_realtime :: "app_state \<Rightarrow> app_state" where
  "release_realtime S = S\<lparr>st_realtime_permits := st_realtime_permits S + 1\<rparr>"

definition client_ip :: "app_state \<Rightarrow> headers \<Rightarrow> ip_addr \<Rightarrow> ip_addr" where
  "client_ip S headers peer =
     (if \<not> st_trust_proxy_headers S then peer else resolve (st_trusted_proxies S) headers peer)"

definition base64 :: "headers \<Rightarrow> bool" where
  "base64 headers =
     (case headers ''upstash-encoding'' of
        None \<Rightarrow> False
      | Some value \<Rightarrow>
          list_ex (\<lambda>entry. eq_ignore_ascii_case (trim entry) ''base64'') (split_on CHR '','' value))"

definition route_allows_command_route :: "auth_route \<Rightarrow> bool" where
  "route_allows_command_route r = allows_command_route (route_type r)"

definition route_allows_realtime :: "auth_route \<Rightarrow> bool" where
  "route_allows_realtime r = allows_realtime (route_type r)"

definition target_of :: "app_state \<Rightarrow> auth_route \<Rightarrow> redis_target" where
  "target_of S r = st_targets S ! route_target r"

section \<open>The routes of a bridge\<close>

text \<open>The token a hash belongs to, read off the configuration.\<close>

definition route_spec :: "redis_config list \<Rightarrow> token_hash \<Rightarrow> auth_route \<Rightarrow> bool" where
  "route_spec cs h r \<longleftrightarrow>
     (\<exists>i < length cs. \<exists>k \<in> set (tokens (cs ! i)).
        tok_enabled k \<and> tok_hash k = h \<and> r = \<lparr>route_target = i, route_type = tok_type k\<rparr>)"

lemma add_routes_Ok:
  "distinct (enabled_hashes toks) \<Longrightarrow> set (enabled_hashes toks) \<inter> dom (hget routes) = {} \<Longrightarrow>
   \<exists>routes'. add_routes i toks routes = Ok routes' \<and>
     (\<forall>h r. hget routes' h = Some r \<longleftrightarrow> hget routes h = Some r \<or>
       (\<exists>k \<in> set toks. tok_enabled k \<and> tok_hash k = h \<and> r = \<lparr>route_target = i, route_type = tok_type k\<rparr>))"
proof (induction toks arbitrary: routes)
  case Nil
  then show ?case by simp
next
  case (Cons k toks)
  show ?case
  proof (cases "tok_enabled k")
    case False
    then show ?thesis using Cons.IH [of routes] Cons.prems by auto
  next
    case True
    let ?r = "hinsert (tok_hash k) \<lparr>route_target = i, route_type = tok_type k\<rparr> routes"
    have none: "hget routes (tok_hash k) = None" using Cons.prems(2) True by auto
    have "set (enabled_hashes toks) \<inter> dom (hget ?r) = {}"
      using Cons.prems True by (auto simp: update_conv')
    then obtain routes' where r: "add_routes i toks ?r = Ok routes'"
      "\<forall>h r. hget routes' h = Some r \<longleftrightarrow> hget ?r h = Some r \<or>
       (\<exists>k \<in> set toks. tok_enabled k \<and> tok_hash k = h \<and> r = \<lparr>route_target = i, route_type = tok_type k\<rparr>)"
      using Cons.IH [of ?r] Cons.prems(1) True by auto
    have "hget ?r h = Some x \<longleftrightarrow> hget routes h = Some x \<or>
        tok_hash k = h \<and> x = \<lparr>route_target = i, route_type = tok_type k\<rparr>" for h x
      using none by (auto simp: update_conv')
    then show ?thesis using r none True by simp
  qed
qed

lemma route_spec_snoc:
  "route_spec (cs @ [c]) h r \<longleftrightarrow> route_spec cs h r \<or>
     (\<exists>k \<in> set (tokens c). tok_enabled k \<and> tok_hash k = h \<and>
        r = \<lparr>route_target = length cs, route_type = tok_type k\<rparr>)"
  by (auto simp: route_spec_def Ex_less_Suc nth_append)

lemma route_spec_hash: "route_spec cs h r \<Longrightarrow> h \<in> set (enabled_hashes (all_tokens cs))"
  by (force simp: route_spec_def enabled_hashes_def all_tokens_def)

lemma all_tokens_append: "all_tokens (xs @ ys) = all_tokens xs @ all_tokens ys"
  by (simp add: all_tokens_def)

lemma add_targets_Ok:
  assumes "\<And>h r. hget routes h = Some r \<longleftrightarrow> route_spec done h r"
    and "targets = map RedisTarget_new done" and "distinct (enabled_hashes (all_tokens (done @ cs)))"
    and "list_all (\<lambda>c. operation_limit c > 0 \<and> connection_shards c > 0 \<and>
      lib_client_open L (connection_string c) \<and> operation_limit c \<le> lib_max_permits L) cs"
  shows "\<exists>routes' M'. add_targets L cs targets routes M =
      Done (Ok (map RedisTarget_new (done @ cs), routes', M')) \<and>
    (\<forall>h r. hget routes' h = Some r \<longleftrightarrow> route_spec (done @ cs) h r)"
  using assms
proof (induction cs arbitrary: "done" targets routes M)
  case Nil
  then show ?case by simp
next
  case (Cons c cs)
  have at: "all_tokens (done @ c # cs) = all_tokens done @ tokens c @ all_tokens cs"
    by (simp add: all_tokens_def)
  have "set (enabled_hashes (tokens c)) \<inter> dom (hget routes) = {}"
  proof -
    have "h \<notin> dom (hget routes)" if "h \<in> set (enabled_hashes (tokens c))" for h
      using that Cons.prems(1) [of h] Cons.prems(3) route_spec_hash [of "done" h] unfolding at
      by (auto simp: dom_def)
    then show ?thesis by blast
  qed
  moreover have "distinct (enabled_hashes (tokens c))" using Cons.prems(3) by (simp add: at)
  ultimately obtain routes' where r: "add_routes (length done) (tokens c) routes = Ok routes'"
    "\<forall>h r. hget routes' h = Some r \<longleftrightarrow> hget routes h = Some r \<or>
       (\<exists>k \<in> set (tokens c). tok_enabled k \<and> tok_hash k = h \<and>
          r = \<lparr>route_target = length done, route_type = tok_type k\<rparr>)"
    using add_routes_Ok by blast
  have spec: "hget routes' h = Some x \<longleftrightarrow> route_spec (done @ [c]) h x" for h x
    using r(2) Cons.prems(1) by (simp add: route_spec_snoc)
  have "\<exists>routes'' M'. add_targets L cs (targets @ [RedisTarget_new c]) routes'
        (M @ [SetTo redis_connected_shards [rrb_id c] 0]) =
      Done (Ok (map RedisTarget_new ((done @ [c]) @ cs), routes'', M')) \<and>
    (\<forall>h r. hget routes'' h = Some r \<longleftrightarrow> route_spec ((done @ [c]) @ cs) h r)"
    using Cons.prems by (intro Cons.IH spec) auto
  then show ?case using Cons.prems(2,4) r(1) by simp
qed

text \<open>A bridge whose libraries accept it starts, with the routes of its configuration.\<close>

definition libraries_accept :: "libraries \<Rightarrow> bridge \<Rightarrow> bool" where
  "libraries_accept L b \<longleftrightarrow>
     is_ok (Metrics_new (lib_create L) (lib_enter L) []) \<and>
     list_all (\<lambda>c. lib_client_open L (connection_string c) \<and> operation_limit c \<le> lib_max_permits L)
       (br_targets b) \<and>
     br_max_realtime_concurrency b \<le> lib_max_permits L"

lemma AppState_new_Ok:
  assumes "bridge_ok b" and "libraries_accept L b"
  shows "\<exists>S. AppState_new L b = Done (Ok S) \<and>
    (\<forall>h r. hget (st_token_routes S) h = Some r \<longleftrightarrow> route_spec (br_targets b) h r) \<and>
    st_targets S = map RedisTarget_new (br_targets b) \<and>
    st_hash_token S = br_hash_token b \<and> st_metrics_token S = br_metrics_token b \<and>
    st_security S = br_security b \<and> st_trust_proxy_headers S = br_trust_proxy_headers b \<and>
    st_trusted_proxies S = br_trusted_proxies b \<and>
    st_max_response_bytes S = br_max_response_bytes b \<and>
    st_auth_lockout S = AuthLockout_new (br_auth_lockout_failures b) (br_auth_lockout_window b)
      (br_auth_lockout_duration b) (br_auth_lockout_max_entries b) \<and>
    st_realtime_permits S = br_max_realtime_concurrency b"
proof -
  obtain reg where reg: "Metrics_new (lib_create L) (lib_enter L) [] = Ok reg"
    using assms(2) by (cases "Metrics_new (lib_create L) (lib_enter L) []") (auto simp: libraries_accept_def)
  have "list_all (\<lambda>c. operation_limit c > 0 \<and> connection_shards c > 0 \<and>
      lib_client_open L (connection_string c) \<and> operation_limit c \<le> lib_max_permits L) (br_targets b)"
    using assms by (auto simp: bridge_ok_def targets_ok_def target_ok_def libraries_accept_def list_all_iff)
  moreover have "distinct (enabled_hashes (all_tokens ([] @ br_targets b)))"
    using assms(1) by (simp add: bridge_ok_def targets_ok_def)
  ultimately have "\<exists>routes' M'. add_targets L (br_targets b) [] []
      [SetTo configured_targets [] (as_i64 (length (br_targets b)))] =
      Done (Ok (map RedisTarget_new ([] @ br_targets b), routes', M')) \<and>
      (\<forall>h r. hget routes' h = Some r \<longleftrightarrow> route_spec ([] @ br_targets b) h r)"
    by (intro add_targets_Ok) (auto simp: route_spec_def)
  then show ?thesis
    using reg assms(2) by (auto simp: AppState_new_def libraries_accept_def)
qed

end
