(* ===== verification/Redis_Value.thy ===== *)
theory Redis_Value
  imports Rust_Utf8
begin

text \<open>
  Redis replies as JSON (\<^verbatim>\<open>src/redis/value.rs\<close>, \<^verbatim>\<open>src/redis/response.rs\<close>). A \<^verbatim>\<open>Serialize\<close>
  implementation makes calls on a serializer; the model of one is the tree of these calls, with the
  length each sequence and map announces. Text that other libraries render (the debug form of a verbatim
  format and of a push kind, big numbers, server errors) is carried by the value.
\<close>

section \<open>Values\<close>

datatype redis_value =
    RNil
  | RInt int
  | BulkString bytes
  | Array "redis_value list"
  | SimpleString string
  | Okay
  | RMap "(redis_value \<times> redis_value) list"
  | Attribute redis_value "(redis_value \<times> redis_value) list"
  | RSet "redis_value list"
  | Double "64 word"
  | Boolean bool
  | VerbatimString string string
  | BigNumber string
  | Push string "redis_value list"
  | ServerError string
  | UnknownVariant

text \<open>Base64 (standard alphabet, padded) and the shortest decimal form of a finite double are library code.\<close>

record codec =
  base64_encode :: "bytes \<Rightarrow> string"
  f64_text :: "64 word \<Rightarrow> string"

datatype ser =
    SNone
  | SI64 int
  | SF64 "64 word"
  | SBool bool
  | SStr string
  | SSeq nat "ser list"
  | SMap nat "(string \<times> ser) list"

text \<open>The bits of a double: eleven of exponent below the sign, fifty-two of fraction.\<close>

definition f64_exponent :: "64 word \<Rightarrow> 64 word" where
  "f64_exponent w = and (drop_bit 52 w) 0x7FF"

definition f64_is_finite :: "64 word \<Rightarrow> bool" where
  "f64_is_finite w \<longleftrightarrow> f64_exponent w \<noteq> 0x7FF"

text \<open>\<^verbatim>\<open>to_string\<close> of a double that is not finite.\<close>

definition f64_nonfinite_text :: "64 word \<Rightarrow> string" where
  "f64_nonfinite_text w =
     (if and w 0xFFFFFFFFFFFFF \<noteq> 0 then ''NaN'' else if bit w 63 then ''-inf'' else ''inf'')"

section \<open>Serialisation\<close>

definition serialize_f64 :: "64 word \<Rightarrow> ser" where
  "serialize_f64 value =
     (if f64_is_finite value then SF64 value
      else SMap 2 [(''type'', SStr ''double''), (''value'', SStr (f64_nonfinite_text value))])"

definition serialize_bytes :: "codec \<Rightarrow> bool \<Rightarrow> bytes \<Rightarrow> ser" where
  "serialize_bytes C base64_encoding bytes =
     (if base64_encoding then SStr (base64_encode C bytes)
      else if utf8_valid bytes then SStr bytes
      else SMap 3 [(''type'', SStr ''binary''), (''encoding'', SStr ''base64''),
                   (''value'', SStr (base64_encode C bytes))])"

definition serialize_string :: "codec \<Rightarrow> bool \<Rightarrow> string \<Rightarrow> ser" where
  "serialize_string C base64_encoding value =
     (if base64_encoding \<and> value \<noteq> ''OK'' then SStr (base64_encode C value) else SStr value)"

fun object_key :: "codec \<Rightarrow> bool \<Rightarrow> redis_value \<Rightarrow> string option" where
  "object_key C b RNil = Some ''null''"
| "object_key C b (RInt value) = Some (show_int value)"
| "object_key C b (Boolean value) = Some (show_bool value)"
| "object_key C b (SimpleString value) =
     (if b \<and> value \<noteq> ''OK'' then Some (base64_encode C value) else Some value)"
| "object_key C b (BulkString bytes) =
     (if b then Some (base64_encode C bytes) else if utf8_valid bytes then Some bytes else None)"
| "object_key C b (BigNumber value) = Some value"
| "object_key C b (Double value) = (if f64_is_finite value then Some (f64_text C value) else None)"
| "object_key C b _ = None"

text \<open>The loop of \<^verbatim>\<open>object_keys\<close>, with the keys seen so far.\<close>

fun object_keys_loop :: "codec \<Rightarrow> bool \<Rightarrow> (redis_value \<times> redis_value) list \<Rightarrow> string list \<Rightarrow> string list option" where
  "object_keys_loop C b [] keys = Some keys"
| "object_keys_loop C b ((key, _) # entries) keys =
     (case object_key C b key of
        None \<Rightarrow> None
      | Some k \<Rightarrow> if k \<in> set keys then None else object_keys_loop C b entries (keys @ [k]))"

definition object_keys :: "codec \<Rightarrow> bool \<Rightarrow> (redis_value \<times> redis_value) list \<Rightarrow> string list option" where
  "object_keys C b entries = object_keys_loop C b entries []"

text \<open>
  \<^verbatim>\<open>serialize_array\<close> and \<^verbatim>\<open>serialize_map\<close> over the calls that their elements make: the recursion into the
  elements is that of \<^verbatim>\<open>serialize_redis\<close> below. A map is an object when its keys are distinct strings, and
  otherwise a list of pairs (\<^verbatim>\<open>RedisMapPairs\<close>, \<^verbatim>\<open>RedisPair\<close>).
\<close>

definition serialize_array :: "ser list \<Rightarrow> ser" where
  "serialize_array elements = SSeq (length elements) elements"

definition RedisPair_serialize :: "ser \<times> ser \<Rightarrow> ser" where
  "RedisPair_serialize kv = SSeq 2 [fst kv, snd kv]"

definition RedisMapPairs_serialize :: "(ser \<times> ser) list \<Rightarrow> ser" where
  "RedisMapPairs_serialize entries = SSeq (length entries) (map RedisPair_serialize entries)"

definition serialize_map ::
    "codec \<Rightarrow> bool \<Rightarrow> (redis_value \<times> redis_value) list \<Rightarrow> (ser \<times> ser) list \<Rightarrow> ser" where
  "serialize_map C b entries sers =
     (case object_keys C b entries of
        Some keys \<Rightarrow> SMap (length entries) (zip keys (map snd sers))
      | None \<Rightarrow> SMap 2 [(''type'', SStr ''map''), (''value'', RedisMapPairs_serialize sers)])"

primrec serialize_redis :: "codec \<Rightarrow> bool \<Rightarrow> redis_value \<Rightarrow> ser" where
  "serialize_redis C b RNil = SNone"
| "serialize_redis C b (RInt value) = SI64 value"
| "serialize_redis C b (BulkString bytes) = serialize_bytes C b bytes"
| "serialize_redis C b (Array values) = serialize_array (map (serialize_redis C b) values)"
| "serialize_redis C b (SimpleString value) = serialize_string C b value"
| "serialize_redis C b Okay = SStr ''OK''"
| "serialize_redis C b (RMap entries) =
     serialize_map C b entries (map (map_prod (serialize_redis C b) (serialize_redis C b)) entries)"
| "serialize_redis C b (RSet values) = serialize_array (map (serialize_redis C b) values)"
| "serialize_redis C b (Double value) = serialize_f64 value"
| "serialize_redis C b (Boolean value) = SBool value"
| "serialize_redis C b (BigNumber value) = SStr value"
| "serialize_redis C b (Attribute data attributes) =
     SMap 3 [(''type'', SStr ''attribute''), (''data'', serialize_redis C b data),
             (''attributes'', serialize_map C b attributes
                (map (map_prod (serialize_redis C b) (serialize_redis C b)) attributes))]"
| "serialize_redis C b (VerbatimString format txt) =
     SMap 3 [(''type'', SStr ''verbatim_string''), (''format'', SStr format), (''value'', SStr txt)]"
| "serialize_redis C b (Push kind data) =
     SMap 3 [(''type'', SStr ''push''), (''kind'', SStr kind),
             (''data'', serialize_array (map (serialize_redis C b) data))]"
| "serialize_redis C b (ServerError error) =
     SMap 2 [(''type'', SStr ''server_error''), (''error'', SStr error)]"
| "serialize_redis C b UnknownVariant = SMap 1 [(''type'', SStr ''unsupported_redis_value'')]"

section \<open>Responses of the three routes\<close>

datatype redis_response = Result redis_value | ResponseError string

definition CommandResponse_serialize :: "codec \<Rightarrow> bool \<Rightarrow> redis_value \<Rightarrow> ser" where
  "CommandResponse_serialize C b result = SMap 1 [(''result'', serialize_redis C b result)]"

fun PipelineItem_serialize :: "codec \<Rightarrow> bool \<Rightarrow> redis_response \<Rightarrow> ser" where
  "PipelineItem_serialize C b (Result value) = SMap 1 [(''result'', serialize_redis C b value)]"
| "PipelineItem_serialize C b (ResponseError error) = SMap 1 [(''error'', SStr error)]"

definition PipelineResponse_serialize :: "codec \<Rightarrow> bool \<Rightarrow> redis_response list \<Rightarrow> ser" where
  "PipelineResponse_serialize C b items =
     SSeq (length items) (map (PipelineItem_serialize C b) items)"

definition TransactionResponse_serialize :: "codec \<Rightarrow> bool \<Rightarrow> redis_value list \<Rightarrow> ser" where
  "TransactionResponse_serialize C b values =
     SSeq (length values) (map (CommandResponse_serialize C b) values)"

section \<open>What serde demands of the calls\<close>

text \<open>
  A sequence or map has as many elements as it announces, the keys of a map are distinct, and a
  double is finite, throughout the tree.
\<close>

primrec ser_ok :: "ser \<Rightarrow> bool" where
  "ser_ok SNone = True"
| "ser_ok (SI64 _) = True"
| "ser_ok (SF64 w) = f64_is_finite w"
| "ser_ok (SBool _) = True"
| "ser_ok (SStr _) = True"
| "ser_ok (SSeq n xs) = (n = length xs \<and> list_all id (map ser_ok xs))"
| "ser_ok (SMap n es) =
     (n = length es \<and> distinct (map fst es) \<and> list_all snd (map (map_prod id ser_ok) es))"

lemma object_keys_loop_Some:
  "distinct keys \<Longrightarrow> object_keys_loop C b entries keys = Some ks \<longleftrightarrow>
     (\<exists>rest. ks = keys @ rest \<and> map (\<lambda>e. object_key C b (fst e)) entries = map Some rest \<and> distinct ks)"
proof (induction entries arbitrary: keys)
  case Nil
  then show ?case by auto
next
  case (Cons e entries)
  obtain k v where e: "e = (k, v)" by (cases e)
  show ?case
  proof (cases "object_key C b k")
    case None
    then show ?thesis using e by auto
  next
    case (Some key)
    then show ?thesis
      using Cons e by (auto simp: Cons_eq_map_conv)
  qed
qed

lemma object_keys_Some:
  "object_keys C b entries = Some ks \<longleftrightarrow>
     map (\<lambda>e. object_key C b (fst e)) entries = map Some ks \<and> distinct ks"
  by (simp add: object_keys_def object_keys_loop_Some)

lemma serialize_map_ok:
  assumes "\<And>k v. (k, v) \<in> set sers \<Longrightarrow> ser_ok k \<and> ser_ok v" and "length sers = length entries"
  shows "ser_ok (serialize_map C b entries sers)"
proof (cases "object_keys C b entries")
  case None
  then show ?thesis
    using assms by (auto simp: serialize_map_def RedisMapPairs_serialize_def RedisPair_serialize_def list_all_iff)
next
  case (Some ks)
  then have "map (\<lambda>e. object_key C b (fst e)) entries = map Some ks" and d: "distinct ks"
    by (simp_all add: object_keys_Some)
  then have l: "length ks = length entries" by (metis length_map)
  then show ?thesis
    using Some assms d by (auto simp: serialize_map_def list_all_iff dest!: set_zip_rightD)
qed

lemma serialize_redis_ok: "ser_ok (serialize_redis C b v)"
proof (induction v)
  case (RMap entries)
  then show ?case by (auto intro!: serialize_map_ok)
next
  case (Attribute data attributes)
  then show ?case by (auto intro!: serialize_map_ok)
qed (auto simp: serialize_array_def serialize_f64_def serialize_bytes_def serialize_string_def list_all_iff)

section \<open>What a client can recover\<close>

text \<open>
  Replies of the plain protocol: nothing, integers, bulk strings and arrays of these. A client that
  knows the encoding it asked for decodes them again, with its own base64 decoder.
\<close>

primrec plain_reply :: "redis_value \<Rightarrow> bool" where
  "plain_reply RNil = True"
| "plain_reply (RInt _) = True"
| "plain_reply (BulkString _) = True"
| "plain_reply (Array vs) = list_all id (map plain_reply vs)"
| "plain_reply (SimpleString _) = False"
| "plain_reply Okay = False"
| "plain_reply (RMap _) = False"
| "plain_reply (Attribute _ _) = False"
| "plain_reply (RSet _) = False"
| "plain_reply (Double _) = False"
| "plain_reply (Boolean _) = False"
| "plain_reply (VerbatimString _ _) = False"
| "plain_reply (BigNumber _) = False"
| "plain_reply (Push _ _) = False"
| "plain_reply (ServerError _) = False"
| "plain_reply UnknownVariant = False"

fun all_some :: "'a option list \<Rightarrow> 'a list option" where
  "all_some [] = Some []"
| "all_some (None # _) = None"
| "all_some (Some x # xs) = map_option ((#) x) (all_some xs)"

lemma all_some_map: "all_some (map Some xs) = Some xs"
  by (induction xs) simp_all

definition decode_binary :: "(string \<Rightarrow> bytes option) \<Rightarrow> (string \<times> ser) list \<Rightarrow> redis_value option" where
  "decode_binary dec es =
     (case map_of es ''value'' of
        Some (SStr s) \<Rightarrow> if map_of es ''type'' = Some (SStr ''binary'') then map_option BulkString (dec s) else None
      | _ \<Rightarrow> None)"

primrec decode :: "(string \<Rightarrow> bytes option) \<Rightarrow> bool \<Rightarrow> ser \<Rightarrow> redis_value option" where
  "decode dec b SNone = Some RNil"
| "decode dec b (SI64 i) = Some (RInt i)"
| "decode dec b (SF64 _) = None"
| "decode dec b (SBool _) = None"
| "decode dec b (SStr s) = map_option BulkString (if b then dec s else Some s)"
| "decode dec b (SSeq _ xs) = map_option Array (all_some (map (decode dec b) xs))"
| "decode dec b (SMap _ es) = decode_binary dec es"

lemma decode_plain:
  assumes "\<And>bs. dec (base64_encode C bs) = Some bs"
  shows "plain_reply v \<Longrightarrow> decode dec b (serialize_redis C b v) = Some v"
proof (induction v)
  case (Array vs)
  then have "map (decode dec b) (map (serialize_redis C b) vs) = map Some vs"
    by (auto simp: list_all_iff)
  then show ?case by (simp add: serialize_array_def all_some_map del: map_map map_eq_conv)
qed (simp_all add: serialize_bytes_def decode_binary_def assms)

fun decode_item :: "(string \<Rightarrow> bytes option) \<Rightarrow> bool \<Rightarrow> ser \<Rightarrow> redis_response option" where
  "decode_item dec b (SMap _ [(k, s)]) =
     (if k = ''result'' then map_option Result (decode dec b s)
      else if k = ''error'' then (case s of SStr e \<Rightarrow> Some (ResponseError e) | _ \<Rightarrow> None) else None)"
| "decode_item dec b _ = None"

fun decode_items :: "(string \<Rightarrow> bytes option) \<Rightarrow> bool \<Rightarrow> ser \<Rightarrow> redis_response list option" where
  "decode_items dec b (SSeq _ xs) = all_some (map (decode_item dec b) xs)"
| "decode_items dec b _ = None"

fun plain_item :: "redis_response \<Rightarrow> bool" where
  "plain_item (Result v) = plain_reply v"
| "plain_item (ResponseError _) = True"

section \<open>Properties\<close>

text \<open>C34: Every reply of Redis, of whatever shape, serialises into well-formed calls: each array and object
  announces exactly the number of elements it writes, the keys of every object are distinct, and only
  finite doubles are written as numbers. This holds for the responses of all three routes.\<close>
theorem responses_serialize_wellformed:
  "ser_ok (CommandResponse_serialize C b v) \<and> ser_ok (PipelineResponse_serialize C b items) \<and>
   ser_ok (TransactionResponse_serialize C b vs)"
proof -
  have "ser_ok (CommandResponse_serialize C b v)" for v
    by (simp add: CommandResponse_serialize_def serialize_redis_ok)
  moreover have "ser_ok (PipelineItem_serialize C b i)" for i
    by (cases i) (simp_all add: serialize_redis_ok)
  ultimately show ?thesis
    by (simp add: PipelineResponse_serialize_def TransactionResponse_serialize_def list_all_iff)
qed

text \<open>C33: A client with a base64 decoder recovers from a pipeline response every plain reply of the
  pipeline, bulk strings with arbitrary bytes included, in the order of the commands, each error with its
  own text at its own position, in both encodings.\<close>
theorem pipeline_response_roundtrip:
  assumes "\<And>bs. dec (base64_encode C bs) = Some bs" and "list_all plain_item items"
  shows "decode_items dec b (PipelineResponse_serialize C b items) = Some items"
proof -
  have "decode_item dec b (PipelineItem_serialize C b i) = Some i" if "i \<in> set items" for i
    using that assms(2) decode_plain [OF assms(1)] by (induction i) (auto simp: list_all_iff)
  then have "map (decode_item dec b) (map (PipelineItem_serialize C b) items) = map Some items"
    by simp
  then show ?thesis
    by (simp add: PipelineResponse_serialize_def all_some_map del: map_map map_eq_conv)
qed

theorem pipeline_response_roundtrip_witness:
  "decode_items Some False (PipelineResponse_serialize \<lparr>base64_encode = id, f64_text = (\<lambda>_. [])\<rparr> False
     [Result (BulkString ''v''), ResponseError ''ERR x'', Result (Array [RNil, RInt 3])]) =
   Some [Result (BulkString ''v''), ResponseError ''ERR x'', Result (Array [RNil, RInt 3])]"
  by (rule pipeline_response_roundtrip) simp_all

text \<open>No two bulk strings serialise alike in the same encoding, with an injective base64: bytes
  that are not UTF-8 are never confused with text.\<close>
theorem bulk_strings_distinguished:
  assumes "inj (base64_encode C)"
  shows "serialize_redis C b (BulkString x) = serialize_redis C b (BulkString y) \<longleftrightarrow> x = y"
  using assms by (auto simp: serialize_bytes_def dest: injD)

theorem bulk_strings_distinguished_witness:
  "serialize_redis \<lparr>base64_encode = id, f64_text = (\<lambda>_. [])\<rparr> True (BulkString ''a'') \<noteq>
   serialize_redis \<lparr>base64_encode = id, f64_text = (\<lambda>_. [])\<rparr> True (BulkString ''b'')"
  using bulk_strings_distinguished [of "\<lparr>base64_encode = id, f64_text = (\<lambda>_. [])\<rparr>" True "''a''" "''b''"]
  by simp

text \<open>C35: A Redis map becomes a JSON object exactly when every key has a text form and no two keys have the
  same one, and then the object has these keys in order, one entry per entry of the map; any other map
  becomes the list of its key-value pairs, so no entry is lost or overwritten in either form.\<close>
theorem map_serialization_complete:
  "serialize_redis C b (RMap entries) =
     (if (\<forall>(k, v) \<in> set entries. object_key C b k \<noteq> None) \<and>
         distinct (map (\<lambda>(k, v). object_key C b k) entries)
      then SMap (length entries)
        (map (\<lambda>(k, v). (the (object_key C b k), serialize_redis C b v)) entries)
      else SMap 2 [(''type'', SStr ''map''), (''value'', SSeq (length entries)
        (map (\<lambda>(k, v). SSeq 2 [serialize_redis C b k, serialize_redis C b v]) entries))])"
proof (cases "object_keys C b entries")
  case None
  have "\<not> ((\<forall>(k, v) \<in> set entries. object_key C b k \<noteq> None) \<and>
      distinct (map (\<lambda>(k, v). object_key C b k) entries))"
  proof
    assume A: "(\<forall>(k, v) \<in> set entries. object_key C b k \<noteq> None) \<and>
      distinct (map (\<lambda>(k, v). object_key C b k) entries)"
    let ?ks = "map (\<lambda>(k, v). the (object_key C b k)) entries"
    have m: "map (\<lambda>e. object_key C b (fst e)) entries = map Some ?ks" using A by auto
    then have "distinct (map Some ?ks)" using A by (simp only: m [symmetric]) (simp add: case_prod_unfold)
    then have "distinct ?ks" by (simp only: distinct_map)
    then have "object_keys C b entries = Some ?ks" unfolding object_keys_Some using m by blast
    then show False using None by simp
  qed
  from if_not_P [OF this] show ?thesis
    by (rule ssubst) (use None in \<open>simp add: serialize_map_def RedisMapPairs_serialize_def RedisPair_serialize_def comp_def
        case_prod_unfold\<close>)
next
  case (Some ks)
  then have m: "map (\<lambda>e. object_key C b (fst e)) entries = map Some ks" and d: "distinct ks"
    by (simp_all add: object_keys_Some)
  have ks: "ks = map (\<lambda>(k, v). the (object_key C b k)) entries"
    using arg_cong [OF m, of "map the"] by (simp add: comp_def case_prod_unfold)
  have "distinct (map Some ks)" using d by (simp add: distinct_map)
  then have "distinct (map (\<lambda>(k, v). object_key C b k) entries)" using m by (simp add: case_prod_unfold)
  moreover have "\<forall>(k, v) \<in> set entries. object_key C b k \<noteq> None"
    using m by (fastforce simp: map_eq_conv ks case_prod_unfold)
  ultimately show ?thesis
    using Some by (simp only: if_P simp_thms) (simp add: serialize_map_def ks zip_map_map comp_def zip_same_conv_map case_prod_unfold)
qed

theorem map_serialization_complete_witness:
  "serialize_redis \<lparr>base64_encode = id, f64_text = (\<lambda>_. [])\<rparr> False (RMap [(RInt 1, RNil), (SimpleString ''1'', RInt 5)]) =
     SMap 2 [(''type'', SStr ''map''), (''value'', SSeq 2 [SSeq 2 [SI64 1, SNone], SSeq 2 [SStr ''1'', SI64 5]])]"
proof -
  have "show_int 1 = ''1''" by code_simp
  then show ?thesis
    unfolding map_serialization_complete by (simp add: serialize_string_def)
qed

end
