(* ===== verification/Redis_Error.thy ===== *)
theory Redis_Error
  imports Response
begin

text \<open>
  Errors of the Redis client library as API errors (\<^verbatim>\<open>src/redis/error.rs\<close>). A \<^verbatim>\<open>RedisError\<close> is what the
  bridge can observe of it: the answers of the library's predicates, its kind, its code and its text.
\<close>

datatype error_kind = AuthenticationFailed | InvalidClientConfig | OtherKind

record redis_error =
  is_io_error :: bool
  is_connection_dropped :: bool
  is_connection_refusal :: bool
  is_timeout :: bool
  err_kind :: error_kind
  err_code :: "string option"
  err_text :: string

definition backend_unavailable :: "redis_error \<Rightarrow> bool" where
  "backend_unavailable e =
     (if is_io_error e \<or> is_connection_dropped e \<or> is_connection_refusal e \<or> is_timeout e then True
      else if err_kind e \<in> {AuthenticationFailed, InvalidClientConfig} then True
      else case err_code e of
        Some code \<Rightarrow> code \<in> {''LOADING'', ''TRYAGAIN'', ''CLUSTERDOWN'', ''MASTERDOWN''}
      | None \<Rightarrow> False)"

definition strip_response_prefix :: "string \<Rightarrow> string" where
  "strip_response_prefix message =
     (case strip_prefix ''ResponseError: '' message of Some rest \<Rightarrow> rest | None \<Rightarrow> message)"

text \<open>\<^verbatim>\<open>split_once\<close> with a string pattern.\<close>

fun split_once_str :: "string \<Rightarrow> string \<Rightarrow> (string \<times> string) option" where
  "split_once_str p [] = (if p = [] then Some ([], []) else None)"
| "split_once_str p (c # s) =
     (case strip_prefix p (c # s) of
        Some rest \<Rightarrow> Some ([], rest)
      | None \<Rightarrow> map_option (\<lambda>(a, b). (c # a, b)) (split_once_str p s))"

definition redis_error_message :: "redis_error \<Rightarrow> string" where
  "redis_error_message e =
     (case err_code e of
        Some code \<Rightarrow>
          let message = strip_response_prefix (err_text e) in
          if prefix code message then message
          else (case split_once_str '': '' message of
                  Some (_, detail) \<Rightarrow> code @ '' '' @ detail
                | None \<Rightarrow> code @ '' '' @ message)
      | None \<Rightarrow> strip_response_prefix (err_text e))"

definition redis_api_error :: "redis_error \<Rightarrow> api_error" where
  "redis_api_error e =
     (if backend_unavailable e then unavailable ''Redis backend unavailable''
      else bad_request (redis_error_message e))"

section \<open>Properties\<close>

lemma split_once_str_label:
  "CHR '':'' \<notin> set label \<Longrightarrow> split_once_str '': '' (label @ '': '' @ detail) = Some (label, detail)"
  by (induction label) auto

lemma strip_other_label:
  assumes "CHR '':'' \<notin> set label" and "label \<noteq> ''ResponseError''"
  shows "strip_response_prefix (label @ '': '' @ detail) = label @ '': '' @ detail"
proof -
  have "strip_prefix ''ResponseError: '' (label @ '': '' @ detail) = None"
  proof (rule ccontr)
    assume "strip_prefix ''ResponseError: '' (label @ '': '' @ detail) \<noteq> None"
    then obtain r where "label @ CHR '':'' # '' '' @ detail = ''ResponseError'' @ CHR '':'' # '' '' @ r"
      using strip_prefix_Some [of "''ResponseError: ''" "label @ '': '' @ detail"] by auto
    then have "split_once CHR '':'' (label @ CHR '':'' # '' '' @ detail) = Some (''ResponseError'', '' '' @ r)"
      by simp
    then have "label = ''ResponseError''"
      using assms(1) split_once_Some [of "CHR '':''" _ label "'' '' @ detail"] by (metis Pair_inject option.inject)
    then show False using assms(2) by simp
  qed
  then show ?thesis by (simp add: strip_response_prefix_def)
qed

text \<open>The message for an error with a code begins with that code. A text of label, colon and detail
  becomes the code and the detail, so the label of the library does not reach the client, unless the
  text begins with the code already; a text the library labels as a response error is passed on
  without the label when it begins with the code.\<close>
theorem error_message_starts_with_code:
  assumes "err_code e = Some code"
  shows "prefix code (redis_error_message e) \<and>
    (\<forall>label detail. err_text e = label @ '': '' @ detail \<and> CHR '':'' \<notin> set label \<and>
       label \<noteq> ''ResponseError'' \<and> \<not> prefix code (err_text e) \<longrightarrow>
       redis_error_message e = code @ '' '' @ detail) \<and>
    (\<forall>m. err_text e = ''ResponseError: '' @ m \<and> prefix code m \<longrightarrow> redis_error_message e = m)"
proof (intro conjI allI impI)
  show "prefix code (redis_error_message e)"
    using assms by (auto simp: redis_error_message_def Let_def split: option.splits)
  show "redis_error_message e = code @ '' '' @ detail"
    if "err_text e = label @ '': '' @ detail \<and> CHR '':'' \<notin> set label \<and>
       label \<noteq> ''ResponseError'' \<and> \<not> prefix code (err_text e)" for label detail
    using that assms strip_other_label [of label detail] split_once_str_label [of label detail]
    by (auto simp: redis_error_message_def Let_def)
  show "redis_error_message e = m" if "err_text e = ''ResponseError: '' @ m \<and> prefix code m" for m
    using that assms by (simp add: redis_error_message_def strip_response_prefix_def Let_def)
qed

definition sample_error :: redis_error where
  "sample_error = \<lparr>is_io_error = False, is_connection_dropped = False, is_connection_refusal = False,
     is_timeout = False, err_kind = OtherKind, err_code = Some ''WRONGTYPE'',
     err_text = ''An error was signalled: bad type''\<rparr>"

theorem error_message_starts_with_code_witness:
  "redis_error_message sample_error = ''WRONGTYPE bad type''"
proof -
  have "err_code sample_error = Some ''WRONGTYPE''"
    and t: "err_text sample_error = ''An error was signalled'' @ '': '' @ ''bad type'' \<and>
      CHR '':'' \<notin> set ''An error was signalled'' \<and> ''An error was signalled'' \<noteq> ''ResponseError'' \<and>
      \<not> prefix ''WRONGTYPE'' (err_text sample_error)"
    by (simp_all add: sample_error_def)
  from error_message_starts_with_code [OF this(1)] t
  have "redis_error_message sample_error = ''WRONGTYPE'' @ '' '' @ ''bad type''" by blast
  then show ?thesis by simp
qed

text \<open>An error of the client library is answered either as unavailable, with a fixed message that says
  nothing of the backend, or as a bad request with the message Redis gave; it is unavailable for every
  connection problem and never for an error that only has a command's own code.\<close>
theorem redis_api_error_cases:
  "(redis_api_error e = \<lparr>ae_status = 503, ae_message = ''Redis backend unavailable''\<rparr> \<and>
      backend_unavailable e \<or>
    redis_api_error e = \<lparr>ae_status = 400, ae_message = redis_error_message e\<rparr> \<and>
      err_code e \<notin> {Some ''LOADING'', Some ''TRYAGAIN'', Some ''CLUSTERDOWN'', Some ''MASTERDOWN''} \<and>
      \<not> is_io_error e \<and> \<not> is_connection_dropped e \<and> \<not> is_connection_refusal e \<and> \<not> is_timeout e \<and>
      err_kind e = OtherKind)"
  by (cases "err_kind e")
    (auto simp: redis_api_error_def backend_unavailable_def model_defs split: option.splits)

end
