(* ===== verification/Execute.thy ===== *)
theory Execute
  imports App_State Redis_Value Redis_Error
begin

text \<open>
  Executing Redis operations (\<^verbatim>\<open>src/redis/execute.rs\<close>): an operation waits for a permit of its target, then for
  a connection, then for Redis, all within the request timeout, and reports its outcome to the
  metrics whichever way it ends. What each wait ends with comes from outside, so it is the input
  of the model; what is sent to Redis is part of its result.
\<close>

section \<open>What is sent\<close>

text \<open>The calls on the Redis library: one command, or a pipeline with its two switches.\<close>

type_synonym wire_command = "string \<times> bytes list"

record redis_pipe =
  p_atomic :: bool
  p_ignore_errors :: bool
  p_commands :: "wire_command list"

datatype wire = WireCommand wire_command | WirePipe redis_pipe

definition cmd_of :: "redis_command \<Rightarrow> wire_command" where
  "cmd_of c = foldl (\<lambda>(name, args) arg. (name, args @ [arg])) (rc_name c, []) (rc_args c)"

fun pipe_arg :: "bytes \<Rightarrow> redis_pipe \<Rightarrow> redis_pipe" where
  "pipe_arg arg p =
     (case rev (p_commands p) of
        [] \<Rightarrow> p
      | (name, args) # before \<Rightarrow> p\<lparr>p_commands := rev before @ [(name, args @ [arg])]\<rparr>)"

definition pipe_cmd :: "string \<Rightarrow> redis_pipe \<Rightarrow> redis_pipe" where
  "pipe_cmd name p = p\<lparr>p_commands := p_commands p @ [(name, [])]\<rparr>"

fun append_commands :: "redis_pipe \<Rightarrow> redis_command list \<Rightarrow> redis_pipe" where
  "append_commands p [] = p"
| "append_commands p (c # cs) =
     append_commands (foldl (\<lambda>q arg. pipe_arg arg q) (pipe_cmd (rc_name c) p) (rc_args c)) cs"

definition new_pipe :: redis_pipe where
  "new_pipe = \<lparr>p_atomic = False, p_ignore_errors = False, p_commands = []\<rparr>"

section \<open>An operation and its waits\<close>

text \<open>
  A wait completes, or the request timeout fires first, or the request is abandoned because its
  client has gone.
\<close>

datatype 'a wait = Completes 'a | Elapses | Abandoned

datatype acquired = Permit | AcquireTimeout | LimiterClosed

text \<open>The outcome of each wait of one operation; the answer of Redis depends on what was sent.\<close>

record 'a weather =
  on_acquire :: "acquired wait"
  on_connection :: "conn option wait"
  on_redis :: "conn \<Rightarrow> wire \<Rightarrow> (redis_error, 'a) result wait"

text \<open>The future inside the request timeout: its result, and what it sent.\<close>

definition operation_future ::
    "'a weather \<Rightarrow> wire \<Rightarrow> ('a \<Rightarrow> 'b) \<Rightarrow> (api_error, 'b) result wait \<times> wire list" where
  "operation_future W w f =
     (case on_acquire W of
        Elapses \<Rightarrow> (Elapses, [])
      | Abandoned \<Rightarrow> (Abandoned, [])
      | Completes AcquireTimeout \<Rightarrow>
          (Completes (Err (too_many_requests ''Redis operation capacity exhausted'')), [])
      | Completes LimiterClosed \<Rightarrow> (Completes (Err (unavailable ''Redis backend unavailable'')), [])
      | Completes Permit \<Rightarrow>
          (case on_connection W of
             Elapses \<Rightarrow> (Elapses, [])
           | Abandoned \<Rightarrow> (Abandoned, [])
           | Completes None \<Rightarrow> (Completes (Err (unavailable ''Redis backend unavailable'')), [])
           | Completes (Some c) \<Rightarrow>
               (case on_redis W c w of
                  Elapses \<Rightarrow> Elapses
                | Abandoned \<Rightarrow> Abandoned
                | Completes (Inl e) \<Rightarrow> Completes (Err (redis_api_error e))
                | Completes (Inr x) \<Rightarrow> Completes (Ok (f x)), [w])))"

definition execute_operation ::
    "string \<Rightarrow> string \<Rightarrow> string \<Rightarrow> 'a weather \<Rightarrow> wire \<Rightarrow> ('a \<Rightarrow> 'b) \<Rightarrow> metrics \<Rightarrow>
       (api_error, 'b) result option \<times> wire list \<times> metrics" where
  "execute_operation target operation_name timeout_message W w f M =
     (let (guard, M1) = begin_operation target operation_name M;
          (result, sent) = operation_future W w f in
      case result of
        Completes (Inr x) \<Rightarrow> (Some (Ok x), sent, Guard_success guard M1)
      | Completes (Inl e) \<Rightarrow> (Some (Err e), sent, Guard_error guard M1)
      | Elapses \<Rightarrow> (Some (Err (ApiError_timeout timeout_message)), sent, Guard_timeout guard M1)
      | Abandoned \<Rightarrow> (None, sent, Guard_drop guard M1))"

definition execute_command ::
    "string \<Rightarrow> redis_command \<Rightarrow> redis_value weather \<Rightarrow> metrics \<Rightarrow>
       (api_error, redis_value) result option \<times> wire list \<times> metrics" where
  "execute_command target command W M =
     execute_operation target ''command'' ''Redis command timed out'' W (WireCommand (cmd_of command))
       (\<lambda>value. value) M"

fun pipeline_item :: "(redis_error, redis_value) result \<Rightarrow> redis_response" where
  "pipeline_item (Inr value) = Result value"
| "pipeline_item (Inl error) = ResponseError (redis_error_message error)"

definition execute_pipeline ::
    "string \<Rightarrow> redis_command list \<Rightarrow> (redis_error, redis_value) result list weather \<Rightarrow> metrics \<Rightarrow>
       (api_error, redis_response list) result option \<times> wire list \<times> metrics" where
  "execute_pipeline target commands W M =
     execute_operation target ''pipeline'' ''Redis pipeline timed out'' W
       (WirePipe ((append_commands new_pipe commands)\<lparr>p_ignore_errors := True\<rparr>))
       (map pipeline_item) M"

definition execute_transaction ::
    "string \<Rightarrow> redis_command list \<Rightarrow> redis_value list weather \<Rightarrow> metrics \<Rightarrow>
       (api_error, redis_value list) result option \<times> wire list \<times> metrics" where
  "execute_transaction target commands W M =
     execute_operation target ''multi_exec'' ''Redis transaction timed out'' W
       (WirePipe (append_commands (new_pipe\<lparr>p_atomic := True\<rparr>) commands)) (\<lambda>values. values) M"

section \<open>What is sent is what was parsed\<close>

lemma cmd_of_eq: "cmd_of c = (rc_name c, rc_args c)"
proof -
  have "foldl (\<lambda>(name, args) arg. (name, args @ [arg])) (n, xs) ys = (n, xs @ ys)"
    for n :: string and xs ys :: "bytes list"
    by (induction ys arbitrary: xs) auto
  then show ?thesis by (simp add: cmd_of_def)
qed

lemma foldl_pipe_arg:
  "foldl (\<lambda>q arg. pipe_arg arg q) (p\<lparr>p_commands := cs @ [(n, xs)]\<rparr>) ys =
     p\<lparr>p_commands := cs @ [(n, xs @ ys)]\<rparr>"
  by (induction ys arbitrary: xs) simp_all

lemma append_commands_eq:
  "append_commands p cs = p\<lparr>p_commands := p_commands p @ map (\<lambda>c. (rc_name c, rc_args c)) cs\<rparr>"
proof (induction cs arbitrary: p)
  case Nil
  then show ?case by simp
next
  case (Cons c cs)
  have "foldl (\<lambda>q arg. pipe_arg arg q) (pipe_cmd (rc_name c) p) (rc_args c) =
      p\<lparr>p_commands := p_commands p @ [(rc_name c, rc_args c)]\<rparr>"
    using foldl_pipe_arg [where p = p and cs = "p_commands p" and n = "rc_name c" and xs = "[]"] by (simp add: pipe_cmd_def)
  then show ?case using Cons by simp
qed

fun wire_commands :: "wire \<Rightarrow> wire_command list" where
  "wire_commands (WireCommand c) = [c]"
| "wire_commands (WirePipe p) = p_commands p"

text \<open>The metrics are written and never read: neither the result nor what is sent depends on them.\<close>

lemma execute_operation_pure:
  assumes "execute_operation t n m W w f M = (r, sent, M')"
  shows "\<exists>M1. execute_operation t n m W w f M0 = (r, sent, M1)"
  using assms by (auto simp: execute_operation_def Let_def begin_operation_def split: prod.splits wait.splits sum.splits)

lemma operation_future_sent: "snd (operation_future W w f) = [] \<or> snd (operation_future W w f) = [w]"
  by (simp add: operation_future_def split: wait.splits acquired.splits option.splits)

lemma execute_operation_sent:
  "execute_operation t n m W w f M = (r, sent, M') \<Longrightarrow> sent = [] \<or> sent = [w]"
  using operation_future_sent [of W w f]
  by (auto simp: execute_operation_def Let_def split: prod.splits wait.splits sum.splits)

section \<open>Permits\<close>

text \<open>
  All operations of one target at a time: each is waiting for a permit, holds one, has given it back
  while its guard is still open, or is over. The permit is dropped with the future inside the
  timeout, before the guard is closed.
\<close>

datatype op_phase = Queued | Running | Released | Over

record op_state =
  op_permits :: nat
  op_list :: "(guard \<times> op_phase) list"
  op_metrics :: metrics

definition acquire_operation :: "op_state \<Rightarrow> op_state option" where
  "acquire_operation s = (if op_permits s = 0 then None else Some (s\<lparr>op_permits := op_permits s - 1\<rparr>))"

inductive op_step :: "string \<Rightarrow> op_state \<Rightarrow> op_state \<Rightarrow> bool" for target where
  op_begin: "begin_operation target kind (op_metrics s) = (g, M) \<Longrightarrow>
    op_step target s (s\<lparr>op_list := op_list s @ [(g, Queued)], op_metrics := M\<rparr>)"
| op_acquire: "i < length (op_list s) \<Longrightarrow> op_list s ! i = (g, Queued) \<Longrightarrow>
    acquire_operation s = Some s' \<Longrightarrow>
    op_step target s (s'\<lparr>op_list := (op_list s)[i := (g, Running)]\<rparr>)"
| op_give_up: "i < length (op_list s) \<Longrightarrow> op_list s ! i = (g, Queued) \<Longrightarrow> c \<noteq> Succeeded \<Longrightarrow>
    op_step target s (s\<lparr>op_list := (op_list s)[i := (g, Over)],
      op_metrics := close_operation c g (op_metrics s)\<rparr>)"
| op_release: "i < length (op_list s) \<Longrightarrow> op_list s ! i = (g, Running) \<Longrightarrow>
    op_step target s (s\<lparr>op_permits := op_permits s + 1, op_list := (op_list s)[i := (g, Released)]\<rparr>)"
| op_close: "i < length (op_list s) \<Longrightarrow> op_list s ! i = (g, Released) \<Longrightarrow>
    op_step target s (s\<lparr>op_list := (op_list s)[i := (g, Over)],
      op_metrics := close_operation c g (op_metrics s)\<rparr>)"

inductive op_reach :: "redis_target \<Rightarrow> metrics \<Rightarrow> op_state \<Rightarrow> bool" for t M where
  op_start: "op_reach t M \<lparr>op_permits = t_permits t, op_list = [], op_metrics = M\<rparr>"
| op_next: "op_reach t M s \<Longrightarrow> op_step (target_id t) s s' \<Longrightarrow> op_reach t M s'"

definition running :: "op_state \<Rightarrow> nat" where
  "running s = length (filter (\<lambda>p. snd p = Running) (op_list s))"

definition alive :: "op_state \<Rightarrow> guard list" where
  "alive s = map fst (filter (\<lambda>p. snd p \<noteq> Over) (op_list s))"

text \<open>How replacing one element changes a count.\<close>

lemma filter_update_length:
  "i < length xs \<Longrightarrow>
   length (filter P (xs[i := y])) + of_bool (P (xs ! i)) = length (filter P xs) + of_bool (P y)"
proof (induction xs arbitrary: i)
  case (Cons x xs)
  then show ?case by (cases i) auto
qed simp

lemma op_step_permits: "op_step target s s' \<Longrightarrow> op_permits s' + running s' = op_permits s + running s"
proof (induction rule: op_step.induct)
  case (op_acquire i s g s')
  then show ?case
    using filter_update_length [of i "op_list s" "\<lambda>p. snd p = Running" "(g, Running)"]
    by (auto simp: running_def acquire_operation_def split: if_splits)
next
  case (op_give_up i s g c)
  then show ?case
    using filter_update_length [of i "op_list s" "\<lambda>p. snd p = Running" "(g, Over)"]
    by (simp add: running_def)
next
  case (op_release i s g)
  then show ?case
    using filter_update_length [of i "op_list s" "\<lambda>p. snd p = Running" "(g, Released)"]
    by (simp add: running_def)
next
  case (op_close i s g c)
  then show ?case
    using filter_update_length [of i "op_list s" "\<lambda>p. snd p = Running" "(g, Over)"]
    by (simp add: running_def)
qed (simp add: running_def)

lemma op_reach_permits: "op_reach t M s \<Longrightarrow> op_permits s + running s = t_permits t"
  by (induction rule: op_reach.induct) (auto simp: running_def dest: op_step_permits)

section \<open>Properties\<close>

text \<open>The guards alive behave as the interface of the metrics says, so the gauge counts them.\<close>

lemma map_filter_update:
  assumes "i < length xs" and "xs ! i = (g, p)" and "P p" and "P q"
  shows "map fst (filter (\<lambda>x. P (snd x)) (xs[i := (g, q)])) = map fst (filter (\<lambda>x. P (snd x)) xs)"
proof -
  let ?f = "\<lambda>ys. map fst (filter (\<lambda>x. P (snd x)) ys)"
  have xs: "xs = take i xs @ (g, p) # drop (Suc i) xs" using assms(1,2) by (metis id_take_nth_drop)
  have "?f xs = ?f (take i xs) @ g # ?f (drop (Suc i) xs)"
    using arg_cong [OF xs, of ?f] assms(3) by simp
  then show ?thesis
    using upd_conv_take_nth_drop [OF assms(1), of "(g, q)"] assms(4) by simp
qed

lemma filter_update_drop:
  assumes "i < length xs" and "xs ! i = (g, p)" and "P p" and "\<not> P q"
  shows "\<exists>k < length (map fst (filter (\<lambda>x. P (snd x)) xs)).
    map fst (filter (\<lambda>x. P (snd x)) xs) ! k = g \<and>
    map fst (filter (\<lambda>x. P (snd x)) (xs[i := (g, q)])) =
      take k (map fst (filter (\<lambda>x. P (snd x)) xs)) @ drop (Suc k) (map fst (filter (\<lambda>x. P (snd x)) xs))"
proof -
  let ?f = "\<lambda>ys. map fst (filter (\<lambda>x. P (snd x)) ys)"
  have xs: "xs = take i xs @ (g, p) # drop (Suc i) xs" using assms(1,2) by (metis id_take_nth_drop)
  have f: "?f xs = ?f (take i xs) @ g # ?f (drop (Suc i) xs)"
    using arg_cong [OF xs, of ?f] assms(3) by simp
  have "?f (xs[i := (g, q)]) = ?f (take i xs) @ ?f (drop (Suc i) xs)"
    using upd_conv_take_nth_drop [OF assms(1), of "(g, q)"] assms(4) by simp
  moreover obtain A B where "A = ?f (take i xs)" "B = ?f (drop (Suc i) xs)" by blast
  ultimately show ?thesis using f by (intro exI [of _ "length A"]) (simp add: nth_append)
qed

lemma op_step_guards:
  assumes "op_step target s s'"
    and "guards_run open_operation close_operation redis_operations_inflight M0 (alive s) (op_metrics s)"
  shows "guards_run open_operation close_operation redis_operations_inflight M0 (alive s') (op_metrics s')"
  using assms(1)
proof cases
  case (op_begin kind g M)
  have "open_operation (target, kind) (op_metrics s) = (g, M)"
    using op_begin(2) by (simp add: open_operation_def)
  from run_open [OF assms(2) this] show ?thesis by (simp add: op_begin(1) alive_def)
next
  case (op_acquire i g s1)
  then have "alive s' = alive s" and "op_metrics s' = op_metrics s"
    using map_filter_update [of i "op_list s" g Queued "\<lambda>p. p \<noteq> Over" Running]
    by (auto simp: alive_def acquire_operation_def split: if_splits)
  then show ?thesis using assms(2) by simp
next
  case (op_give_up i g c)
  then obtain k where "k < length (alive s)" "alive s ! k = g"
      "alive s' = take k (alive s) @ drop (Suc k) (alive s)"
    using filter_update_drop [of i "op_list s" g Queued "\<lambda>p. p \<noteq> Over" Over] by (auto simp: alive_def)
  then show ?thesis using run_close [OF assms(2), of k c] op_give_up(1) by simp
next
  case (op_release i g)
  then have "alive s' = alive s" and "op_metrics s' = op_metrics s"
    using map_filter_update [of i "op_list s" g Running "\<lambda>p. p \<noteq> Over" Released]
    by (auto simp: alive_def)
  then show ?thesis using assms(2) by simp
next
  case (op_close i g c)
  then obtain k where "k < length (alive s)" "alive s ! k = g"
      "alive s' = take k (alive s) @ drop (Suc k) (alive s)"
    using filter_update_drop [of i "op_list s" g Released "\<lambda>p. p \<noteq> Over" Over] by (auto simp: alive_def)
  then show ?thesis using run_close [OF assms(2), of k c] op_close(1) by simp
qed

lemma op_reach_guards:
  "op_reach t M s \<Longrightarrow>
   guards_run open_operation close_operation redis_operations_inflight M (alive s) (op_metrics s)"
proof (induction rule: op_reach.induct)
  case op_start
  then show ?case by (simp add: alive_def run_start)
next
  case (op_next s s')
  then show ?case using op_step_guards by blast
qed

text \<open>C12: At every moment, however the operations of a target interleave and however each of them ends, at
  most \<^verbatim>\<open>operation_limit\<close> of them hold a permit and use Redis, no permit is lost or gained, and the
  in-flight gauge has grown by exactly the operations that are not over.\<close>
theorem operation_limit_enforced:
  assumes "op_reach t M s" and "t_permits t = operation_limit (t_config t)"
  shows "running s \<le> operation_limit (t_config t) \<and>
    op_permits s = operation_limit (t_config t) - running s \<and>
    gauge_value (op_metrics s) redis_operations_inflight [target_id t, kind] =
      gauge_value M redis_operations_inflight [target_id t, kind] +
        int (length (filter (\<lambda>g. operation_labels g = [target_id t, kind]) (alive s)))"
  using op_reach_permits [OF assms(1)] assms(2)
    operations.gauge_counts_alive [OF op_reach_guards [OF assms(1)]]
  by auto

theorem operation_limit_enforced_witness:
  "running \<lparr>op_permits = 1, op_list = [(Guard_new ''t'' ''command'', Running)],
     op_metrics = [Inc redis_operations_inflight [''t'', ''command'']]\<rparr> \<le> 2"
proof -
  let ?g = "Guard_new ''t'' ''command''" and ?M = "[Inc redis_operations_inflight [''t'', ''command'']]"
  have "op_step (target_id sample_target) \<lparr>op_permits = t_permits sample_target, op_list = [], op_metrics = []\<rparr>
      \<lparr>op_permits = 2, op_list = [(?g, Queued)], op_metrics = ?M\<rparr>"
    using op_begin [of "target_id sample_target" "''command''"
        "\<lparr>op_permits = t_permits sample_target, op_list = [], op_metrics = []\<rparr>" ?g ?M]
    by (simp add: sample_target_def RedisTarget_new_def sample_config_def target_id_def begin_operation_def)
  from op_next [OF op_start this]
  have "op_reach sample_target [] \<lparr>op_permits = 2, op_list = [(?g, Queued)], op_metrics = ?M\<rparr>" .
  moreover have "op_step (target_id sample_target)
      \<lparr>op_permits = 2, op_list = [(?g, Queued)], op_metrics = ?M\<rparr>
      \<lparr>op_permits = 1, op_list = [(?g, Running)], op_metrics = ?M\<rparr>"
    using op_acquire [where i = 0 and g = ?g and target = "target_id sample_target" and
        s = "\<lparr>op_permits = 2, op_list = [(?g, Queued)], op_metrics = ?M\<rparr>" and
        s' = "\<lparr>op_permits = 1, op_list = [(?g, Queued)], op_metrics = ?M\<rparr>"]
    by (simp add: acquire_operation_def)
  ultimately have "op_reach sample_target [] \<lparr>op_permits = 1, op_list = [(?g, Running)], op_metrics = ?M\<rparr>"
    by (rule op_next)
  from operation_limit_enforced [OF this] show ?thesis
    by (simp add: sample_target_def RedisTarget_new_def sample_config_def)
qed

text \<open>C20: An operation answers exactly as the first of its waits that does not lead on says. It returns the value
  if and only if permit, connection and Redis all gave one; it answers 429 exactly when no permit came in time, 503
  exactly when the limiter is closed, there is no connection, or Redis answered with an error that says the
  backend is unavailable, 400 with the message of Redis exactly for its other errors, and 504 with the message
  of the operation exactly when the request timeout fired during one of the waits that was reached; it has no result
  exactly when its client left during one of them. The command is sent, once, if and only if
  both permit and connection were obtained, and otherwise nothing is.\<close>
theorem operation_outcomes:
  assumes "execute_operation target kind msg W w f M = (r, sent, M')"
  shows "sent = (if on_acquire W = Completes Permit \<and> (\<exists>c. on_connection W = Completes (Some c)) then [w] else []) \<and>
    (\<forall>x. r = Some (Ok x) \<longleftrightarrow> on_acquire W = Completes Permit \<and>
      (\<exists>c y. on_connection W = Completes (Some c) \<and> on_redis W c w = Completes (Ok y) \<and> x = f y)) \<and>
    (\<forall>e. r = Some (Err e) \<longleftrightarrow>
      on_acquire W = Completes AcquireTimeout \<and>
        e = \<lparr>ae_status = 429, ae_message = ''Redis operation capacity exhausted''\<rparr> \<or>
      (on_acquire W = Completes LimiterClosed \<or>
       on_acquire W = Completes Permit \<and> on_connection W = Completes None \<or>
       on_acquire W = Completes Permit \<and> (\<exists>c re. on_connection W = Completes (Some c) \<and>
         on_redis W c w = Completes (Err re) \<and> backend_unavailable re)) \<and>
        e = \<lparr>ae_status = 503, ae_message = ''Redis backend unavailable''\<rparr> \<or>
      on_acquire W = Completes Permit \<and> (\<exists>c re. on_connection W = Completes (Some c) \<and>
        on_redis W c w = Completes (Err re) \<and> \<not> backend_unavailable re \<and>
        e = \<lparr>ae_status = 400, ae_message = redis_error_message re\<rparr>) \<or>
      (on_acquire W = Elapses \<or>
       on_acquire W = Completes Permit \<and> on_connection W = Elapses \<or>
       on_acquire W = Completes Permit \<and> (\<exists>c. on_connection W = Completes (Some c) \<and> on_redis W c w = Elapses)) \<and>
        e = \<lparr>ae_status = 504, ae_message = msg\<rparr>) \<and>
    (r = None \<longleftrightarrow>
      on_acquire W = Abandoned \<or>
      on_acquire W = Completes Permit \<and> on_connection W = Abandoned \<or>
      on_acquire W = Completes Permit \<and> (\<exists>c. on_connection W = Completes (Some c) \<and> on_redis W c w = Abandoned))"
proof -
  note defs = execute_operation_def operation_future_def begin_operation_def redis_api_error_def api_error_defs
  show ?thesis
  proof (cases "on_acquire W")
    case (Completes a)
    show ?thesis
    proof (cases a)
      case Permit
      show ?thesis
      proof (cases "on_connection W")
        case conn: (Completes oc)
        show ?thesis
        proof (cases oc)
          case None
          then show ?thesis using assms Completes Permit conn by (auto simp: defs)
        next
          case (Some c)
          show ?thesis
          proof (cases "on_redis W c w")
            case res: (Completes x)
            then show ?thesis using assms Completes Permit conn Some by (cases x) (auto simp: defs split: if_splits)
          qed (use assms Completes Permit conn Some in \<open>auto simp: defs\<close>)
        qed
      qed (use assms Completes Permit in \<open>auto simp: defs\<close>)
    qed (use assms Completes in \<open>auto simp: defs\<close>)
  qed (use assms in \<open>auto simp: defs\<close>)
qed

definition sample_weather :: "'a \<Rightarrow> 'a weather" where
  "sample_weather x = \<lparr>on_acquire = Completes Permit, on_connection = Completes (Some 7),
     on_redis = (\<lambda>_ _. Completes (Ok x))\<rparr>"

definition sample_saturated :: "redis_value weather" where
  "sample_saturated = (sample_weather Okay)\<lparr>on_acquire := Completes AcquireTimeout\<rparr>"

theorem operation_outcomes_witness:
  "\<exists>M'. execute_operation ''t'' ''command'' ''m'' sample_saturated (WireCommand (''GET'', [])) id [] =
      (Some (Err \<lparr>ae_status = 429, ae_message = ''Redis operation capacity exhausted''\<rparr>), [], M')"
proof -
  obtain r sent M' where e: "execute_operation ''t'' ''command'' ''m'' sample_saturated (WireCommand (''GET'', [])) id [] =
      (r, sent, M')"
    by (metis prod_cases3)
  have "on_acquire sample_saturated = Completes AcquireTimeout" by (simp add: sample_saturated_def)
  then have "sent = []" "r = Some (Err \<lparr>ae_status = 429, ae_message = ''Redis operation capacity exhausted''\<rparr>)"
    using operation_outcomes [OF e] by auto
  then show ?thesis using e by simp
qed

end
