(* ===== verification/Auth.thy ===== *)
theory Auth
  imports App_State
begin

text \<open>
  Authentication of requests (\<^verbatim>\<open>src/auth/request.rs\<close>). Every operation takes the state and the readings
  of the clock it makes, and returns its answer, or a panic, with the new state: metrics and lockout
  table change.
\<close>

section \<open>Operations\<close>

text \<open>\<open>now\<close> is the clock when the failure is recorded, \<open>later\<close> when the snapshot is taken.\<close>

record clock =
  now :: instant
  later :: instant

definition refresh_lockout_metrics :: "clock \<Rightarrow> app_state \<Rightarrow> unit outcome \<times> app_state" where
  "refresh_lockout_metrics clk S =
     (case snapshot_at (st_auth_lockout S) (later clk) of
        (Panic, L) \<Rightarrow> (Panic, S\<lparr>st_auth_lockout := L\<rparr>)
      | (Done snap, L) \<Rightarrow>
          (Done (), S\<lparr>st_auth_lockout := L,
                      st_metrics := set_lockout_state (tracked_ips snap) (locked_ips snap) (st_metrics S)\<rparr>))"

fun failure_metric :: "auth_failure \<Rightarrow> metrics \<Rightarrow> metrics" where
  "failure_metric Locked M = lockout_created M"
| "failure_metric AlreadyLocked M = locked_request M"
| "failure_metric EntryLimitReached M = lockout_entry_limit M"
| "failure_metric _ M = M"

fun failure_error :: "auth_failure \<Rightarrow> string \<Rightarrow> api_error" where
  "failure_error Locked message = too_many_requests ''Too many failed authentication attempts''"
| "failure_error AlreadyLocked message = too_many_requests ''Too many failed authentication attempts''"
| "failure_error _ message = ApiError_unauthorized message"

definition unauthorized :: "clock \<Rightarrow> ip_addr \<Rightarrow> string \<Rightarrow> app_state \<Rightarrow> api_error outcome \<times> app_state" where
  "unauthorized clk ip message S =
     (let S1 = S\<lparr>st_metrics := auth_failed (st_metrics S)\<rparr> in
      case record_failure_at (st_auth_lockout S1) ip (now clk) of
        (Panic, L) \<Rightarrow> (Panic, S1\<lparr>st_auth_lockout := L\<rparr>)
      | (Done f, L) \<Rightarrow>
          (case refresh_lockout_metrics clk
                  (S1\<lparr>st_auth_lockout := L, st_metrics := failure_metric f (st_metrics S1)\<rparr>) of
             (Panic, S2) \<Rightarrow> (Panic, S2)
           | (Done _, S2) \<Rightarrow> (Done (failure_error f message), S2)))"

text \<open>A refusal: the error of \<open>unauthorized\<close> as the result.\<close>

definition refuse :: "clock \<Rightarrow> ip_addr \<Rightarrow> string \<Rightarrow> app_state \<Rightarrow> (api_error, 'a) result outcome \<times> app_state" where
  "refuse clk ip message S =
     (case unauthorized clk ip message S of
        (Panic, S') \<Rightarrow> (Panic, S') | (Done e, S') \<Rightarrow> (Done (Err e), S'))"

definition bearer_token ::
    "clock \<Rightarrow> headers \<Rightarrow> ip_addr \<Rightarrow> app_state \<Rightarrow> (api_error, string) result outcome \<times> app_state" where
  "bearer_token clk headers ip S =
     (case headers ''authorization'' of
        None \<Rightarrow> refuse clk ip ''Invalid authorization header'' S
      | Some auth_header \<Rightarrow>
          (case split_once_ws auth_header of
             None \<Rightarrow> refuse clk ip ''Invalid authorization header'' S
           | Some (scheme, token) \<Rightarrow>
               if \<not> eq_ignore_ascii_case scheme ''Bearer'' \<or> trim token = []
               then refuse clk ip ''Invalid authorization header'' S
               else (Done (Ok (trim token)), S)))"

text \<open>The end of a successful authentication.\<close>

definition accept ::
    "clock \<Rightarrow> ip_addr \<Rightarrow> 'a \<Rightarrow> app_state \<Rightarrow> (api_error, 'a) result outcome \<times> app_state" where
  "accept clk ip x S =
     (case record_success (st_auth_lockout S) ip of
        (Panic, L) \<Rightarrow> (Panic, S\<lparr>st_auth_lockout := L\<rparr>)
      | (Done _, L) \<Rightarrow>
          (case refresh_lockout_metrics clk (S\<lparr>st_auth_lockout := L\<rparr>) of
             (Panic, S') \<Rightarrow> (Panic, S') | (Done _, S') \<Rightarrow> (Done (Ok x), S')))"

text \<open>\<^verbatim>\<open>ct_eq\<close> of two byte strings is one exactly when they are equal.\<close>

definition metrics_auth ::
    "clock \<Rightarrow> headers \<Rightarrow> ip_addr \<Rightarrow> app_state \<Rightarrow> (api_error, unit) result outcome \<times> app_state" where
  "metrics_auth clk headers ip S =
     (case st_metrics_token S of
        None \<Rightarrow> (Done (Err (ApiError_unauthorized ''Metrics authentication is not configured'')), S)
      | Some metrics_token \<Rightarrow>
          (case bearer_token clk headers ip S of
             (Done (Inr token), S1) \<Rightarrow>
               if metrics_token \<noteq> token then refuse clk ip ''Invalid token'' S1
               else accept clk ip () S1
           | (Done (Inl e), S1) \<Rightarrow> (Done (Err e), S1)
           | (Panic, S1) \<Rightarrow> (Panic, S1)))"

definition request_hash :: "digests \<Rightarrow> app_state \<Rightarrow> string \<Rightarrow> token_hash" where
  "request_hash D S token =
     (case st_hash_token S of
        Some key \<Rightarrow> TokenHash_hmac_sha256 D key token | None \<Rightarrow> TokenHash_sha256 D token)"

definition bridge_auth ::
    "digests \<Rightarrow> clock \<Rightarrow> headers \<Rightarrow> ip_addr \<Rightarrow> app_state \<Rightarrow>
       (api_error, auth_route) result outcome \<times> app_state" where
  "bridge_auth D clk headers ip S =
     (case bearer_token clk headers ip S of
        (Done (Inr token), S1) \<Rightarrow>
          (case hget (st_token_routes S1) (request_hash D S1 token) of
             None \<Rightarrow> refuse clk ip ''Invalid token'' S1
           | Some route \<Rightarrow> accept clk ip route S1)
      | (Done (Inl e), S1) \<Rightarrow> (Done (Err e), S1)
      | (Panic, S1) \<Rightarrow> (Panic, S1))"

definition require_route ::
    "(auth_route \<Rightarrow> bool) \<Rightarrow> string \<Rightarrow> (api_error, auth_route) result outcome \<times> app_state \<Rightarrow>
       (api_error, auth_route) result outcome \<times> app_state" where
  "require_route allows message r =
     (case r of
        (Done (Inr route), S) \<Rightarrow> (Done (if allows route then Ok route else Err (forbidden message)), S)
      | _ \<Rightarrow> r)"

definition command_auth ::
    "digests \<Rightarrow> clock \<Rightarrow> headers \<Rightarrow> ip_addr \<Rightarrow> app_state \<Rightarrow>
       (api_error, auth_route) result outcome \<times> app_state" where
  "command_auth D clk headers ip S =
     require_route route_allows_command_route ''Bearer token is not allowed to access command routes''
       (bridge_auth D clk headers ip S)"

definition realtime_auth ::
    "digests \<Rightarrow> clock \<Rightarrow> headers \<Rightarrow> ip_addr \<Rightarrow> app_state \<Rightarrow>
       (api_error, auth_route) result outcome \<times> app_state" where
  "realtime_auth D clk headers ip S =
     require_route route_allows_realtime ''Bearer token is not allowed to access realtime routes''
       (bridge_auth D clk headers ip S)"

section \<open>What authentication leaves alone\<close>

text \<open>Authentication changes only metrics and lockout table.\<close>

definition same_bridge :: "app_state \<Rightarrow> app_state \<Rightarrow> bool" where
  "same_bridge S S' \<longleftrightarrow> S'\<lparr>st_metrics := st_metrics S, st_auth_lockout := st_auth_lockout S\<rparr> = S"

lemma same_bridge_refl [simp]: "same_bridge S S"
  by (simp add: same_bridge_def)

lemma same_bridge_update [simp]:
  "same_bridge S (S\<lparr>st_metrics := M, st_auth_lockout := L\<rparr>)"
  "same_bridge S (S\<lparr>st_auth_lockout := L\<rparr>)" "same_bridge S (S\<lparr>st_metrics := M\<rparr>)"
  "same_bridge S (S\<lparr>st_auth_lockout := L, st_metrics := M\<rparr>)"
  by (simp_all add: same_bridge_def)

lemma same_bridge_fields:
  assumes "same_bridge S S'"
  shows "st_targets S' = st_targets S" "st_token_routes S' = st_token_routes S"
    "st_security S' = st_security S" "st_hash_token S' = st_hash_token S"
    "st_metrics_token S' = st_metrics_token S" "st_realtime_permits S' = st_realtime_permits S"
    "st_trust_proxy_headers S' = st_trust_proxy_headers S"
    "st_trusted_proxies S' = st_trusted_proxies S"
    "st_max_response_bytes S' = st_max_response_bytes S"
  using assms unfolding same_bridge_def by (cases S; cases S'; simp)+

lemma same_bridge_trans [trans]: "same_bridge S S' \<Longrightarrow> same_bridge S' S'' \<Longrightarrow> same_bridge S S''"
  unfolding same_bridge_def by (cases S; cases S'; cases S''; simp)

section \<open>The lockout table behind authentication\<close>

text \<open>
  A table that can take an operation now: its invariant holds and a lockout that began now would end
  within the range of instants.
\<close>

definition lockout_ready :: "clock \<Rightarrow> app_state \<Rightarrow> bool" where
  "lockout_ready clk S \<longleftrightarrow>
     lockout_inv (st_auth_lockout S) (now clk) \<and> now clk \<le> later clk \<and>
     now clk + lockout_duration (st_auth_lockout S) < INSTANT_LIMIT"

lemma refresh_Done:
  assumes "lockout_inv (st_auth_lockout S) t"
  shows "\<exists>L M. refresh_lockout_metrics clk S = (Done (), S\<lparr>st_auth_lockout := L, st_metrics := M\<rparr>) \<and>
    snapshot_at (st_auth_lockout S) (later clk) = (fst (snapshot_at (st_auth_lockout S) (later clk)), L) \<and>
    lockout_inv L t \<and>
    (\<forall>m ls. m \<notin> {auth_lockout_tracked_ips, auth_lockout_locked_ips} \<longrightarrow>
      counter_value M m ls = counter_value (st_metrics S) m ls)"
proof -
  obtain r L where s: "snapshot_at (st_auth_lockout S) (later clk) = (r, L)" by fastforce
  from snapshot_inv [OF assms s] obtain snap where "r = Done snap" "lockout_inv L t"
    by (cases r) auto
  then show ?thesis using s by (auto simp: refresh_lockout_metrics_def set_lockout_state_def)
qed

lemma refresh_keeps_count:
  "refresh_lockout_metrics clk S = (r, S') \<Longrightarrow>
   counter_value (st_metrics S') m ls = counter_value (st_metrics S) m ls"
  by (auto simp: refresh_lockout_metrics_def set_lockout_state_def split: prod.splits outcome.splits)

lemma failure_metric_auth_failed:
  "counter_value (failure_metric f M) auth_failed_total [] = counter_value M auth_failed_total []"
  by (cases f) (simp_all add: metrics_defs)

text \<open>A refusal on a ready table: what it answers, and what is left of the state.\<close>

lemma unauthorized_Done:
  assumes "lockout_ready clk S"
  shows "\<exists>f S' L. record_failure_at (st_auth_lockout S) ip (now clk) = (Done f, L) \<and>
    unauthorized clk ip message S = (Done (failure_error f message), S') \<and> same_bridge S S' \<and>
    st_auth_lockout S' = snd (snapshot_at L (later clk)) \<and> lockout_inv (st_auth_lockout S') (later clk) \<and>
    same_limits (st_auth_lockout S) (st_auth_lockout S') \<and>
    counter_value (st_metrics S') auth_failed_total [] =
      Suc (counter_value (st_metrics S) auth_failed_total [])"
proof -
  let ?L = "st_auth_lockout S"
  obtain f L where f: "record_failure_at ?L ip (now clk) = (Done f, L)" and lim: "same_limits ?L L"
    using record_failure_done [of ?L "now clk" "now clk" ip] assms by (auto simp: lockout_ready_def)
  have inv: "lockout_inv L (later clk)"
    using record_failure_inv [OF _ order_refl f] assms lockout_inv_mono by (auto simp: lockout_ready_def)
  define S1 where "S1 = S\<lparr>st_auth_lockout := L, st_metrics := failure_metric f (auth_failed (st_metrics S))\<rparr>"
  have "lockout_inv (st_auth_lockout S1) (later clk)" using inv by (simp add: S1_def)
  from refresh_Done [OF this, of clk] obtain L2 M2 where
    r: "refresh_lockout_metrics clk S1 = (Done (), S1\<lparr>st_auth_lockout := L2, st_metrics := M2\<rparr>)"
      "L2 = snd (snapshot_at L (later clk))" "lockout_inv L2 (later clk)"
    by (auto simp: S1_def) (metis snd_conv)
  have u: "unauthorized clk ip message S =
      (Done (failure_error f message), S1\<lparr>st_auth_lockout := L2, st_metrics := M2\<rparr>)"
    using f r(1) by (simp add: unauthorized_def Let_def S1_def)
  have "counter_value M2 auth_failed_total [] = Suc (counter_value (st_metrics S) auth_failed_total [])"
    using refresh_keeps_count [OF r(1), of auth_failed_total "[]"]
    by (simp add: S1_def failure_metric_auth_failed auth_failed_def)
  moreover have "same_limits ?L L2"
    using lim snapshot_limits [of L "later clk"] r(2) by (simp add: same_limits_def)
  ultimately show ?thesis using f u r by (intro exI conjI) (auto simp: S1_def same_bridge_def)
qed

section \<open>Who is let in\<close>

text \<open>The token an authorization header carries.\<close>

definition bearer :: "headers \<Rightarrow> string option" where
  "bearer headers =
     Option.bind (headers ''authorization'') (\<lambda>v. Option.bind (split_once_ws v) (\<lambda>(scheme, token).
       if eq_ignore_ascii_case scheme ''Bearer'' \<and> trim token \<noteq> [] then Some (trim token) else None))"

lemma bearer_token_bearer:
  "bearer_token clk headers ip S =
     (case bearer headers of
        Some token \<Rightarrow> (Done (Ok token), S)
      | None \<Rightarrow> refuse clk ip ''Invalid authorization header'' S)"
  by (auto simp: bearer_token_def bearer_def split: option.splits)

lemma failure_error_status:
  "ae_status (failure_error f m) = (if f \<in> {Locked, AlreadyLocked} then 429 else 401)"
  by (cases f) (simp_all add: api_error_defs)

lemma refuse_Done:
  assumes "lockout_ready clk S"
  shows "\<exists>e S'. refuse clk ip m S = (Done (Err e), S') \<and> same_bridge S S' \<and>
    ae_status e = (if fst (record_failure_at (st_auth_lockout S) ip (now clk)) \<in>
      {Done Locked, Done AlreadyLocked} then 429 else 401) \<and>
    counter_value (st_metrics S') auth_failed_total [] =
      Suc (counter_value (st_metrics S) auth_failed_total [])"
  using unauthorized_Done [OF assms, of ip m] by (auto simp: refuse_def failure_error_status too_many_requests_def)

lemma accept_Done:
  assumes "lockout_inv (st_auth_lockout S) t"
  shows "\<exists>S'. accept clk ip x S = (Done (Ok x), S') \<and> same_bridge S S' \<and>
    (\<forall>m ls. counter_value (st_metrics S') m ls = counter_value (st_metrics S) m ls) \<and>
    st_auth_lockout S' = snd (snapshot_at (snd (record_success (st_auth_lockout S) ip)) (later clk))"
proof -
  obtain r L where s: "record_success (st_auth_lockout S) ip = (r, L)" by fastforce
  then have L: "r = Done ()" "lockout_inv L t" using record_success_inv [OF assms s] by (cases r, auto)+
  have "lockout_inv (st_auth_lockout (S\<lparr>st_auth_lockout := L\<rparr>)) t" using L by simp
  from refresh_Done [OF this, of clk] obtain L2 M2 where
    r: "refresh_lockout_metrics clk (S\<lparr>st_auth_lockout := L\<rparr>) =
      (Done (), S\<lparr>st_auth_lockout := L2, st_metrics := M2\<rparr>)" "L2 = snd (snapshot_at L (later clk))"
    by auto (metis snd_conv)
  then show ?thesis
    using s L(1) refresh_keeps_count [OF r(1)] by (simp add: accept_def)
qed

text \<open>What a successful authentication says, whatever the state of the lockout table.\<close>

definition route_for :: "digests \<Rightarrow> app_state \<Rightarrow> headers \<Rightarrow> auth_route option" where
  "route_for D S headers =
     Option.bind (bearer headers) (\<lambda>token. hget (st_token_routes S) (request_hash D S token))"

lemma refuse_not_Ok: "refuse clk ip m S \<noteq> (Done (Ok x), S')"
  by (auto simp: refuse_def split: prod.splits outcome.splits)

lemma refresh_same: "refresh_lockout_metrics clk S = (r, S') \<Longrightarrow> same_bridge S S'"
  by (auto simp: refresh_lockout_metrics_def split: prod.splits outcome.splits)

lemma accept_Ok: "accept clk ip x S = (Done (Ok y), S') \<Longrightarrow> y = x \<and> same_bridge S S'"
  by (auto simp: accept_def split: prod.splits outcome.splits dest!: refresh_same
      intro: same_bridge_trans [OF same_bridge_update(2)])

lemma bridge_auth_Ok:
  "bridge_auth D clk headers ip S = (Done (Ok route), S') \<Longrightarrow> route_for D S headers = Some route \<and> same_bridge S S'"
  by (auto simp: bridge_auth_def bearer_token_bearer route_for_def refuse_not_Ok
      split: option.splits prod.splits outcome.splits sum.splits dest!: accept_Ok)

lemma command_auth_Ok:
  assumes "command_auth D clk headers ip S = (Done (Ok route), S')"
  shows "route_for D S headers = Some route" and "route_allows_command_route route" and "same_bridge S S'"
  using assms bridge_auth_Ok [of D clk headers ip S route S']
  by (auto simp: command_auth_def require_route_def split: prod.splits outcome.splits sum.splits if_splits)

lemma realtime_auth_Ok:
  assumes "realtime_auth D clk headers ip S = (Done (Ok route), S')"
  shows "route_for D S headers = Some route" and "route_allows_realtime route" and "same_bridge S S'"
  using assms bridge_auth_Ok [of D clk headers ip S route S']
  by (auto simp: realtime_auth_def require_route_def split: prod.splits outcome.splits sum.splits if_splits)

text \<open>The errors authentication can answer with.\<close>

lemma refuse_Err: "refuse clk ip m S = (Done (Err e), S') \<Longrightarrow> ae_status e \<in> {401, 429}"
  by (auto simp: refuse_def unauthorized_def Let_def failure_error_status
      split: prod.splits outcome.splits if_splits)

lemma accept_not_Err: "accept clk ip x S \<noteq> (Done (Err e), S')"
  by (auto simp: accept_def split: prod.splits outcome.splits)

lemma bridge_auth_Err: "bridge_auth D clk headers ip S = (Done (Err e), S') \<Longrightarrow> ae_status e \<in> {401, 429}"
  using refuse_Err [where 'a = auth_route] refuse_Err [where 'a = string]
  by (auto simp: bridge_auth_def bearer_token_bearer accept_not_Err refuse_not_Ok
      split: option.splits prod.splits outcome.splits sum.splits; fastforce)

lemma command_auth_Err:
  "command_auth D clk headers ip S = (Done (Err e), S') \<Longrightarrow> ae_status e \<in> {401, 403, 429}"
  using bridge_auth_Err [of D clk headers ip S e S']
  by (auto simp: command_auth_def require_route_def forbidden_def
      split: prod.splits outcome.splits sum.splits if_splits)

lemma realtime_auth_Err:
  "realtime_auth D clk headers ip S = (Done (Err e), S') \<Longrightarrow> ae_status e \<in> {401, 403, 429}"
  using bridge_auth_Err [of D clk headers ip S e S']
  by (auto simp: realtime_auth_def require_route_def forbidden_def
      split: prod.splits outcome.splits sum.splits if_splits)

lemma bridge_auth_ready:
  assumes "lockout_ready clk S"
  shows "\<exists>r S'. bridge_auth D clk headers ip S = (Done r, S') \<and> same_bridge S S' \<and>
    (case route_for D S headers of
       Some route \<Rightarrow> r = Ok route \<and>
         counter_value (st_metrics S') auth_failed_total [] = counter_value (st_metrics S) auth_failed_total []
     | None \<Rightarrow> (\<exists>e. r = Err e \<and>
         ae_status e = (if fst (record_failure_at (st_auth_lockout S) ip (now clk)) \<in>
           {Done Locked, Done AlreadyLocked} then 429 else 401)) \<and>
         counter_value (st_metrics S') auth_failed_total [] =
           Suc (counter_value (st_metrics S) auth_failed_total []))"
proof -
  have inv: "lockout_inv (st_auth_lockout S) (now clk)" using assms by (simp add: lockout_ready_def)
  show ?thesis
  proof (cases "bearer headers")
    case None
    then show ?thesis
      using refuse_Done [OF assms, where 'a = string, of ip "''Invalid authorization header''"]
      by (auto simp: bridge_auth_def bearer_token_bearer route_for_def)
  next
    case (Some token)
    show ?thesis
    proof (cases "hget (st_token_routes S) (request_hash D S token)")
      case None
      then show ?thesis
        using Some refuse_Done [OF assms, where 'a = auth_route, of ip "''Invalid token''"]
        by (auto simp: bridge_auth_def bearer_token_bearer route_for_def)
    next
      case (Some route)
      then show ?thesis
        using \<open>bearer headers = Some token\<close> accept_Done [OF inv, of clk ip route]
        by (auto simp: bridge_auth_def bearer_token_bearer route_for_def)
    qed
  qed
qed

text \<open>A ready table stays in order: what authentication leaves behind is ready for the next request.\<close>

definition lockout_kept :: "clock \<Rightarrow> app_state \<Rightarrow> app_state \<Rightarrow> bool" where
  "lockout_kept clk S S' \<longleftrightarrow>
     lockout_inv (st_auth_lockout S') (later clk) \<and> same_limits (st_auth_lockout S) (st_auth_lockout S')"

lemma kept_ready:
  "lockout_kept clk S S' \<Longrightarrow> later clk \<le> now clk' \<Longrightarrow> now clk' \<le> later clk' \<Longrightarrow>
   now clk' + lockout_duration (st_auth_lockout S) < INSTANT_LIMIT \<Longrightarrow> lockout_ready clk' S'"
  by (auto simp: lockout_kept_def lockout_ready_def same_limits_def intro: lockout_inv_mono)

lemma kept_refl: "lockout_ready clk S \<Longrightarrow> lockout_kept clk S S"
  by (auto simp: lockout_kept_def lockout_ready_def same_limits_def intro: lockout_inv_mono)

lemma refuse_kept:
  assumes "lockout_ready clk S" and "refuse clk ip m S = (r, S')"
  shows "lockout_kept clk S S'"
  using unauthorized_Done [OF assms(1), of ip m] assms(2) by (auto simp: refuse_def lockout_kept_def)

lemma accept_kept:
  assumes "lockout_ready clk S" and "accept clk ip x S = (r, S')"
  shows "lockout_kept clk S S'"
proof -
  let ?L = "snd (record_success (st_auth_lockout S) ip)"
  have inv: "lockout_inv (st_auth_lockout S) (later clk)"
    using assms(1) by (auto simp: lockout_ready_def intro: lockout_inv_mono)
  have "lockout_inv ?L (later clk)" using record_success_inv [OF inv] by (metis prod.collapse)
  then have "lockout_inv (snd (snapshot_at ?L (later clk))) (later clk)"
    using snapshot_inv by (metis prod.collapse)
  moreover have "same_limits (st_auth_lockout S) (snd (snapshot_at ?L (later clk)))"
    using record_success_limits [of "st_auth_lockout S" ip] snapshot_limits [of ?L "later clk"]
    by (simp add: same_limits_def)
  moreover have "st_auth_lockout S' = snd (snapshot_at ?L (later clk))"
    using accept_Done [OF inv, of clk ip x] assms(2) by auto
  ultimately show ?thesis by (simp add: lockout_kept_def)
qed

lemma bridge_auth_kept:
  assumes "lockout_ready clk S" and "bridge_auth D clk headers ip S = (r, S')"
  shows "lockout_kept clk S S'"
  using assms(2)
  by (auto simp: bridge_auth_def bearer_token_bearer refuse_not_Ok
      split: option.splits prod.splits outcome.splits sum.splits
      dest: refuse_kept [OF assms(1)] accept_kept [OF assms(1)])

lemma metrics_auth_kept:
  assumes "lockout_ready clk S" and "metrics_auth clk headers ip S = (r, S')"
  shows "lockout_kept clk S S'"
  using assms(2) kept_refl [OF assms(1)]
  by (auto simp: metrics_auth_def bearer_token_bearer refuse_not_Ok
      split: option.splits prod.splits outcome.splits sum.splits if_splits
      dest: refuse_kept [OF assms(1)] accept_kept [OF assms(1)])

lemma require_route_state: "snd (require_route p m x) = snd x"
  by (auto simp: require_route_def split: prod.splits outcome.splits sum.splits)

lemma command_auth_kept:
  assumes "lockout_ready clk S" and "command_auth D clk headers ip S = (r, S')"
  shows "lockout_kept clk S S'"
proof -
  have "S' = snd (bridge_auth D clk headers ip S)"
    using require_route_state assms(2) unfolding command_auth_def by (metis snd_conv)
  then show ?thesis using bridge_auth_kept [OF assms(1)] by (metis prod.collapse)
qed

lemma realtime_auth_kept:
  assumes "lockout_ready clk S" and "realtime_auth D clk headers ip S = (r, S')"
  shows "lockout_kept clk S S'"
proof -
  have "S' = snd (bridge_auth D clk headers ip S)"
    using require_route_state assms(2) unfolding realtime_auth_def by (metis snd_conv)
  then show ?thesis using bridge_auth_kept [OF assms(1)] by (metis prod.collapse)
qed

lemma refuse_no_panic: "lockout_ready clk S \<Longrightarrow> refuse clk ip m S \<noteq> (Panic, S')"
  using unauthorized_Done [of clk S ip m] by (auto simp: refuse_def)

lemma accept_no_panic: "lockout_ready clk S \<Longrightarrow> accept clk ip x S \<noteq> (Panic, S')"
  using accept_Done [of S "now clk" clk ip x] by (auto simp: lockout_ready_def)

lemma metrics_auth_ready: "lockout_ready clk S \<Longrightarrow> metrics_auth clk headers ip S \<noteq> (Panic, S')"
  by (auto simp: metrics_auth_def bearer_token_bearer refuse_not_Ok refuse_no_panic accept_no_panic
      split: option.splits prod.splits outcome.splits sum.splits)

lemma command_auth_ready:
  assumes "lockout_ready clk S"
  shows "\<exists>r S'. command_auth D clk headers ip S = (Done r, S') \<and>
    (\<forall>route. route_for D S headers = Some route \<and> route_allows_command_route route \<longrightarrow> r = Ok route)"
proof -
  obtain r S' where b: "bridge_auth D clk headers ip S = (Done r, S')"
      "\<And>route. route_for D S headers = Some route \<Longrightarrow> r = Ok route"
    using bridge_auth_ready [OF assms, of D headers ip] by fastforce
  then show ?thesis
    by (auto simp: command_auth_def require_route_def split: sum.splits)
qed

lemma realtime_auth_ready:
  assumes "lockout_ready clk S"
  shows "\<exists>r S'. realtime_auth D clk headers ip S = (Done r, S') \<and>
    (\<forall>route. route_for D S headers = Some route \<and> route_allows_realtime route \<longrightarrow> r = Ok route)"
proof -
  obtain r S' where b: "bridge_auth D clk headers ip S = (Done r, S')"
      "\<And>route. route_for D S headers = Some route \<Longrightarrow> r = Ok route"
    using bridge_auth_ready [OF assms, of D headers ip] by fastforce
  then show ?thesis
    by (auto simp: realtime_auth_def require_route_def split: sum.splits)
qed

text \<open>C5: Authentication decides by the token alone. With a lockout table in order, \<^verbatim>\<open>bridge_auth\<close> answers
  every request: it returns the route of the token when the header is a bearer header with a token whose
  hash has a route, and then counts no failure; otherwise it refuses, with status 429 exactly
  when this failure locks the address or finds it locked, else 401, and counts one failure. Nothing
  but metrics and lockout table changes.\<close>
theorem bridge_auth_decides:
  assumes "lockout_ready clk S"
  shows "\<exists>r S'. bridge_auth D clk headers ip S = (Done r, S') \<and> same_bridge S S' \<and>
    (case Option.bind (bearer headers) (\<lambda>token. hget (st_token_routes S) (request_hash D S token)) of
       Some route \<Rightarrow> r = Ok route \<and>
         counter_value (st_metrics S') auth_failed_total [] = counter_value (st_metrics S) auth_failed_total []
     | None \<Rightarrow> (\<exists>e. r = Err e \<and>
         ae_status e = (if fst (record_failure_at (st_auth_lockout S) ip (now clk)) \<in>
           {Done Locked, Done AlreadyLocked} then 429 else 401)) \<and>
         counter_value (st_metrics S') auth_failed_total [] =
           Suc (counter_value (st_metrics S) auth_failed_total []))"
  using bridge_auth_ready [OF assms, of D headers ip] by (simp only: route_for_def)

text \<open>A small bridge for the examples: one target, one token, two failures within five seconds lock an
  address for ten.\<close>

definition sample_state :: app_state where
  "sample_state =
     \<lparr>st_targets = [sample_target],
      st_token_routes = [(TokenHash ''secret'', \<lparr>route_target = 0, route_type = TokenCaps_command\<rparr>)],
      st_security = sample_policy, st_request_timeout = 5000000000, st_acquire_timeout = 250000000,
      st_max_response_bytes = 64, st_metrics = [], st_metrics_token = None, st_hash_token = None,
      st_auth_lockout = AuthLockout_new 2 5000000000 10000000000 4, st_trust_proxy_headers = False,
      st_trusted_proxies = [], st_realtime_permits = 1\<rparr>"

definition sample_digests :: digests where
  "sample_digests = \<lparr>sha256_digest = id, hmac_digest = (@), hex_decode = Some\<rparr>"

definition sample_headers :: "string \<Rightarrow> headers" where
  "sample_headers token = [''authorization'' \<mapsto> ''Bearer '' @ token]"

lemma ws_len_space: "ws_len (CHR '' '' # b) = 1"
  by (cases "CHR '' '' # b" rule: ws_len.cases) (auto simp: ascii_ws_def)

lemma split_once_ws_graphic:
  "list_all graphic a \<Longrightarrow> split_once_ws (a @ CHR '' '' # b) = Some (a, b)"
  by (induction a) (simp_all add: ws_len_graphic ws_len_space)

lemma bearer_header:
  "headers ''authorization'' = Some (''Bearer '' @ token) \<Longrightarrow> trim token \<noteq> [] \<Longrightarrow>
   bearer headers = Some (trim token)"
  using split_once_ws_graphic [of "''Bearer''" token]
  by (simp add: bearer_def graphic_def eq_ignore_ascii_case_def)

lemma sample_ready:
  "lockout_ready \<lparr>now = 1, later = 1\<rparr> sample_state"
  by (simp add: lockout_ready_def sample_state_def lockout_inv_new) (simp add: AuthLockout_new_def INSTANT_LIMIT_def)

lemma sample_bearer: "bearer (sample_headers ''secret'') = Some ''secret''" "bearer (sample_headers ''guess'') = Some ''guess''"
  using bearer_header [of "sample_headers ''secret''" "''secret''"] bearer_header [of "sample_headers ''guess''" "''guess''"]
  by (simp_all add: sample_headers_def trim_graphic graphic_def)

theorem bridge_auth_decides_witness:
  "\<exists>S'. bridge_auth sample_digests \<lparr>now = 1, later = 1\<rparr> (sample_headers ''secret'') (ipv4 1 2 3 4) sample_state =
      (Done (Ok \<lparr>route_target = 0, route_type = TokenCaps_command\<rparr>), S') \<and>
    counter_value (st_metrics S') auth_failed_total [] = 0"
  using bridge_auth_decides [OF sample_ready, of sample_digests "sample_headers ''secret''" "ipv4 1 2 3 4"]
  by (auto simp: sample_bearer request_hash_def sample_state_def sample_digests_def TokenHash_sha256_def)

section \<open>Other addresses\<close>

lemma record_failure_others:
  assumes "lockout_inv L t" and "t \<le> u" and "u + lockout_duration L < INSTANT_LIMIT" and "ip' \<noteq> ip"
  shows "status (snd (record_failure_at L ip u)) u ip' = status L u ip'"
proof (cases "is_enabled L")
  case False
  then show ?thesis by (simp add: record_failure_at_def)
next
  case en: True
  show ?thesis
  proof (cases "room L ip u")
    case True
    obtain r s' where "fail_entry L (entry_or_new (entries L) ip u) u = (r, s')" by fastforce
    from record_failure_room [OF en assms(1) True this] show ?thesis
      using assms(4) status_cleaned [OF assms(1), of ip u ip']
      by (simp add: status_def update_conv' cong: option.case_cong)
  next
    case False
    have np: "\<not> poisoned L" using assms(1) by (simp add: lockout_inv_def)
    have "record_failure_at L ip u = (Done EntryLimitReached, L\<lparr>entries := cleaned L ip u\<rparr>)"
      using False en np by (auto simp: record_failure_at_def room_def cleaned_def Let_def)
    then show ?thesis using status_cleaned [OF assms(1), of ip u ip'] by simp
  qed
qed

lemma snapshot_status: "lockout_inv L t \<Longrightarrow> status (snd (snapshot_at L u)) u ip = status L u ip"
  using status_cleanup [of L t u ip] by (simp add: snapshot_at_def Let_def)

lemma refuse_record:
  assumes "lockout_ready clk S"
  shows "\<exists>f S' L. record_failure_at (st_auth_lockout S) ip (now clk) = (Done f, L) \<and>
    refuse clk ip m S = (Done (Err (failure_error f m)), S') \<and> same_bridge S S' \<and>
    st_auth_lockout S' = snd (snapshot_at L (later clk))"
  using unauthorized_Done [OF assms, of ip m] by (auto simp: refuse_def)

lemma refuse_others:
  assumes "lockout_ready clk S" and "refuse clk ip m S = (r :: (api_error, 'a) result outcome, S')" and "ip' \<noteq> ip"
  shows "status (st_auth_lockout S') (later clk) ip' = status (st_auth_lockout S) (later clk) ip'"
proof -
  let ?L = "st_auth_lockout S"
  have R: "lockout_inv ?L (now clk)" "now clk \<le> later clk" "now clk + lockout_duration ?L < INSTANT_LIMIT"
    using assms(1) by (auto simp: lockout_ready_def)
  obtain f L1 where b: "record_failure_at ?L ip (now clk) = (Done f, L1)"
      "st_auth_lockout S' = snd (snapshot_at L1 (later clk))"
    using refuse_record [OF assms(1), where 'a = 'a, of ip m] assms(2) by auto
  have "status L1 (now clk) ip' = status ?L (now clk) ip'"
    using record_failure_others [OF R(1) order_refl R(3) assms(3)] b(1) by simp
  moreover have "failure_window L1 = failure_window ?L"
    using record_failure_done [OF R(1,3), of ip] b(1) by (auto simp: same_limits_def)
  ultimately have "status L1 (later clk) ip' = status ?L (later clk) ip'"
    using status_aged [OF R(2), of L1 ip'] status_aged [OF R(2), of ?L ip'] by simp
  moreover have "lockout_inv L1 (now clk)" using record_failure_inv [OF R(1) order_refl b(1)] .
  ultimately show ?thesis using b(2) snapshot_status by simp
qed

lemma accept_others:
  assumes "lockout_ready clk S" and "accept clk ip x S = (r, S')" and "ip' \<noteq> ip"
  shows "status (st_auth_lockout S') (later clk) ip' = status (st_auth_lockout S) (later clk) ip'"
proof -
  let ?L = "st_auth_lockout S"
  have inv: "lockout_inv ?L (now clk)" using assms(1) by (simp add: lockout_ready_def)
  have a: "st_auth_lockout S' = snd (snapshot_at (snd (record_success ?L ip)) (later clk))"
    using accept_Done [OF inv, of clk ip x] assms(2) by auto
  have "status (snd (record_success ?L ip)) (later clk) ip' = status ?L (later clk) ip'"
    using record_success_status [OF inv] assms(3) by (cases "is_enabled ?L") (auto simp: record_success_def)
  moreover have "lockout_inv (snd (record_success ?L ip)) (now clk)"
    using record_success_inv [OF inv] by (metis prod.collapse)
  ultimately show ?thesis using a snapshot_status by simp
qed

lemma bridge_auth_others:
  assumes "lockout_ready clk S" and "bridge_auth D clk headers ip S = (r, S')" and "ip' \<noteq> ip"
  shows "status (st_auth_lockout S') (later clk) ip' = status (st_auth_lockout S) (later clk) ip'"
  using assms(2)
  by (auto simp: bridge_auth_def bearer_token_bearer refuse_not_Ok
      split: option.splits prod.splits outcome.splits sum.splits
      dest: refuse_others [OF assms(1) _ assms(3)] accept_others [OF assms(1) _ assms(3)])

lemma metrics_auth_others:
  assumes "lockout_ready clk S" and "metrics_auth clk headers ip S = (r, S')" and "ip' \<noteq> ip"
  shows "status (st_auth_lockout S') (later clk) ip' = status (st_auth_lockout S) (later clk) ip'"
  using assms(2)
  by (auto simp: metrics_auth_def bearer_token_bearer refuse_not_Ok
      split: option.splits prod.splits outcome.splits sum.splits if_splits
      dest: refuse_others [OF assms(1) _ assms(3)] accept_others [OF assms(1) _ assms(3)])

text \<open>A refusal without a route, from the table to the answer.\<close>

lemma bridge_auth_refused:
  assumes "lockout_ready clk S" and "route_for D S headers = None"
  shows "\<exists>f m S' L. record_failure_at (st_auth_lockout S) ip (now clk) = (Done f, L) \<and>
    bridge_auth D clk headers ip S = (Done (Err (failure_error f m)), S') \<and> same_bridge S S' \<and>
    st_auth_lockout S' = snd (snapshot_at L (later clk))"
proof (cases "bearer headers")
  case None
  then show ?thesis
    using refuse_record [OF assms(1), where 'a = string, of ip "''Invalid authorization header''"]
    by (auto simp: bridge_auth_def bearer_token_bearer)
next
  case (Some token)
  then show ?thesis
    using refuse_record [OF assms(1), where 'a = auth_route, of ip "''Invalid token''"] assms(2)
    by (auto simp: bridge_auth_def bearer_token_bearer route_for_def)
qed

lemma metrics_auth_refused:
  assumes "lockout_ready clk S" and "st_metrics_token S = Some t" and "bearer headers \<noteq> Some t"
  shows "\<exists>f m S' L. record_failure_at (st_auth_lockout S) ip (now clk) = (Done f, L) \<and>
    metrics_auth clk headers ip S = (Done (Err (failure_error f m)), S') \<and> same_bridge S S' \<and>
    st_auth_lockout S' = snd (snapshot_at L (later clk))"
proof (cases "bearer headers")
  case None
  then show ?thesis
    using refuse_record [OF assms(1), where 'a = string, of ip "''Invalid authorization header''"] assms(2)
    by (auto simp: metrics_auth_def bearer_token_bearer)
next
  case (Some token)
  then show ?thesis
    using refuse_record [OF assms(1), where 'a = unit, of ip "''Invalid token''"] assms(2,3)
    by (auto simp: metrics_auth_def bearer_token_bearer)
qed

end
