(* ===== verification/Handlers.thy ===== *)
theory Handlers
  imports Execute Auth
begin

text \<open>
  The request handlers (\<^verbatim>\<open>src/app/handlers.rs\<close>): health, readiness, metrics, and the three routes that run
  Redis commands. A handler takes the request, the clock and the outcome of its waits, and returns how the
  request ended, the new state and what it sent to Redis, with the target it was sent to.
\<close>

section \<open>Requests and how they end\<close>

record 'b request =
  rq_peer :: ip_addr
  rq_headers :: headers
  rq_body :: "(unit, 'b) result"

datatype ending = Answered response | Panicked | Dropped_request

text \<open>The process around the handlers: the hash functions and the encoders of the libraries.\<close>

record surroundings =
  su_digests :: digests
  su_codec :: codec
  su_to_json :: "ser \<Rightarrow> bytes list \<times> bool"
  su_prometheus :: "metrics \<Rightarrow> bytes option"

section \<open>Health\<close>

definition root_handler :: response where
  "root_handler = json_response 200 (JObject [(''status'', JString ''ok'')])"

definition healthz :: response where
  "healthz = json_response 200 (JObject [(''status'', JString ''ok'')])"

definition readyz :: "app_state \<Rightarrow> response" where
  "readyz S =
     (if \<not> targets_ready S then into_response (unavailable ''Redis backend unavailable'')
      else json_response 200
        (JObject [(''status'', JString ''ready''), (''target_count'', JNat (target_count S))]))"

definition metrics_handler :: "surroundings \<Rightarrow> clock \<Rightarrow> unit request \<Rightarrow> app_state \<Rightarrow> ending \<times> app_state" where
  "metrics_handler E clk req S =
     (let ip = client_ip S (rq_headers req) (rq_peer req) in
      case metrics_auth clk (rq_headers req) ip S of
        (Panic, S1) \<Rightarrow> (Panicked, S1)
      | (Done (Inl e), S1) \<Rightarrow>
          (Answered (into_response e), S1\<lparr>st_metrics := request_denied ''metrics'' ''auth'' (st_metrics S1)\<rparr>)
      | (Done (Inr _), S1) \<Rightarrow>
          (case refresh_lockout_metrics clk S1 of
             (Panic, S2) \<Rightarrow> (Panicked, S2)
           | (Done _, S2) \<Rightarrow>
               (case render (su_prometheus E) utf8_valid (st_metrics S2) of
                  Inr text' \<Rightarrow> (Answered \<lparr>resp_status = 200, resp_headers = [(''content-type'', content_type)],
                                   resp_body = BytesBody text'\<rparr>, S2)
                | Inl _ \<Rightarrow> (Answered (into_response (unavailable ''Metrics unavailable'')), S2))))"

section \<open>Command routes\<close>

definition response_or_denied ::
    "string \<Rightarrow> (response_error, response) result \<Rightarrow> app_state \<Rightarrow> response \<times> app_state" where
  "response_or_denied route result S =
     (case result of
        Inr response \<Rightarrow> (response, S)
      | Inl e \<Rightarrow> (into_response (into_api_error e),
                  S\<lparr>st_metrics := request_denied route (metric_reason e) (st_metrics S)\<rparr>))"

text \<open>
  The course of the three handlers, which differ in the parts that are its arguments: the names in the
  metrics, how the body is parsed, the operation that is executed, and how its value is serialised.
\<close>

definition run_route ::
    "surroundings \<Rightarrow> clock \<Rightarrow> string \<Rightarrow> string \<Rightarrow>
     (security_policy \<Rightarrow> 'b \<Rightarrow> token_caps \<Rightarrow> (policy_error, 'c) result) \<Rightarrow>
     (string \<Rightarrow> 'c \<Rightarrow> 'w \<Rightarrow> metrics \<Rightarrow> (api_error, 'v) result option \<times> wire list \<times> metrics) \<Rightarrow>
     (codec \<Rightarrow> bool \<Rightarrow> 'v \<Rightarrow> ser) \<Rightarrow> 'w \<Rightarrow> 'b request \<Rightarrow> app_state \<Rightarrow>
     ending \<times> app_state \<times> (nat \<times> wire) list" where
  "run_route E clk route_name kind parse execute serialize W req S =
     (let base64_encoding = base64 (rq_headers req);
          ip = client_ip S (rq_headers req) (rq_peer req) in
      case command_auth (su_digests E) clk (rq_headers req) ip S of
        (Panic, S1) \<Rightarrow> (Panicked, S1, [])
      | (Done (Inl e), S1) \<Rightarrow>
          (Answered (into_response e),
           S1\<lparr>st_metrics := request_denied route_name ''auth'' (st_metrics S1)\<rparr>, [])
      | (Done (Inr route), S1) \<Rightarrow>
          (case rq_body req of
             Inl _ \<Rightarrow>
               (Answered (into_response (bad_request ''Invalid JSON body'')),
                S1\<lparr>st_metrics := request_denied route_name ''invalid_json'' (st_metrics S1)\<rparr>, [])
           | Inr command_body \<Rightarrow>
               (case parse (st_security S1) command_body (route_type route) of
                  Inl e \<Rightarrow>
                    (Answered (into_response (bad_request (policy_message e))),
                     S1\<lparr>st_metrics := request_denied route_name ''policy''
                          (command_denied (target_id (target_of S1 route)) kind (st_metrics S1))\<rparr>, [])
                | Inr commands \<Rightarrow>
                    (case execute (target_id (target_of S1 route)) commands W (st_metrics S1) of
                       (None, sent, M) \<Rightarrow>
                         (Dropped_request, S1\<lparr>st_metrics := M\<rparr>, map (Pair (route_target route)) sent)
                     | (Some (Inl e), sent, M) \<Rightarrow>
                         (Answered (into_response e), S1\<lparr>st_metrics := M\<rparr>, map (Pair (route_target route)) sent)
                     | (Some (Inr value), sent, M) \<Rightarrow>
                         (let (resp, S2) = response_or_denied route_name
                                (serialized_response (su_to_json E) 200
                                   (serialize (su_codec E) base64_encoding value) (st_max_response_bytes S1))
                                (S1\<lparr>st_metrics := M\<rparr>) in
                          (Answered resp, S2, map (Pair (route_target route)) sent))))))"

definition command_handler ::
    "surroundings \<Rightarrow> clock \<Rightarrow> redis_value weather \<Rightarrow> command_arg list request \<Rightarrow> app_state \<Rightarrow>
     ending \<times> app_state \<times> (nat \<times> wire) list" where
  "command_handler E clk =
     run_route E clk ''command'' ''single'' parse_command execute_command CommandResponse_serialize"

definition pipeline_handler ::
    "surroundings \<Rightarrow> clock \<Rightarrow> (redis_error, redis_value) result list weather \<Rightarrow>
     command_arg list list request \<Rightarrow> app_state \<Rightarrow> ending \<times> app_state \<times> (nat \<times> wire) list" where
  "pipeline_handler E clk =
     run_route E clk ''pipeline'' ''pipeline'' parse_command_list execute_pipeline PipelineResponse_serialize"

definition multi_exec_handler ::
    "surroundings \<Rightarrow> clock \<Rightarrow> redis_value list weather \<Rightarrow> command_arg list list request \<Rightarrow> app_state \<Rightarrow>
     ending \<times> app_state \<times> (nat \<times> wire) list" where
  "multi_exec_handler E clk =
     run_route E clk ''multi_exec'' ''multi_exec'' parse_command_list execute_transaction
       TransactionResponse_serialize"

text \<open>The three routes behind one router, \<^verbatim>\<open>POST /\<close>, \<^verbatim>\<open>POST /pipeline\<close> and \<^verbatim>\<open>POST /multi-exec\<close>.\<close>

datatype api_call =
    PostRoot "redis_value weather" "command_arg list request"
  | PostPipeline "(redis_error, redis_value) result list weather" "command_arg list list request"
  | PostMultiExec "redis_value list weather" "command_arg list list request"

fun handle_api :: "surroundings \<Rightarrow> clock \<Rightarrow> api_call \<Rightarrow> app_state \<Rightarrow> ending \<times> app_state \<times> (nat \<times> wire) list" where
  "handle_api E clk (PostRoot W req) = command_handler E clk W req"
| "handle_api E clk (PostPipeline W req) = pipeline_handler E clk W req"
| "handle_api E clk (PostMultiExec W req) = multi_exec_handler E clk W req"

fun call_headers :: "api_call \<Rightarrow> headers" where
  "call_headers (PostRoot W req) = rq_headers req"
| "call_headers (PostPipeline W req) = rq_headers req"
| "call_headers (PostMultiExec W req) = rq_headers req"

section \<open>The course of a request\<close>

definition finish ::
    "surroundings \<Rightarrow> (bool \<Rightarrow> 'v \<Rightarrow> ser) \<Rightarrow> headers \<Rightarrow> nat \<Rightarrow> (api_error, 'v) result option \<Rightarrow> ending" where
  "finish E serialize headers limit r =
     (case r of
        None \<Rightarrow> Dropped_request
      | Some (Inl e) \<Rightarrow> Answered (into_response e)
      | Some (Inr v) \<Rightarrow>
          (case serialized_response (su_to_json E) 200 (serialize (base64 headers) v) limit of
             Inl e \<Rightarrow> Answered (into_response (into_api_error e)) | Inr resp \<Rightarrow> Answered resp))"

text \<open>Where a request can stop; the cases of every proof about a route.\<close>

lemma run_route_cases:
  assumes "run_route E clk n k parse execute serialize W req S = (en, S', sent)"
  obtains (panic) S1 where
      "command_auth (su_digests E) clk (rq_headers req) (client_ip S (rq_headers req) (rq_peer req)) S = (Panic, S1)"
      "en = Panicked" "sent = []"
    | (unauthenticated) e S1 where
      "command_auth (su_digests E) clk (rq_headers req) (client_ip S (rq_headers req) (rq_peer req)) S =
         (Done (Err e), S1)"
      "en = Answered (into_response e)" "sent = []"
      "st_metrics S' = request_denied n ''auth'' (st_metrics S1)"
    | (no_json) route S1 where
      "command_auth (su_digests E) clk (rq_headers req) (client_ip S (rq_headers req) (rq_peer req)) S =
         (Done (Ok route), S1)"
      "rq_body req = Err ()" "en = Answered (into_response (bad_request ''Invalid JSON body''))" "sent = []"
      "st_metrics S' = request_denied n ''invalid_json'' (st_metrics S1)"
    | (policy) route S1 body e where
      "command_auth (su_digests E) clk (rq_headers req) (client_ip S (rq_headers req) (rq_peer req)) S =
         (Done (Ok route), S1)"
      "rq_body req = Ok body" "parse (st_security S) body (route_type route) = Err e"
      "en = Answered (into_response (bad_request (policy_message e)))" "sent = []"
      "st_metrics S' = request_denied n ''policy''
         (command_denied (target_id (target_of S route)) k (st_metrics S1))"
    | (executed) route S1 body commands r ws M where
      "command_auth (su_digests E) clk (rq_headers req) (client_ip S (rq_headers req) (rq_peer req)) S =
         (Done (Ok route), S1)"
      "rq_body req = Ok body" "parse (st_security S) body (route_type route) = Ok commands"
      "execute (target_id (target_of S route)) commands W (st_metrics S1) = (r, ws, M)"
      "sent = map (Pair (route_target route)) ws"
      "en = finish E (serialize (su_codec E)) (rq_headers req) (st_max_response_bytes S) r"
proof -
  let ?auth = "command_auth (su_digests E) clk (rq_headers req) (client_ip S (rq_headers req) (rq_peer req)) S"
  note run = assms [unfolded run_route_def Let_def]
  obtain a S1 where a: "?auth = (a, S1)" by fastforce
  show thesis
  proof (cases a)
    case Panic
    then show thesis using panic [of S1] run a by simp
  next
    case (Done r)
    show thesis
    proof (cases r)
      case (Inl e)
      then show thesis using unauthenticated [of e S1] run a Done by auto
    next
      case (Inr route)
      have auth: "?auth = (Done (Ok route), S1)" using a Done Inr by simp
      note S1 = same_bridge_fields [OF command_auth_Ok(3) [OF auth]]
      have tgt: "target_of S1 route = target_of S route" by (simp add: target_of_def S1)
      show thesis
      proof (cases "rq_body req")
        case (Inl u)
        then show thesis using no_json [OF auth] run auth by auto
      next
        case body: (Inr body)
        show thesis
        proof (cases "parse (st_security S) body (route_type route)")
          case (Inl e)
          then show thesis using policy [OF auth body Inl] run auth body by (auto simp: S1 tgt)
        next
          case (Inr commands)
          obtain r ws M where x: "execute (target_id (target_of S route)) commands W (st_metrics S1) = (r, ws, M)"
            by (metis prod_cases3)
          show thesis
            using executed [OF auth body Inr x] run auth body Inr x
            by (auto simp: S1 tgt finish_def response_or_denied_def split: option.splits sum.splits prod.splits)
        qed
      qed
    qed
  qed
qed

text \<open>The answer that carries a whole reply.\<close>

definition reply_fits :: "surroundings \<Rightarrow> ser \<Rightarrow> app_state \<Rightarrow> response \<Rightarrow> bool" where
  "reply_fits E v S resp \<longleftrightarrow>
     (let reply = concat (fst (su_to_json E v)) in
      resp_body resp = BytesBody reply \<and> length reply \<le> st_max_response_bytes S)"

lemma serialized_Ok:
  assumes "serialized_response to_json code v m = Ok resp"
  shows "resp_status resp = code \<and> resp_body resp = BytesBody (concat (fst (to_json v))) \<and>
    length (concat (fst (to_json v))) \<le> m"
proof -
  obtain bufs fails where j: "to_json v = (bufs, fails)" by fastforce
  obtain ok w where w: "write_all (LimitBody_new m) bufs = (ok, w)" by fastforce
  have "\<not> lb_exceeded (LimitBody_new m)" "lb_body (LimitBody_new m) = []" "lb_max (LimitBody_new m) = m"
    by (simp_all add: LimitBody_new_def)
  with write_all_spec [OF LimitBody_new_inv _ w] assms show ?thesis
    by (auto simp: serialized_response_def j w Let_def split: if_splits)
qed

lemma into_api_error_status: "ae_status (into_api_error e) \<in> {502, 503}"
  by (cases e) (simp_all add: api_error_defs)

lemma finish_status:
  assumes "\<And>e. r = Some (Err e) \<Longrightarrow> ae_status e \<in> {400, 429, 503, 504}"
  shows "finish E serialize headers limit r = Dropped_request \<or>
    (\<exists>resp. finish E serialize headers limit r = Answered resp \<and>
      resp_status resp \<in> {200, 400, 429, 502, 503, 504})"
proof (cases r)
  case (Some x)
  show ?thesis
  proof (cases x)
    case (Inr v)
    then show ?thesis
      using Some serialized_Ok [of "su_to_json E" 200 "serialize (base64 headers) v" limit] into_api_error_status
      by (cases "serialized_response (su_to_json E) 200 (serialize (base64 headers) v) limit")
         (auto simp: finish_def into_response_def json_response_def)
  qed (use Some assms in \<open>auto simp: finish_def into_response_def json_response_def\<close>)
qed (simp add: finish_def)

lemma finish_200:
  assumes "finish E serialize headers (st_max_response_bytes S) r = Answered resp" and "resp_status resp = 200"
    and "\<And>e. r = Some (Err e) \<Longrightarrow> ae_status e \<in> {400, 429, 503, 504}"
  shows "\<exists>v. r = Some (Ok v) \<and> reply_fits E (serialize (base64 headers) v) S resp"
proof -
  obtain x where x: "r = Some x" using assms(1) by (cases r) (auto simp: finish_def)
  show ?thesis
  proof (cases x)
    case (Inl e)
    then show ?thesis using assms x by (fastforce simp: finish_def into_response_def json_response_def)
  next
    case (Inr v)
    show ?thesis
    proof (cases "serialized_response (su_to_json E) 200 (serialize (base64 headers) v) (st_max_response_bytes S)")
      case (Inl e)
      then show ?thesis
        using assms(1,2) x Inr into_api_error_status [of e]
        by (auto simp: finish_def into_response_def json_response_def)
    next
      case (Inr resp')
      then show ?thesis
        using assms(1) x \<open>x = Ok v\<close> serialized_Ok [OF Inr] by (simp add: finish_def reply_fits_def Let_def)
    qed
  qed
qed

section \<open>A command route\<close>

lemma execute_operation_errors:
  assumes "execute_operation target kind msg W w f M = (Some (Err e), ws, M')"
  shows "ae_status e \<in> {400, 429, 503, 504}"
proof -
  have re: "ae_status (redis_api_error x) \<in> {400, 503}" for x
    by (auto simp: redis_api_error_def api_error_defs split: if_splits)
  have fut: "ae_status e \<in> {400, 429, 503}" if "fst (operation_future W w f) = Completes (Err e)" for e
    using that re
    by (fastforce simp: operation_future_def api_error_defs
        split: wait.splits acquired.splits option.splits sum.splits)
  obtain r s where "operation_future W w f = (r, s)" by fastforce
  then show ?thesis
    using assms fut
    by (auto simp: execute_operation_def Let_def api_error_defs split: prod.splits wait.splits sum.splits)
qed

text \<open>
  A command route puts a gate in front of an operation. The operation promises that it sends nothing or
  one request with the commands it was given, and which errors it reports; the rest follows for
  every such route.
\<close>

definition wire_form :: "redis_command \<Rightarrow> wire_command" where
  "wire_form c = (rc_name c, rc_args c)"

locale command_route = command_gate gate commands_of
  for gate :: "security_policy \<Rightarrow> 'body \<Rightarrow> token_caps \<Rightarrow> (policy_error, 'cmds) result"
    and commands_of :: "'cmds \<Rightarrow> redis_command list" +
  fixes execute ::
      "string \<Rightarrow> 'cmds \<Rightarrow> 'w \<Rightarrow> metrics \<Rightarrow> (api_error, 'v) result option \<times> wire list \<times> metrics"
  assumes execute_sends:
      "execute t cs W M = (r, ws, M') \<Longrightarrow>
         ws = [] \<or> (\<exists>w. ws = [w] \<and> wire_commands w = map wire_form (commands_of cs))"
    and execute_errors:
      "execute t cs W M = (Some (Err e), ws, M') \<Longrightarrow> ae_status e \<in> {400, 429, 503, 504}"
    and execute_pure: "execute t cs W M = (r, ws, M') \<Longrightarrow> \<exists>M1. execute t cs W M0 = (r, ws, M1)"
begin

lemma route_sends:
  assumes "run_route E clk n k gate execute serialize W req S = (en, S', sent)" and "(i, w) \<in> set sent"
  shows "\<exists>route body cs. route_for (su_digests E) S (rq_headers req) = Some route \<and>
    route_allows_command_route route \<and> i = route_target route \<and> sent = [(i, w)] \<and>
    rq_body req = Ok body \<and> gate (st_security S) body (route_type route) = Ok cs \<and>
    wire_commands w = map wire_form (commands_of cs)"
  using assms(1)
proof (cases rule: run_route_cases)
  case (executed route S1 body cs r ws M)
  then show ?thesis
    using command_auth_Ok [OF executed(1)] execute_sends [OF executed(4)] assms(2) by auto
qed (use assms(2) in simp_all)

lemma sent_admitted:
  assumes "run_route E clk n k gate execute serialize W req S = (en, S', sent)" and "(i, w) \<in> set sent"
    and "(name, args) \<in> set (wire_commands w)"
  shows "\<exists>route. route_for (su_digests E) S (rq_headers req) = Some route \<and>
    route_allows_command_route route \<and> i = route_target route \<and> sent = [(i, w)] \<and>
    admitted (st_security S) (route_type route) name \<and>
    within_limits (st_security S) \<lparr>rc_name = name, rc_args = args\<rparr> \<and>
    name \<notin> set CONNECTION_COMMANDS \<union> transaction_commands"
proof -
  obtain route body cs where r: "route_for (su_digests E) S (rq_headers req) = Some route"
      "route_allows_command_route route" "i = route_target route" "sent = [(i, w)]"
      "gate (st_security S) body (route_type route) = Ok cs"
      "wire_commands w = map wire_form (commands_of cs)"
    using route_sends [OF assms(1,2)] by blast
  obtain c where c: "c \<in> set (commands_of cs)" "rc_name c = name" "rc_args c = args"
    using assms(3) r(6) by (auto simp: wire_form_def)
  then have "c = \<lparr>rc_name = name, rc_args = args\<rparr>" by simp
  then show ?thesis
    using r(1-4) gate_admitted [OF r(5) c(1)] gate_limits [OF r(5) c(1)]
      gate_no_connection_state [OF r(5) c(1)] by auto
qed

lemma route_answers:
  assumes "run_route E clk n k gate execute serialize W req S = (en, S', sent)" and "lockout_ready clk S"
  shows "en = Dropped_request \<or>
    (\<exists>resp. en = Answered resp \<and> resp_status resp \<in> {200, 400, 401, 403, 429, 502, 503, 504} \<and>
      (resp_status resp \<in> {401, 403} \<longrightarrow> sent = []))"
  using assms(1)
proof (cases rule: run_route_cases)
  case (panic S1)
  then show ?thesis using command_auth_ready [OF assms(2)] by (metis outcome.distinct(1) prod.inject)
next
  case (unauthenticated e S1)
  then show ?thesis using command_auth_Err [OF unauthenticated(1)] by (auto simp: api_error_defs)
next
  case (executed route S1 body cs r ws M)
  have "ae_status e \<in> {400, 429, 503, 504}" if "r = Some (Err e)" for e
    using execute_errors that executed(4) by blast
  from finish_status [where r = r, OF this, where E = E and serialize = "serialize (su_codec E)" and headers = "rq_headers req"
      and limit = "st_max_response_bytes S"]
  show ?thesis unfolding executed(6) by auto
qed (auto simp: api_error_defs)

lemma route_success:
  assumes "run_route E clk n k gate execute serialize W req S = (Answered resp, S', sent)"
    and "resp_status resp = 200"
  shows "\<exists>route body cs v ws M M'. route_for (su_digests E) S (rq_headers req) = Some route \<and>
    rq_body req = Ok body \<and> gate (st_security S) body (route_type route) = Ok cs \<and>
    execute (target_id (target_of S route)) cs W M = (Some (Ok v), ws, M') \<and>
    reply_fits E (serialize (su_codec E) (base64 (rq_headers req)) v) S resp"
  using assms(1)
proof (cases rule: run_route_cases)
  case (unauthenticated e S1)
  then show ?thesis using command_auth_Err [OF unauthenticated(1)] assms(2) by (auto simp: api_error_defs)
next
  case (executed route S1 body cs r ws M)
  obtain v where v: "r = Some (Ok v)" "reply_fits E (serialize (su_codec E) (base64 (rq_headers req)) v) S resp"
    using finish_200 [OF executed(6) [symmetric] assms(2)] execute_errors executed(4) by fastforce
  then show ?thesis using executed(1-4) command_auth_Ok(1) [OF executed(1)] by blast
qed (use assms(2) in \<open>auto simp: api_error_defs\<close>)

end

interpretation command: command_route parse_command "\<lambda>c. [c]" execute_command
proof unfold_locales
  fix t cs W M r ws M'
  assume "execute_command t cs W M = (r, ws, M')"
  from execute_operation_sent [OF this [unfolded execute_command_def]]
  show "ws = [] \<or> (\<exists>w. ws = [w] \<and> wire_commands w = map wire_form [cs])"
    by (auto simp: cmd_of_eq wire_form_def)
next
  fix t cs W M e ws M'
  assume "execute_command t cs W M = (Some (Err e), ws, M')"
  then show "ae_status e \<in> {400, 429, 503, 504}"
    unfolding execute_command_def by (rule execute_operation_errors)
next
  fix t cs W M r ws M' M0
  assume "execute_command t cs W M = (r, ws, M')"
  then show "\<exists>M1. execute_command t cs W M0 = (r, ws, M1)"
    unfolding execute_command_def by (rule execute_operation_pure)
qed

interpretation pipeline: command_route parse_command_list "\<lambda>cs. cs" execute_pipeline
proof unfold_locales
  fix t cs W M r ws M'
  assume "execute_pipeline t cs W M = (r, ws, M')"
  from execute_operation_sent [OF this [unfolded execute_pipeline_def]]
  show "ws = [] \<or> (\<exists>w. ws = [w] \<and> wire_commands w = map wire_form cs)"
    by (auto simp: append_commands_eq new_pipe_def wire_form_def)
next
  fix t cs W M e ws M'
  assume "execute_pipeline t cs W M = (Some (Err e), ws, M')"
  then show "ae_status e \<in> {400, 429, 503, 504}"
    unfolding execute_pipeline_def by (rule execute_operation_errors)
next
  fix t cs W M r ws M' M0
  assume "execute_pipeline t cs W M = (r, ws, M')"
  then show "\<exists>M1. execute_pipeline t cs W M0 = (r, ws, M1)"
    unfolding execute_pipeline_def by (rule execute_operation_pure)
qed

interpretation transaction: command_route parse_command_list "\<lambda>cs. cs" execute_transaction
proof unfold_locales
  fix t cs W M r ws M'
  assume "execute_transaction t cs W M = (r, ws, M')"
  from execute_operation_sent [OF this [unfolded execute_transaction_def]]
  show "ws = [] \<or> (\<exists>w. ws = [w] \<and> wire_commands w = map wire_form cs)"
    by (auto simp: append_commands_eq new_pipe_def wire_form_def)
next
  fix t cs W M e ws M'
  assume "execute_transaction t cs W M = (Some (Err e), ws, M')"
  then show "ae_status e \<in> {400, 429, 503, 504}"
    unfolding execute_transaction_def by (rule execute_operation_errors)
next
  fix t cs W M r ws M' M0
  assume "execute_transaction t cs W M = (r, ws, M')"
  then show "\<exists>M1. execute_transaction t cs W M0 = (r, ws, M1)"
    unfolding execute_transaction_def by (rule execute_operation_pure)
qed

lemma execute_operation_Ok:
  assumes "execute_operation target kind msg W w f M = (Some (Ok x), ws, M')"
  shows "\<exists>c y. on_redis W c w = Completes (Ok y) \<and> x = f y"
proof -
  have "\<exists>c y. on_redis W c w = Completes (Ok y) \<and> x = f y" if "fst (operation_future W w f) = Completes (Ok x)"
    using that by (fastforce simp: operation_future_def
        split: wait.splits acquired.splits option.splits sum.splits)
  moreover obtain r s where "operation_future W w f = (r, s)" by fastforce
  ultimately show ?thesis
    using assms by (auto simp: execute_operation_def Let_def split: prod.splits wait.splits sum.splits)
qed

text \<open>Whether a target has a connection, from the count of its supervisors.\<close>

lemma quiet_available:
  assumes "sup_reach c M n s" and "quiet s" and "connection_shards c \<le> usize_max"
  shows "t_available (s_target s) > 0 \<longleftrightarrow> (\<exists>slot \<in> set (t_connections (s_target s)). connection slot \<noteq> None)"
proof -
  have inv: "sup_shape c s" "sup_counts c s" using sup_reach_inv [OF assms(1)] by auto
  have len: "length (t_connections (s_target s)) = connection_shards c" using inv(1) by (simp add: sup_shape_def)
  have "\<not> updating (pc_of s i)" if "i < connection_shards c" for i
    using assms(2) that inv(1) by (simp add: quiet_def list_all_length sup_shape_def)
  then have on: "counted (slot_of s i) (pc_of s i) = is_on (s_target s) i" if "i < connection_shards c" for i
    using that by (auto simp: counted_def updating_def)
  have "t_available (s_target s) = (\<Sum>i<connection_shards c. of_bool (is_on (s_target s) i))"
    using inv(2) on by (simp add: sup_counts_def del: sum_of_bool_eq)
  then have "unat (t_available (s_target s)) = card {i. i < connection_shards c \<and> is_on (s_target s) i}"
    using unat_count [OF assms(3)] by metis
  moreover have "t_available (s_target s) > 0 \<longleftrightarrow> unat (t_available (s_target s)) \<noteq> 0"
    by (simp add: word_neq_0_conv unat_eq_zero)
  moreover have "card {i. i < connection_shards c \<and> is_on (s_target s) i} = 0 \<longleftrightarrow>
      \<not> (\<exists>i < connection_shards c. is_on (s_target s) i)"
    by (subst card_0_eq) auto
  moreover have "(\<exists>i < connection_shards c. is_on (s_target s) i) \<longleftrightarrow>
      (\<exists>slot \<in> set (t_connections (s_target s)). connection slot \<noteq> None)"
    by (metis len in_set_conv_nth)
  ultimately show ?thesis by simp
qed

lemma metrics_auth_Ok:
  assumes "metrics_auth clk headers ip S = (Done (Ok u), S')"
  shows "\<exists>token. st_metrics_token S = Some token \<and> bearer headers = Some token"
  using assms
  by (auto simp: metrics_auth_def bearer_token_bearer refuse_not_Ok
      split: option.splits prod.splits outcome.splits sum.splits if_splits)

lemma metrics_auth_Err:
  assumes "metrics_auth clk headers ip S = (Done (Err e), S')"
  shows "ae_status e \<in> {401, 429}"
  using assms refuse_Err [where 'a = unit] refuse_Err [where 'a = string]
  by (fastforce simp: metrics_auth_def bearer_token_bearer refuse_not_Ok accept_not_Err api_error_defs
      split: option.splits prod.splits outcome.splits sum.splits if_splits)

lemma handle_api_sent:
  assumes "handle_api E clk call S = (en, S', sent)" and "(i, w) \<in> set sent"
    and "(name, args) \<in> set (wire_commands w)"
  shows "\<exists>route. route_for (su_digests E) S (call_headers call) = Some route \<and>
    route_allows_command_route route \<and> i = route_target route \<and> sent = [(i, w)] \<and>
    admitted (st_security S) (route_type route) name \<and>
    within_limits (st_security S) \<lparr>rc_name = name, rc_args = args\<rparr> \<and>
    name \<notin> set CONNECTION_COMMANDS \<union> transaction_commands"
proof (cases call)
  case (PostRoot W req)
  show ?thesis
    using command.sent_admitted [OF assms(1) [unfolded PostRoot handle_api.simps command_handler_def] assms(2,3)]
      PostRoot by simp
next
  case (PostPipeline W req)
  show ?thesis
    using pipeline.sent_admitted [OF assms(1) [unfolded PostPipeline handle_api.simps pipeline_handler_def] assms(2,3)]
      PostPipeline by simp
next
  case (PostMultiExec W req)
  show ?thesis
    using transaction.sent_admitted [OF assms(1) [unfolded PostMultiExec handle_api.simps multi_exec_handler_def] assms(2,3)]
      PostMultiExec by simp
qed

lemma handle_api_answers:
  assumes "handle_api E clk call S = (en, S', sent)" and "lockout_ready clk S"
  shows "en = Dropped_request \<or>
    (\<exists>resp. en = Answered resp \<and> resp_status resp \<in> {200, 400, 401, 403, 429, 502, 503, 504} \<and>
      (resp_status resp \<in> {401, 403} \<longrightarrow> sent = []))"
proof (cases call)
  case (PostRoot W req)
  show ?thesis
    using command.route_answers [OF assms(1) [unfolded PostRoot handle_api.simps command_handler_def] assms(2)] .
next
  case (PostPipeline W req)
  show ?thesis
    using pipeline.route_answers [OF assms(1) [unfolded PostPipeline handle_api.simps pipeline_handler_def] assms(2)] .
next
  case (PostMultiExec W req)
  show ?thesis
    using transaction.route_answers [OF assms(1) [unfolded PostMultiExec handle_api.simps multi_exec_handler_def] assms(2)] .
qed

text \<open>After authentication a route changes only the metrics.\<close>

lemma run_route_lockout:
  "run_route E clk n k parse execute serialize W req S = (en, S', sent) \<Longrightarrow>
   st_auth_lockout S' = st_auth_lockout (snd (command_auth (su_digests E) clk (rq_headers req)
     (client_ip S (rq_headers req) (rq_peer req)) S))"
  by (auto simp: run_route_def Let_def response_or_denied_def
      split: prod.splits outcome.splits sum.splits option.splits)

lemma handle_api_kept:
  assumes "lockout_ready clk S" and "handle_api E clk call S = (en, S', sent)"
  shows "lockout_kept clk S S' \<and> en \<noteq> Panicked"
proof -
  have auth: "lockout_kept clk S S'"
    if "st_auth_lockout S' = st_auth_lockout (snd (command_auth (su_digests E) clk h ip S))" for h ip
    using that command_auth_kept [OF assms(1), of "su_digests E" h ip] by (metis lockout_kept_def prod.collapse)
  have "lockout_kept clk S S'"
    using assms(2)
    by (cases call) (auto simp: command_handler_def pipeline_handler_def multi_exec_handler_def
        intro: auth dest!: run_route_lockout)
  moreover have "en \<noteq> Panicked" using handle_api_answers [OF assms(2,1)] by auto
  ultimately show ?thesis ..
qed

lemma metrics_handler_kept:
  assumes "lockout_ready clk S" and "metrics_handler E clk req S = (en, S')"
  shows "lockout_kept clk S S' \<and> en \<noteq> Panicked"
proof -
  let ?ip = "client_ip S (rq_headers req) (rq_peer req)"
  obtain a S1 where a: "metrics_auth clk (rq_headers req) ?ip S = (a, S1)" by fastforce
  have k: "lockout_kept clk S S1" and np: "a \<noteq> Panic"
    using metrics_auth_kept [OF assms(1) a] metrics_auth_ready [OF assms(1)] a by auto
  have "lockout_inv (st_auth_lockout S1) (later clk)" using k by (simp add: lockout_kept_def)
  from refresh_Done [OF this, of clk] obtain L M where
    r: "refresh_lockout_metrics clk S1 = (Done (), S1\<lparr>st_auth_lockout := L, st_metrics := M\<rparr>)"
      "lockout_inv L (later clk)" "L = snd (snapshot_at (st_auth_lockout S1) (later clk))"
    by auto (metis snd_conv)
  have "same_limits (st_auth_lockout S) L"
    using k r(3) snapshot_limits [of "st_auth_lockout S1" "later clk"] by (simp add: lockout_kept_def same_limits_def)
  then show ?thesis
    using assms(2) a k np r
    by (auto simp: metrics_handler_def Let_def lockout_kept_def split: outcome.splits sum.splits)
qed

text \<open>The good course of a command, the converse of what only admitted commands can do.\<close>

lemma command_served:
  assumes "lockout_ready clk S" and "route_for (su_digests E) S (rq_headers req) = Some route"
    and "route_allows_command_route route" and "rq_body req = Ok command_body"
    and "parse_command (st_security S) command_body (route_type route) = Ok command"
    and "on_acquire W = Completes Permit" and "on_connection W = Completes (Some c)"
    and "on_redis W c (WireCommand (wire_form command)) = Completes (Ok v)"
    and "su_to_json E (CommandResponse_serialize (su_codec E) (base64 (rq_headers req)) v) = (bufs, False)"
    and "length (concat bufs) \<le> st_max_response_bytes S"
  shows "\<exists>resp S'. command_handler E clk W req S =
      (Answered resp, S', [(route_target route, WireCommand (wire_form command))]) \<and>
    resp_status resp = 200 \<and> resp_body resp = BytesBody (concat bufs)"
proof -
  let ?ip = "client_ip S (rq_headers req) (rq_peer req)"
  obtain S1 where auth: "command_auth (su_digests E) clk (rq_headers req) ?ip S = (Done (Ok route), S1)"
    using command_auth_ready [OF assms(1), of "su_digests E" "rq_headers req" ?ip] assms(2,3) by blast
  note F = same_bridge_fields [OF command_auth_Ok(3) [OF auth]]
  obtain ok w where w: "write_all (LimitBody_new (st_max_response_bytes S)) bufs = (ok, w)" by fastforce
  have "\<not> lb_exceeded (LimitBody_new m)" "lb_body (LimitBody_new m) = []" "lb_max (LimitBody_new m) = m" for m
    by (simp_all add: LimitBody_new_def)
  with write_all_spec [OF LimitBody_new_inv _ w] assms(10) have "ok" "lb_body w = concat bufs" by auto
  then show ?thesis
    using auth assms(4-9) w
    by (simp add: command_handler_def run_route_def Let_def F execute_command_def execute_operation_def
        operation_future_def begin_operation_def cmd_of_eq wire_form_def serialized_response_def
        response_or_denied_def)
qed

section \<open>Properties\<close>

definition sample_surroundings :: surroundings where
  "sample_surroundings =
     \<lparr>su_digests = sample_digests, su_codec = \<lparr>base64_encode = id, f64_text = (\<lambda>_. [])\<rparr>,
      su_to_json = (\<lambda>_. ([''{'', ''1'', ''}''], False)), su_prometheus = (\<lambda>_. Some ''m'')\<rparr>"

abbreviation sample_clock :: clock where
  "sample_clock \<equiv> \<lparr>now = 1, later = 1\<rparr>"

definition sample_request :: "string \<Rightarrow> 'b \<Rightarrow> 'b request" where
  "sample_request token b = \<lparr>rq_peer = ipv4 1 2 3 4, rq_headers = sample_headers token, rq_body = Ok b\<rparr>"

definition sample_call :: api_call where
  "sample_call = PostRoot (sample_weather Okay)
     (sample_request ''secret'' [ArgString '' get '', ArgString ''key''])"

lemma sample_route:
  "route_for sample_digests sample_state (sample_headers ''secret'') =
     Some \<lparr>route_target = 0, route_type = TokenCaps_command\<rparr>"
  by (simp add: route_for_def sample_bearer request_hash_def sample_state_def sample_digests_def TokenHash_sha256_def)

lemma sample_allows: "route_allows_command_route \<lparr>route_target = 0, route_type = TokenCaps_command\<rparr>"
  by (simp add: route_allows_command_route_def allows_command_route_def TokenCaps_command_def)

lemma sample_auth:
  "\<exists>S1. command_auth sample_digests sample_clock (sample_headers ''secret'') (ipv4 1 2 3 4) sample_state =
     (Done (Ok \<lparr>route_target = 0, route_type = TokenCaps_command\<rparr>), S1)"
  using command_auth_ready [OF sample_ready, of sample_digests "sample_headers ''secret''" "ipv4 1 2 3 4"]
    sample_route sample_allows by blast

lemma sample_ip: "client_ip sample_state (sample_headers ''secret'') (ipv4 1 2 3 4) = ipv4 1 2 3 4"
  by (simp add: client_ip_def sample_state_def)

text \<open>A request of the sample bridge, from its token to Redis and back.\<close>

lemma sample_call_runs:
  "\<exists>resp S'. handle_api sample_surroundings sample_clock sample_call sample_state =
     (Answered resp, S', [(0, WireCommand (''GET'', [''key'']))]) \<and> resp_status resp = 200"
proof -
  have "parse_command sample_policy [ArgString '' get '', ArgString ''key''] TokenCaps_command =
      Ok \<lparr>rc_name = ''GET'', rc_args = [''key'']\<rparr>"
    by (simp add: sample_eval)
  moreover have "st_security sample_state = sample_policy" "st_max_response_bytes sample_state = 64"
    by (simp_all add: sample_state_def)
  ultimately show ?thesis
    using command_served [OF sample_ready, of sample_surroundings
        "sample_request ''secret'' [ArgString '' get '', ArgString ''key'']"
        "\<lparr>route_target = 0, route_type = TokenCaps_command\<rparr>" "[ArgString '' get '', ArgString ''key'']"
        "\<lparr>rc_name = ''GET'', rc_args = [''key'']\<rparr>" "sample_weather Okay" 7 Okay "[''{'', ''1'', ''}'']"]
      sample_route sample_allows
    by (auto simp: sample_call_def sample_request_def sample_surroundings_def sample_weather_def wire_form_def)
qed

text \<open>Only admitted commands of authenticated clients reach Redis. Whatever one of the command routes sends
  to Redis, the request carried a bearer token of an enabled route that may use the command routes;
  it is sent once, to the target of that token; and every command in it is admitted by the policy for
  the capabilities of that token, keeps its limits, and is none that changes the state of the shared
  connection.\<close>
theorem only_admitted_commands_reach_redis:
  assumes "handle_api E clk call S = (en, S', sent)" and "(i, w) \<in> set sent"
    and "(name, args) \<in> set (wire_commands w)"
  shows "\<exists>token route. bearer (call_headers call) = Some token \<and>
    hget (st_token_routes S) (request_hash (su_digests E) S token) = Some route \<and>
    allows_command_route (route_type route) \<and> i = route_target route \<and> sent = [(i, w)] \<and>
    admitted (st_security S) (route_type route) name \<and>
    within_limits (st_security S) \<lparr>rc_name = name, rc_args = args\<rparr> \<and>
    name \<notin> set CONNECTION_COMMANDS \<union> transaction_commands"
  using handle_api_sent [OF assms]
  by (auto simp: route_for_def route_allows_command_route_def bind_eq_Some_conv)

theorem only_admitted_commands_reach_redis_witness:
  "\<exists>S' resp. handle_api sample_surroundings sample_clock sample_call sample_state =
     (Answered resp, S', [(0, WireCommand (''GET'', [''key'']))]) \<and>
   (\<exists>token. bearer (call_headers sample_call) = Some token \<and>
     hget (st_token_routes sample_state) (request_hash sample_digests sample_state token) \<noteq> None)"
proof -
  obtain resp S' where r: "handle_api sample_surroundings sample_clock sample_call sample_state =
     (Answered resp, S', [(0, WireCommand (''GET'', [''key'']))])"
    using sample_call_runs by blast
  from only_admitted_commands_reach_redis [OF r, of 0 "WireCommand (''GET'', [''key''])" "''GET''" "[''key'']"]
  show ?thesis using r by (auto simp: sample_surroundings_def)
qed

text \<open>C15: An admitted command is served. When the lockout table is in order, the token has a route to a
  command route, the body passes the policy, and a permit, a connection and the reply of Redis come in
  time and the reply fits the response limit, the command is sent to the target of the token and the
  client gets the whole reply with status 200.\<close>
theorem admitted_command_served:
  assumes "lockout_ready clk S" and "bearer (rq_headers req) = Some token"
    and "hget (st_token_routes S) (request_hash (su_digests E) S token) = Some route"
    and "allows_command_route (route_type route)" and "rq_body req = Ok command_body"
    and "parse_command (st_security S) command_body (route_type route) = Ok command"
    and "on_acquire W = Completes Permit" and "on_connection W = Completes (Some c)"
    and "on_redis W c (WireCommand (wire_form command)) = Completes (Ok v)"
    and "su_to_json E (CommandResponse_serialize (su_codec E) (base64 (rq_headers req)) v) = (bufs, False)"
    and "length (concat bufs) \<le> st_max_response_bytes S"
  shows "\<exists>resp S'. command_handler E clk W req S =
      (Answered resp, S', [(route_target route, WireCommand (wire_form command))]) \<and>
    resp_status resp = 200 \<and> resp_body resp = BytesBody (concat bufs)"
  by (rule command_served [OF assms(1) _ _ assms(5-11)])
     (use assms(2-4) in \<open>simp_all add: route_for_def route_allows_command_route_def\<close>)

theorem admitted_command_served_witness:
  "\<exists>resp S'. command_handler sample_surroundings sample_clock (sample_weather Okay)
      (sample_request ''secret'' [ArgString '' get '', ArgString ''key'']) sample_state =
      (Answered resp, S', [(0, WireCommand (''GET'', [''key'']))]) \<and> resp_body resp = BytesBody ''{1}''"
proof -
  have "parse_command sample_policy [ArgString '' get '', ArgString ''key''] TokenCaps_command =
      Ok \<lparr>rc_name = ''GET'', rc_args = [''key'']\<rparr>"
    by (simp add: sample_eval)
  then have "parse_command (st_security sample_state) [ArgString '' get '', ArgString ''key''] TokenCaps_command =
      Ok \<lparr>rc_name = ''GET'', rc_args = [''key'']\<rparr>" "st_max_response_bytes sample_state = 64"
    by (simp_all add: sample_state_def)
  moreover have "hget (st_token_routes sample_state) (request_hash sample_digests sample_state ''secret'') =
      Some \<lparr>route_target = 0, route_type = TokenCaps_command\<rparr>"
    using sample_route by (simp add: route_for_def sample_bearer)
  ultimately show ?thesis
    using admitted_command_served [OF sample_ready, of
        "sample_request ''secret'' [ArgString '' get '', ArgString ''key'']" "''secret''" sample_surroundings
        "\<lparr>route_target = 0, route_type = TokenCaps_command\<rparr>" "[ArgString '' get '', ArgString ''key'']"
        "\<lparr>rc_name = ''GET'', rc_args = [''key'']\<rparr>" "sample_weather Okay" 7 Okay "[''{'', ''1'', ''}'']"]
      sample_allows sample_bearer
    by (auto simp: sample_request_def sample_surroundings_def sample_weather_def wire_form_def route_allows_command_route_def)
qed

text \<open>C16: A request on a command route is always answered. As long as the lockout table is in order no handler
  panics: unless its client has gone, the request is answered with one of the statuses 200, 400, 401,
  403, 429, 502, 503 and 504, and an answer 401 or 403 means that nothing was sent to Redis.\<close>
theorem api_always_answers:
  assumes "handle_api E clk call S = (en, S', sent)" and "lockout_ready clk S"
  shows "en = Dropped_request \<or>
    (\<exists>resp. en = Answered resp \<and> resp_status resp \<in> {200, 400, 401, 403, 429, 502, 503, 504} \<and>
      (resp_status resp \<in> {401, 403} \<longrightarrow> sent = []))"
  by (rule handle_api_answers [OF assms])

theorem api_always_answers_witness:
  "fst (handle_api sample_surroundings sample_clock
     (PostPipeline (sample_weather []) (sample_request ''guess'' [])) sample_state) \<noteq> Panicked"
proof -
  obtain en S' sent where h: "handle_api sample_surroundings sample_clock
      (PostPipeline (sample_weather []) (sample_request ''guess'' [])) sample_state = (en, S', sent)"
    by (metis prod_cases3)
  show ?thesis using api_always_answers [OF h sample_ready] h by auto
qed

text \<open>A successful answer is the complete reply of Redis. When the command route answers 200, the token had a
  route, the body passed the policy, Redis returned a value for exactly that command, and the body of
  the answer is the whole serialisation of that value, within the response limit.\<close>
theorem successful_replies_complete:
  assumes "command_handler E clk W req S = (Answered resp, S', sent)" and "resp_status resp = 200"
  shows "\<exists>route command_body command c v. route_for (su_digests E) S (rq_headers req) = Some route \<and>
    rq_body req = Ok command_body \<and>
    parse_command (st_security S) command_body (route_type route) = Ok command \<and>
    on_redis W c (WireCommand (wire_form command)) = Completes (Ok v) \<and>
    resp_body resp = BytesBody (concat (fst (su_to_json E
      (CommandResponse_serialize (su_codec E) (base64 (rq_headers req)) v)))) \<and>
    length (concat (fst (su_to_json E
      (CommandResponse_serialize (su_codec E) (base64 (rq_headers req)) v)))) \<le> st_max_response_bytes S"
proof -
  obtain route b cmd v ws M M' where r: "route_for (su_digests E) S (rq_headers req) = Some route"
    "rq_body req = Ok b" "parse_command (st_security S) b (route_type route) = Ok cmd"
    "execute_command (target_id (target_of S route)) cmd W M = (Some (Ok v), ws, M')"
    "reply_fits E (CommandResponse_serialize (su_codec E) (base64 (rq_headers req)) v) S resp"
    using command.route_success [OF assms(1) [unfolded command_handler_def] assms(2)] by blast
  obtain c where "on_redis W c (WireCommand (wire_form cmd)) = Completes (Ok v)"
    using execute_operation_Ok [OF r(4) [unfolded execute_command_def]]
    by (auto simp: cmd_of_eq wire_form_def)
  then show ?thesis using r(1-3,5) by (auto simp: reply_fits_def Let_def)
qed

theorem successful_replies_complete_witness:
  "\<exists>v. length (concat (fst (su_to_json sample_surroundings (CommandResponse_serialize (su_codec sample_surroundings)
     (base64 (sample_headers ''secret'')) v)))) \<le> 64"
proof -
  obtain resp S' where "handle_api sample_surroundings sample_clock sample_call sample_state =
     (Answered resp, S', [(0, WireCommand (''GET'', [''key'']))])" "resp_status resp = 200"
    using sample_call_runs by blast
  then have "command_handler sample_surroundings sample_clock (sample_weather Okay)
      (sample_request ''secret'' [ArgString '' get '', ArgString ''key'']) sample_state =
      (Answered resp, S', [(0, WireCommand (''GET'', [''key'']))])" "resp_status resp = 200"
    by (simp_all add: sample_call_def)
  from successful_replies_complete [OF this] show ?thesis
    by (auto simp: sample_request_def sample_state_def)
qed

text \<open>C31: A batch is executed as it was written. What \<^verbatim>\<open>multi_exec\<close> sends is one transaction, what \<^verbatim>\<open>pipeline\<close> sends
  is one pipeline that is no transaction and reports the errors of its commands one by one; both hold
  exactly the commands of the body, each as the policy parsed it, in the order of the body.\<close>
theorem batches_sent_in_order:
  "(multi_exec_handler E clk W req S = (en, S', sent) \<and> (i, w) \<in> set sent \<longrightarrow>
    (\<exists>route bodies cs. route_for (su_digests E) S (rq_headers req) = Some route \<and> rq_body req = Ok bodies \<and>
      map (\<lambda>b. parse_command (st_security S) b (route_type route)) bodies = map Ok cs \<and>
      w = WirePipe \<lparr>p_atomic = True, p_ignore_errors = False, p_commands = map wire_form cs\<rparr>)) \<and>
   (pipeline_handler E clk W2 req S = (en, S', sent) \<and> (i, w) \<in> set sent \<longrightarrow>
    (\<exists>route bodies cs. route_for (su_digests E) S (rq_headers req) = Some route \<and> rq_body req = Ok bodies \<and>
      map (\<lambda>b. parse_command (st_security S) b (route_type route)) bodies = map Ok cs \<and>
      w = WirePipe \<lparr>p_atomic = False, p_ignore_errors = True, p_commands = map wire_form cs\<rparr>))"
proof -
  have "\<exists>route bodies cs. route_for (su_digests E) S (rq_headers req) = Some route \<and> rq_body req = Ok bodies \<and>
      map (\<lambda>b. parse_command (st_security S) b (route_type route)) bodies = map Ok cs \<and>
      w = WirePipe \<lparr>p_atomic = True, p_ignore_errors = False, p_commands = map wire_form cs\<rparr>"
    if "multi_exec_handler E clk W req S = (en, S', sent)" "(i, w) \<in> set sent"
    using that(1) [unfolded multi_exec_handler_def]
  proof (cases rule: run_route_cases)
    case (executed route S1 bodies cs r ws M)
    have "w = WirePipe \<lparr>p_atomic = True, p_ignore_errors = False, p_commands = map wire_form cs\<rparr>"
      using execute_operation_sent [OF executed(4) [unfolded execute_transaction_def]] that(2) executed(5)
      by (auto simp: append_commands_eq new_pipe_def wire_form_def)
    then show ?thesis
      using command_auth_Ok(1) [OF executed(1)] executed(2,3) by (auto simp: parse_command_list_Ok parse_command_def)
  qed (use that(2) in simp_all)
  moreover have "\<exists>route bodies cs. route_for (su_digests E) S (rq_headers req) = Some route \<and> rq_body req = Ok bodies \<and>
      map (\<lambda>b. parse_command (st_security S) b (route_type route)) bodies = map Ok cs \<and>
      w = WirePipe \<lparr>p_atomic = False, p_ignore_errors = True, p_commands = map wire_form cs\<rparr>"
    if "pipeline_handler E clk W2 req S = (en, S', sent)" "(i, w) \<in> set sent"
    using that(1) [unfolded pipeline_handler_def]
  proof (cases rule: run_route_cases)
    case (executed route S1 bodies cs r ws M)
    have "w = WirePipe \<lparr>p_atomic = False, p_ignore_errors = True, p_commands = map wire_form cs\<rparr>"
      using execute_operation_sent [OF executed(4) [unfolded execute_pipeline_def]] that(2) executed(5)
      by (auto simp: append_commands_eq new_pipe_def wire_form_def)
    then show ?thesis
      using command_auth_Ok(1) [OF executed(1)] executed(2,3) by (auto simp: parse_command_list_Ok parse_command_def)
  qed (use that(2) in simp_all)
  ultimately show ?thesis by blast
qed

definition sample_batch :: "command_arg list list request" where
  "sample_batch = sample_request ''secret'' [[ArgString '' get '', ArgString ''key'']]"

lemma sample_batch_runs:
  "\<exists>en S'. multi_exec_handler sample_surroundings sample_clock (sample_weather [Okay]) sample_batch sample_state =
     (en, S', [(0, WirePipe \<lparr>p_atomic = True, p_ignore_errors = False, p_commands = [(''GET'', [''key''])]\<rparr>)])"
proof -
  obtain S1 where auth: "command_auth sample_digests sample_clock (sample_headers ''secret'') (ipv4 1 2 3 4) sample_state =
      (Done (Ok \<lparr>route_target = 0, route_type = TokenCaps_command\<rparr>), S1)"
    using sample_auth by blast
  note S1 = same_bridge_fields [OF command_auth_Ok(3) [OF auth]]
  have parse: "parse_command_list sample_policy [[ArgString '' get '', ArgString ''key'']] TokenCaps_command =
      Ok [\<lparr>rc_name = ''GET'', rc_args = [''key'']\<rparr>]"
    by (simp add: sample_eval parse_command_list_def)
  have sec: "st_security S1 = sample_policy" "st_max_response_bytes S1 = 64"
    by (simp_all add: S1) (simp_all add: sample_state_def)
  show ?thesis
    using auth sample_ip parse sec
    by (simp add: sample_batch_def sample_request_def multi_exec_handler_def run_route_def Let_def
        sample_surroundings_def execute_transaction_def execute_operation_def operation_future_def
        sample_weather_def begin_operation_def append_commands_eq new_pipe_def split_beta)
qed

theorem batches_sent_in_order_witness:
  "\<exists>bodies cs. rq_body sample_batch = Ok bodies \<and> length bodies = length cs \<and>
     p_commands \<lparr>p_atomic = True, p_ignore_errors = False, p_commands = [(''GET'', [''key''])]\<rparr> = map wire_form cs"
proof -
  let ?w = "WirePipe \<lparr>p_atomic = True, p_ignore_errors = False, p_commands = [(''GET'', [''key''])]\<rparr>"
  obtain en S' where r: "multi_exec_handler sample_surroundings sample_clock (sample_weather [Okay]) sample_batch
      sample_state = (en, S', [(0, ?w)])"
    using sample_batch_runs by blast
  then have "multi_exec_handler sample_surroundings sample_clock (sample_weather [Okay]) sample_batch
      sample_state = (en, S', [(0, ?w)]) \<and> (0, ?w) \<in> set [(0, ?w)]"
    by simp
  from mp [OF conjunct1 [OF batches_sent_in_order] this]
  obtain route :: auth_route and bodies cs where "rq_body sample_batch = Ok bodies"
      "map (\<lambda>b. parse_command (st_security sample_state) b (route_type route)) bodies = map Ok cs"
      "?w = WirePipe \<lparr>p_atomic = True, p_ignore_errors = False, p_commands = map wire_form cs\<rparr>"
    by (elim exE conjE) (rule that; assumption)
  then show ?thesis by (auto dest: map_eq_imp_length_eq)
qed

text \<open>C39: The readiness probe tells whether every target can serve. In a state whose targets have been brought
  about by their supervisors, none of them in the middle of an update, \<^verbatim>\<open>readyz\<close> answers 200 exactly
  when there is a target and each target has a shard that holds a connection, and 503 otherwise.\<close>
theorem readyz_reports_connections:
  assumes "list_all2 (\<lambda>c t. \<exists>M n s. sup_reach c M n s \<and> quiet s \<and> t = s_target s \<and>
      connection_shards c \<le> usize_max) cs (st_targets S)"
  shows "resp_status (readyz S) =
    (if cs \<noteq> [] \<and> (\<forall>t \<in> set (st_targets S). \<exists>slot \<in> set (t_connections t). connection slot \<noteq> None)
     then 200 else 503)"
proof -
  have ready: "t_available t > 0 \<longleftrightarrow> (\<exists>slot \<in> set (t_connections t). connection slot \<noteq> None)"
    if t: "t \<in> set (st_targets S)" for t
  proof -
    obtain j where j: "j < length (st_targets S)" "t = st_targets S ! j" using t by (auto simp: in_set_conv_nth)
    obtain c M n s where s: "sup_reach c M n s" "quiet s" "t = s_target s" "connection_shards c \<le> usize_max"
      using list_all2_nthD2 [OF assms j(1)] j(2) by auto
    show ?thesis using quiet_available [OF s(1,2,4)] s(3) by simp
  qed
  have "cs = [] \<longleftrightarrow> st_targets S = []" using assms by auto
  then show ?thesis
    using ready by (auto simp: readyz_def targets_ready_def list_all_iff api_error_defs)
qed

theorem readyz_reports_connections_witness:
  "resp_status (readyz (sample_state\<lparr>st_targets :=
     [s_target (sample_sup sample_slot 1 1 AtTop sample_log (RWait 0 0))]\<rparr>)) = 200"
proof -
  let ?s = "sample_sup sample_slot 1 1 AtTop sample_log (RWait 0 0)"
  have "quiet ?s" by (simp add: quiet_def sample_sup_def updating_def)
  moreover have "connection_shards sample_config \<le> usize_max" by (simp add: sample_config_def)
  ultimately have "list_all2 (\<lambda>c t. \<exists>M n s. sup_reach c M n s \<and> quiet s \<and> t = s_target s \<and>
      connection_shards c \<le> usize_max) [sample_config] [s_target ?s]"
    using sample_connects by auto
  from readyz_reports_connections [of "[sample_config]" "sample_state\<lparr>st_targets := [s_target ?s]\<rparr>"] this
  show ?thesis by (simp add: sample_sup_def)
qed

text \<open>The metrics are shown only to the holder of the metrics token: an answer 200 means that a metrics token is
  configured and is the bearer token of the request, and carries the rendered metrics; without a
  configured token every request is answered 401 and none counts towards a lockout.\<close>
theorem metrics_guarded:
  "metrics_handler E clk req S = (en, S') \<Longrightarrow>
   (\<forall>resp. en = Answered resp \<and> resp_status resp = 200 \<longrightarrow>
      (\<exists>token. st_metrics_token S = Some token \<and> bearer (rq_headers req) = Some token \<and>
        (\<exists>t. su_prometheus E (st_metrics S') = Some t \<and> utf8_valid t \<and> resp_body resp = BytesBody t))) \<and>
   (st_metrics_token S = None \<longrightarrow>
      (\<exists>resp. en = Answered resp \<and> resp_status resp = 401) \<and> st_auth_lockout S' = st_auth_lockout S)"
  using metrics_auth_Ok [of clk "rq_headers req" "client_ip S (rq_headers req) (rq_peer req)" S]
    metrics_auth_Err [of clk "rq_headers req" "client_ip S (rq_headers req) (rq_peer req)" S]
  by (fastforce simp: metrics_handler_def Let_def render_def api_error_defs metrics_auth_def
      split: prod.splits outcome.splits sum.splits option.splits if_splits)

theorem metrics_guarded_witness:
  "\<exists>resp S'. metrics_handler sample_surroundings sample_clock (sample_request ''secret'' ()) sample_state =
     (Answered resp, S') \<and> resp_status resp = 401"
proof -
  obtain en S' where h: "metrics_handler sample_surroundings sample_clock (sample_request ''secret'' ()) sample_state =
      (en, S')" by fastforce
  then show ?thesis using metrics_guarded [OF h] by (auto simp: sample_state_def)
qed

end
