(* ===== verification/Realtime.thy ===== *)
theory Realtime
  imports Auth Execute
begin

text \<open>
  Subscriptions (\<^verbatim>\<open>src/app/realtime.rs\<close>): the handler that opens a stream of events, the stream itself,
  and all subscriptions of a bridge at a time with the permits they hold. What Redis does on a
  Pub/Sub connection is the input of the model; an event is the text handed to \<^verbatim>\<open>Event::data\<close>.
\<close>

section \<open>Channels\<close>

definition validate_channel :: "string \<Rightarrow> nat \<Rightarrow> (api_error, unit) result" where
  "validate_channel channel max_bytes =
     (if channel = [] then Err (bad_request ''Realtime channel cannot be empty'')
      else if length channel > max_bytes then
        Err (bad_request (''Realtime channel is too large. Maximum allowed bytes: '' @ show_nat max_bytes @ ''.''))
      else if list_ex (\<lambda>c. c \<in> {CHR '','', CHR 0x0D, CHR 0x0A, CHR 0x00}) channel then
        Err (bad_request ''Realtime channel contains a character unsupported by the Upstash event protocol'')
      else Ok ())"

section \<open>Pub/Sub connections\<close>

text \<open>
  \<^verbatim>\<open>target.pubsub()\<close> opens a connection of its own, \<^verbatim>\<open>subscribe\<close> sends the channel on it; both happen
  under one timeout. The result is how the setup ended and the channels that were asked for.
\<close>

record pubsub_weather =
  on_pubsub :: "(unit, conn) result wait"
  on_subscribe :: "conn \<Rightarrow> string \<Rightarrow> (unit, unit) result wait"

definition pubsub_setup :: "pubsub_weather \<Rightarrow> string \<Rightarrow> (unit, conn) result wait \<times> string list" where
  "pubsub_setup P channel =
     (case on_pubsub P of
        Elapses \<Rightarrow> (Elapses, [])
      | Abandoned \<Rightarrow> (Abandoned, [])
      | Completes (Inl _) \<Rightarrow> (Completes (Err ()), [])
      | Completes (Inr c) \<Rightarrow>
          (case on_subscribe P c channel of
             Elapses \<Rightarrow> Elapses
           | Abandoned \<Rightarrow> Abandoned
           | Completes (Inl _) \<Rightarrow> Completes (Err ())
           | Completes (Inr _) \<Rightarrow> Completes (Ok c), [channel]))"

section \<open>The stream of a subscription\<close>

text \<open>
  The state of the stream: before its first event, waiting for the next message, reconnecting, or
  sleeping before the next attempt. The permit and the guard of the connection live as long as the stream.
\<close>

datatype stream_pc = Announce conn | Receiving conn | Reconnecting | Sleeping

record rt_stream =
  rs_pc :: stream_pc
  rs_channel :: string
  rs_target :: nat
  rs_guard :: connection_guard
  rs_backoff :: duration

text \<open>
  What can happen to a stream that is polled: a message with its channel and payload, the end of the
  messages, an attempt to reconnect, the end of the sleep. A stream whose attempt is abandoned is dropped.
\<close>

datatype stimulus = Message string bytes | Closed | Attempt pubsub_weather | Woken

definition REALTIME_BACKOFF :: duration where "REALTIME_BACKOFF = from_millis 250"

definition REALTIME_MAX_BACKOFF :: duration where "REALTIME_MAX_BACKOFF = from_secs 5"

definition subscribed_event :: "string \<Rightarrow> string" where
  "subscribed_event channel = ''subscribe,'' @ channel @ '',1''"

definition message_event :: "string \<Rightarrow> bytes \<Rightarrow> string" where
  "message_event message_channel payload =
     ''message,'' @ message_channel @ '','' @ from_utf8_lossy payload"

text \<open>The first event comes at once, the others from the loop of \<^verbatim>\<open>stream::unfold\<close>.\<close>

fun stream_step :: "rt_stream \<Rightarrow> stimulus \<Rightarrow> string list \<times> rt_stream" where
  "stream_step s stim =
     (case (rs_pc s, stim) of
        (Receiving c, Message message_channel payload) \<Rightarrow> ([message_event message_channel payload], s)
      | (Receiving c, Closed) \<Rightarrow> ([], s\<lparr>rs_pc := Reconnecting\<rparr>)
      | (Reconnecting, Attempt P) \<Rightarrow>
          (case fst (pubsub_setup P (rs_channel s)) of
             Completes (Inr c) \<Rightarrow> ([], s\<lparr>rs_pc := Receiving c, rs_backoff := REALTIME_BACKOFF\<rparr>)
           | Completes (Inl _) \<Rightarrow> ([], s\<lparr>rs_pc := Sleeping\<rparr>)
           | Elapses \<Rightarrow> ([], s\<lparr>rs_pc := Sleeping\<rparr>)
           | Abandoned \<Rightarrow> ([], s))
      | (Sleeping, Woken) \<Rightarrow>
          ([], s\<lparr>rs_pc := Reconnecting, rs_backoff := min (rs_backoff s * 2) REALTIME_MAX_BACKOFF\<rparr>)
      | _ \<Rightarrow> ([], s))"

definition stream_announce :: "rt_stream \<Rightarrow> string list \<times> rt_stream" where
  "stream_announce s =
     (case rs_pc s of
        Announce c \<Rightarrow> ([subscribed_event (rs_channel s)], s\<lparr>rs_pc := Receiving c\<rparr>) | _ \<Rightarrow> ([], s))"

fun stream_run :: "rt_stream \<Rightarrow> stimulus list \<Rightarrow> string list \<times> rt_stream" where
  "stream_run s [] = ([], s)"
| "stream_run s (stim # stims) =
     (let (es, s') = stream_step s stim; (es', s'') = stream_run s' stims in (es @ es', s''))"

definition stream_events :: "rt_stream \<Rightarrow> stimulus list \<Rightarrow> string list \<times> rt_stream" where
  "stream_events s stims =
     (let (es, s') = stream_announce s; (es', s'') = stream_run s' stims in (es @ es', s''))"

section \<open>Opening a subscription\<close>

record subscribe_request =
  sq_peer :: ip_addr
  sq_headers :: headers
  sq_channel :: string
  sq_body :: "(unit, command_arg list) result"

text \<open>A request after the limiter: it holds a permit and is setting up its connection.\<close>

record pending =
  pe_route :: auth_route
  pe_channel :: string

definition deny_subscribe :: "string \<Rightarrow> api_error \<Rightarrow> app_state \<Rightarrow> response \<times> app_state" where
  "deny_subscribe reason e S =
     (into_response e, S\<lparr>st_metrics := request_denied ''subscribe'' reason (st_metrics S)\<rparr>)"

text \<open>The handler up to the permit: it answers, panics, or goes on to set up the connection.\<close>

definition subscribe_begin ::
    "digests \<Rightarrow> clock \<Rightarrow> subscribe_request \<Rightarrow> app_state \<Rightarrow> (response, pending) result outcome \<times> app_state" where
  "subscribe_begin D clk req S =
     (let answer = (\<lambda>(resp, S'). (Done (Err resp), S')) in
      case realtime_auth D clk (sq_headers req) (client_ip S (sq_headers req) (sq_peer req)) S of
        (Panic, S1) \<Rightarrow> (Panic, S1)
      | (Done (Inl e), S1) \<Rightarrow> answer (deny_subscribe ''auth'' e S1)
      | (Done (Inr route), S1) \<Rightarrow>
          (case sq_body req of
             Inl _ \<Rightarrow> answer (deny_subscribe ''invalid_json'' (bad_request ''Invalid JSON body'') S1)
           | Inr body \<Rightarrow>
               if body \<noteq> [] then
                 answer (deny_subscribe ''invalid_body''
                   (bad_request ''Subscription body must be an empty command array'') S1)
               else case validate_channel (sq_channel req) (max_arg_bytes (st_security S1)) of
                 Inl e \<Rightarrow> answer (deny_subscribe ''channel'' e S1)
               | Inr _ \<Rightarrow>
                   (case acquire_realtime S1 of
                      (False, S2) \<Rightarrow> answer (deny_subscribe ''capacity''
                        (too_many_requests ''Realtime connection capacity exhausted'') S2)
                    | (True, S2) \<Rightarrow> (Done (Ok \<lparr>pe_route = route, pe_channel = sq_channel req\<rparr>), S2))))"

definition event_response :: response where
  "event_response =
     \<lparr>resp_status = 200, resp_headers = [(''x-accel-buffering'', ''no'')], resp_body = EventStream\<rparr>"

text \<open>
  The rest of the handler, with the end of the setup. Unless the setup succeeded, the permit is dropped
  on the way out; the answer is missing when the client has gone.
\<close>

definition subscribe_finish ::
    "pending \<Rightarrow> (unit, conn) result wait \<Rightarrow> app_state \<Rightarrow> response option \<times> rt_stream option \<times> app_state" where
  "subscribe_finish p ended S =
     (case ended of
        Completes (Inr c) \<Rightarrow>
          (let target_id = target_id (target_of S (pe_route p));
               (connection_guard, M) = realtime_connection target_id (st_metrics S) in
           (Some event_response,
            Some \<lparr>rs_pc = Announce c, rs_channel = pe_channel p, rs_target = route_target (pe_route p),
                  rs_guard = connection_guard, rs_backoff = REALTIME_BACKOFF\<rparr>,
            S\<lparr>st_metrics := M\<rparr>))
      | Completes (Inl _) \<Rightarrow>
          (let (resp, S') = deny_subscribe ''backend'' (unavailable ''Redis backend unavailable'') S in
           (Some resp, None, release_realtime S'))
      | Elapses \<Rightarrow>
          (let (resp, S') = deny_subscribe ''timeout'' (ApiError_timeout ''Redis subscription setup timed out'') S in
           (Some resp, None, release_realtime S'))
      | Abandoned \<Rightarrow> (None, None, release_realtime S))"

text \<open>The handler as a whole, when nothing else happens in between.\<close>

definition subscribe ::
    "digests \<Rightarrow> clock \<Rightarrow> pubsub_weather \<Rightarrow> subscribe_request \<Rightarrow> app_state \<Rightarrow>
       response option outcome \<times> rt_stream option \<times> app_state \<times> (nat \<times> string) list" where
  "subscribe D clk P req S =
     (case subscribe_begin D clk req S of
        (Panic, S1) \<Rightarrow> (Panic, None, S1, [])
      | (Done (Inl resp), S1) \<Rightarrow> (Done (Some resp), None, S1, [])
      | (Done (Inr p), S1) \<Rightarrow>
          (let (ended, channels) = pubsub_setup P (pe_channel p);
               (resp, stream, S2) = subscribe_finish p ended S1 in
           (Done resp, stream, S2, map (Pair (route_target (pe_route p))) channels)))"

definition stream_drop :: "rt_stream \<Rightarrow> app_state \<Rightarrow> app_state" where
  "stream_drop s S =
     release_realtime (S\<lparr>st_metrics := ConnectionGuard_drop (rs_guard s) (st_metrics S)\<rparr>)"

section \<open>All subscriptions of a bridge\<close>

record realtime_world =
  rw_state :: app_state
  rw_pending :: "pending list"
  rw_streams :: "rt_stream list"

definition remove_at :: "nat \<Rightarrow> 'a list \<Rightarrow> 'a list" where
  "remove_at i xs = take i xs @ drop (Suc i) xs"

text \<open>
  Any interleaving: a request arrives, a setup ends, a stream makes progress or is dropped, and the
  other handlers change metrics and lockout table but not the gauge of subscriptions.
\<close>

inductive rt_step :: "digests \<Rightarrow> realtime_world \<Rightarrow> realtime_world \<Rightarrow> bool" for D where
  rt_denied: "subscribe_begin D clk req (rw_state w) = (Done (Err resp), S') \<Longrightarrow>
    rt_step D w (w\<lparr>rw_state := S'\<rparr>)"
| rt_panic: "subscribe_begin D clk req (rw_state w) = (Panic, S') \<Longrightarrow> rt_step D w (w\<lparr>rw_state := S'\<rparr>)"
| rt_pending: "subscribe_begin D clk req (rw_state w) = (Done (Ok p), S') \<Longrightarrow>
    rt_step D w (w\<lparr>rw_state := S', rw_pending := rw_pending w @ [p]\<rparr>)"
| rt_opened: "i < length (rw_pending w) \<Longrightarrow>
    subscribe_finish (rw_pending w ! i) ended (rw_state w) = (resp, Some s, S') \<Longrightarrow>
    rt_step D w (w\<lparr>rw_state := S', rw_pending := remove_at i (rw_pending w), rw_streams := rw_streams w @ [s]\<rparr>)"
| rt_failed: "i < length (rw_pending w) \<Longrightarrow>
    subscribe_finish (rw_pending w ! i) ended (rw_state w) = (resp, None, S') \<Longrightarrow>
    rt_step D w (w\<lparr>rw_state := S', rw_pending := remove_at i (rw_pending w)\<rparr>)"
| rt_announce: "i < length (rw_streams w) \<Longrightarrow> stream_announce (rw_streams w ! i) = (es, s) \<Longrightarrow>
    rt_step D w (w\<lparr>rw_streams := (rw_streams w)[i := s]\<rparr>)"
| rt_stream: "i < length (rw_streams w) \<Longrightarrow> stream_step (rw_streams w ! i) stim = (es, s) \<Longrightarrow>
    rt_step D w (w\<lparr>rw_streams := (rw_streams w)[i := s]\<rparr>)"
| rt_dropped: "i < length (rw_streams w) \<Longrightarrow>
    rt_step D w (w\<lparr>rw_state := stream_drop (rw_streams w ! i) (rw_state w),
      rw_streams := remove_at i (rw_streams w)\<rparr>)"
| rt_other: "same_bridge (rw_state w) S' \<Longrightarrow>
    \<forall>ls. gauge_value (st_metrics S') realtime_inflight ls =
      gauge_value (st_metrics (rw_state w)) realtime_inflight ls \<Longrightarrow>
    rt_step D w (w\<lparr>rw_state := S'\<rparr>)"

inductive rt_reach :: "digests \<Rightarrow> app_state \<Rightarrow> realtime_world \<Rightarrow> bool" for D S0 where
  rt_start: "rt_reach D S0 \<lparr>rw_state = S0, rw_pending = [], rw_streams = []\<rparr>"
| rt_next: "rt_reach D S0 w \<Longrightarrow> rt_step D w w' \<Longrightarrow> rt_reach D S0 w'"

section \<open>What authentication leaves to the subscriptions\<close>

definition keeps_inflight :: "app_state \<Rightarrow> app_state \<Rightarrow> bool" where
  "keeps_inflight S S' \<longleftrightarrow> same_bridge S S' \<and>
     (\<forall>ls. gauge_value (st_metrics S') realtime_inflight ls = gauge_value (st_metrics S) realtime_inflight ls) \<and>
     (\<forall>ls. gauge_value (st_metrics S') redis_operations_inflight ls =
       gauge_value (st_metrics S) redis_operations_inflight ls)"

lemma keeps_refl: "keeps_inflight S S"
  by (simp add: keeps_inflight_def)

lemma keeps_trans: "keeps_inflight S S' \<Longrightarrow> keeps_inflight S' S'' \<Longrightarrow> keeps_inflight S S''"
  unfolding keeps_inflight_def using same_bridge_trans by metis

lemma keeps_lockout: "keeps_inflight S (S\<lparr>st_auth_lockout := L\<rparr>)"
  by (simp add: keeps_inflight_def)

lemma keeps_refresh: "refresh_lockout_metrics clk S = (r, S') \<Longrightarrow> keeps_inflight S S'"
  by (auto simp: refresh_lockout_metrics_def keeps_inflight_def set_lockout_state_def gauge_value_append
      split: prod.splits outcome.splits)

lemma keeps_failure_metric:
  "keeps_inflight S (S\<lparr>st_auth_lockout := L, st_metrics := failure_metric f (auth_failed (st_metrics S))\<rparr>)"
  by (cases f) (simp_all add: keeps_inflight_def metrics_defs gauge_value_append)

lemma keeps_unauthorized: "unauthorized clk ip m S = (r, S') \<Longrightarrow> keeps_inflight S S'"
  by (auto simp: unauthorized_def Let_def split: prod.splits outcome.splits
      dest!: keeps_refresh intro: keeps_trans [OF keeps_failure_metric])
     (simp add: keeps_inflight_def auth_failed_def gauge_value_append)

lemma keeps_refuse: "refuse clk ip m S = (r, S') \<Longrightarrow> keeps_inflight S S'"
  by (auto simp: refuse_def split: prod.splits outcome.splits dest: keeps_unauthorized)

lemma keeps_accept: "accept clk ip x S = (r, S') \<Longrightarrow> keeps_inflight S S'"
  by (auto simp: accept_def split: prod.splits outcome.splits
      dest!: keeps_refresh intro: keeps_trans [OF keeps_lockout] keeps_lockout)

lemma keeps_bridge_auth: "bridge_auth D clk headers ip S = (r, S') \<Longrightarrow> keeps_inflight S S'"
  by (auto simp: bridge_auth_def bearer_token_bearer refuse_not_Ok
      split: option.splits prod.splits outcome.splits sum.splits dest: keeps_refuse keeps_accept)

lemma keeps_inflight_auth: "realtime_auth D clk headers ip S = (r, S') \<Longrightarrow> keeps_inflight S S'"
  by (auto simp: realtime_auth_def require_route_def
      split: prod.splits outcome.splits sum.splits dest: keeps_bridge_auth)

lemma keeps_denied:
  "keeps_inflight S S' \<Longrightarrow> deny_subscribe reason e S' = (resp, S'') \<Longrightarrow> keeps_inflight S S''"
  by (auto simp: deny_subscribe_def request_denied_def keeps_inflight_def gauge_value_append
      intro: same_bridge_trans)

section \<open>The handler, case by case\<close>

lemma subscribe_begin_cases:
  assumes "subscribe_begin D clk req S = (r, S')"
  obtains (panic) "r = Panic" and "keeps_inflight S S'"
    | (denied) reason e and S1 :: app_state where "r = Done (Err (into_response e))" "ae_status e \<in> {400, 401, 403, 429}"
        "keeps_inflight S S'" "st_metrics S' = request_denied ''subscribe'' reason (st_metrics S1)"
    | (granted) route S1 where "r = Done (Ok \<lparr>pe_route = route, pe_channel = sq_channel req\<rparr>)"
        "route_for D S (sq_headers req) = Some route" "route_allows_realtime route" "sq_body req = Ok []"
        "validate_channel (sq_channel req) (max_arg_bytes (st_security S)) = Ok ()"
        "keeps_inflight S S1" "st_realtime_permits S > 0"
        "S' = S1\<lparr>st_realtime_permits := st_realtime_permits S - 1\<rparr>"
proof -
  let ?auth = "realtime_auth D clk (sq_headers req) (client_ip S (sq_headers req) (sq_peer req)) S"
  obtain a S1 where a: "?auth = (a, S1)" by fastforce
  note k = keeps_inflight_auth [OF a]
  note run = assms [unfolded subscribe_begin_def Let_def a]
  have den: thesis if "(case deny_subscribe reason e S1 of (resp, S'') \<Rightarrow> (Done (Err resp), S'')) = (r, S')"
      "ae_status e \<in> {400, 401, 403, 429}" for reason e
    using that denied [of e reason S1] keeps_denied [OF k, of reason e]
    by (auto simp: deny_subscribe_def)
  show thesis
  proof (cases a)
    case Panic
    then show thesis using panic run k by simp
  next
    case (Done x)
    show thesis
    proof (cases x)
      case (Inl e)
      then have "realtime_auth D clk (sq_headers req) (client_ip S (sq_headers req) (sq_peer req)) S =
          (Done (Err e), S1)" using a Done by simp
      then show thesis
        using realtime_auth_Err run Inl Done by (intro den [of "''auth''" e]) auto
    next
      case (Inr route)
      have auth: "?auth = (Done (Ok route), S1)" using a Done Inr by simp
      note R = realtime_auth_Ok [OF auth] and F = same_bridge_fields [OF realtime_auth_Ok(3) [OF auth]]
      note run' = run [unfolded Done Inr prod.case outcome.case sum.case]
      show thesis
      proof (cases "sq_body req")
        case (Inl u)
        show thesis using run' Inl by (intro den) (simp, simp add: bad_request_def)
      next
        case body: (Inr b)
        show thesis
        proof (cases "b = []")
          case False
          show thesis using run' body False by (intro den) (simp, simp add: bad_request_def)
        next
          case True
          show thesis
          proof (cases "validate_channel (sq_channel req) (max_arg_bytes (st_security S))")
            case (Inl e)
            then have "ae_status e = 400" by (auto simp: validate_channel_def bad_request_def split: if_splits)
            then show thesis using run' body True Inl F by (intro den [of "''channel''" e]) simp_all
          next
            case (Inr u)
            show thesis
            proof (cases "st_realtime_permits S = 0")
              case no: True
              show thesis
                using run' body True Inr F no
                by (intro den) (simp add: acquire_realtime_def, simp add: too_many_requests_def)
            next
              case False
              then show thesis
                using run' body True Inr F R k granted [of route S1] by (auto simp: acquire_realtime_def)
            qed
          qed
        qed
      qed
    qed
  qed
qed

section \<open>Permits and the gauge of subscriptions\<close>

definition rt_inv :: "app_state \<Rightarrow> realtime_world \<Rightarrow> bool" where
  "rt_inv S0 w \<longleftrightarrow>
     st_realtime_permits (rw_state w) + length (rw_pending w) + length (rw_streams w) = st_realtime_permits S0 \<and>
     guards_run realtime_connection close_subscription realtime_inflight (st_metrics S0)
       (map rs_guard (rw_streams w)) (st_metrics (rw_state w))"

lemma length_remove_at: "i < length xs \<Longrightarrow> Suc (length (remove_at i xs)) = length xs"
  by (simp add: remove_at_def)

lemma map_remove_at: "map f (remove_at i xs) = remove_at i (map f xs)"
  by (simp add: remove_at_def take_map drop_map)

lemma rt_inv_other:
  "rt_inv S0 w \<Longrightarrow> same_bridge (rw_state w) S' \<Longrightarrow>
   \<forall>ls. gauge_value (st_metrics S') realtime_inflight ls = gauge_value (st_metrics (rw_state w)) realtime_inflight ls \<Longrightarrow>
   rt_inv S0 (w\<lparr>rw_state := S'\<rparr>)"
  unfolding rt_inv_def using same_bridge_fields(6) by (auto intro: run_other)

lemma rt_inv_keeps: "rt_inv S0 w \<Longrightarrow> keeps_inflight (rw_state w) S' \<Longrightarrow> rt_inv S0 (w\<lparr>rw_state := S'\<rparr>)"
  using rt_inv_other by (simp add: keeps_inflight_def)

lemma step_keeps: "stream_step s stim = (es, s') \<Longrightarrow> rs_guard s' = rs_guard s \<and> rs_channel s' = rs_channel s"
  by (cases "rs_pc s"; cases stim) (auto split: wait.splits sum.splits)

lemma announce_keeps:
  "stream_announce s = (es, s') \<Longrightarrow> rs_guard s' = rs_guard s \<and> rs_channel s' = rs_channel s"
  by (auto simp: stream_announce_def split: stream_pc.splits)

lemma rt_inv_stream:
  "rt_inv S0 w \<Longrightarrow> i < length (rw_streams w) \<Longrightarrow> rs_guard s = rs_guard (rw_streams w ! i) \<Longrightarrow>
   rt_inv S0 (w\<lparr>rw_streams := (rw_streams w)[i := s]\<rparr>)"
  by (simp add: rt_inv_def map_update) (metis length_map list_update_id nth_map)

lemma subscribe_finish_opened:
  assumes "subscribe_finish p ended S = (resp, Some s, S')"
  shows "st_realtime_permits S' = st_realtime_permits S"
    and "realtime_connection (target_id (target_of S (pe_route p))) (st_metrics S) = (rs_guard s, st_metrics S')"
  using assms
  by (auto simp: subscribe_finish_def Let_def split: wait.splits sum.splits prod.splits)

lemma subscribe_finish_failed:
  assumes "subscribe_finish p ended S = (resp, None, S')"
  shows "st_realtime_permits S' = Suc (st_realtime_permits S)"
    and "gauge_value (st_metrics S') realtime_inflight ls = gauge_value (st_metrics S) realtime_inflight ls"
  using assms
  by (auto simp: subscribe_finish_def Let_def deny_subscribe_def release_realtime_def request_denied_def
      gauge_value_append split: wait.splits sum.splits prod.splits)

lemma rt_inv_step:
  assumes "rt_step D w w'" and "rt_inv S0 w"
  shows "rt_inv S0 w'"
  using assms(1)
proof cases
  case (rt_denied clk req resp S')
  from rt_denied(2) have "keeps_inflight (rw_state w) S'" by (cases rule: subscribe_begin_cases) auto
  then show ?thesis using rt_inv_keeps assms(2) rt_denied(1) by blast
next
  case (rt_panic clk req S')
  from rt_panic(2) have "keeps_inflight (rw_state w) S'" by (cases rule: subscribe_begin_cases) auto
  then show ?thesis using rt_inv_keeps assms(2) rt_panic(1) by blast
next
  case (rt_pending clk req p S')
  from rt_pending(2) obtain S1 where "keeps_inflight (rw_state w) S1" "st_realtime_permits (rw_state w) > 0"
      "S' = S1\<lparr>st_realtime_permits := st_realtime_permits (rw_state w) - 1\<rparr>"
    by (cases rule: subscribe_begin_cases) auto
  then show ?thesis
    using rt_inv_keeps [OF assms(2), of S1] assms(2) rt_pending(1) by (auto simp: rt_inv_def)
next
  case (rt_opened i ended resp s S')
  have "guards_run realtime_connection close_subscription realtime_inflight (st_metrics S0)
      (map rs_guard (rw_streams w) @ [rs_guard s]) (st_metrics S')"
    by (rule run_open) (use assms(2) subscribe_finish_opened(2) [OF rt_opened(3)] in \<open>auto simp: rt_inv_def\<close>)
  then show ?thesis
    using subscribe_finish_opened(1) [OF rt_opened(3)] length_remove_at [OF rt_opened(2)] assms(2) rt_opened(1)
    by (simp add: rt_inv_def)
next
  case (rt_failed i ended resp S')
  then show ?thesis
    using subscribe_finish_failed [OF rt_failed(3)] length_remove_at [OF rt_failed(2)] assms(2)
    by (auto simp: rt_inv_def intro: run_other)
next
  case (rt_announce i es s)
  then show ?thesis using rt_inv_stream [OF assms(2)] announce_keeps by blast
next
  case (rt_stream i stim es s)
  then show ?thesis using rt_inv_stream [OF assms(2)] step_keeps by blast
next
  case (rt_dropped i)
  have "guards_run realtime_connection close_subscription realtime_inflight (st_metrics S0)
      (remove_at i (map rs_guard (rw_streams w)))
      (close_subscription () (map rs_guard (rw_streams w) ! i) (st_metrics (rw_state w)))"
    unfolding remove_at_def by (rule run_close) (use assms(2) rt_dropped(2) in \<open>auto simp: rt_inv_def\<close>)
  then show ?thesis
    using rt_dropped length_remove_at [OF rt_dropped(2)] assms(2)
    by (simp add: rt_inv_def stream_drop_def release_realtime_def close_subscription_def map_remove_at)
next
  case (rt_other S')
  then show ?thesis using rt_inv_other [OF assms(2)] by auto
qed

lemma rt_reach_inv: "rt_reach D S0 w \<Longrightarrow> rt_inv S0 w"
proof (induction rule: rt_reach.induct)
  case rt_start
  then show ?case by (simp add: rt_inv_def run_start)
next
  case (rt_next w w')
  then show ?case using rt_inv_step by blast
qed

section \<open>Properties\<close>

text \<open>C9: No permit of the realtime limiter is lost or gained. However requests, setups, messages, reconnections
  and disconnects interleave and however each setup ends, the free permits, the requests that are
  setting up and the open streams add up to the configured limit, so never more streams than that are
  open, and the gauge of each target has grown by exactly its open streams.\<close>
theorem realtime_permits_accounted:
  assumes "rt_reach D S0 w"
  shows "st_realtime_permits (rw_state w) + length (rw_pending w) + length (rw_streams w) =
      st_realtime_permits S0 \<and>
    gauge_value (st_metrics (rw_state w)) realtime_inflight [t] =
      gauge_value (st_metrics S0) realtime_inflight [t] +
        int (length (filter (\<lambda>s. cg_target (rs_guard s) = t) (rw_streams w)))"
proof -
  have inv: "rt_inv S0 w" using rt_reach_inv [OF assms] .
  then have "gauge_value (st_metrics (rw_state w)) realtime_inflight [t] =
      gauge_value (st_metrics S0) realtime_inflight [t] +
        int (length (filter (\<lambda>g. [cg_target g] = [t]) (map rs_guard (rw_streams w))))"
    unfolding rt_inv_def by (intro subscriptions.gauge_counts_alive) simp
  then show ?thesis using inv by (simp add: rt_inv_def filter_map o_def)
qed

lemma subscribe_finish_status:
  "subscribe_finish p ended S = (Some resp, stream, S') \<Longrightarrow>
   (resp_status resp = 200 \<longleftrightarrow> stream \<noteq> None) \<and> resp_status resp \<in> {200, 503, 504}"
  by (auto simp: subscribe_finish_def Let_def deny_subscribe_def api_error_defs event_response_def
      split: wait.splits sum.splits prod.splits)

lemma subscribe_finish_stream:
  "subscribe_finish p ended S = (resp, Some s, S') \<Longrightarrow>
   rs_channel s = pe_channel p \<and> rs_target s = route_target (pe_route p) \<and> (\<exists>c. rs_pc s = Announce c) \<and>
   rs_backoff s = REALTIME_BACKOFF"
  by (auto simp: subscribe_finish_def Let_def split: wait.splits sum.splits prod.splits)

lemma setup_channels: "pubsub_setup P channel = (ended, channels) \<Longrightarrow> set channels \<subseteq> {channel}"
  by (auto simp: pubsub_setup_def split: wait.splits sum.splits)

lemma subscribe_begin_ready:
  assumes "lockout_ready clk S"
  shows "fst (subscribe_begin D clk req S) \<noteq> Panic"
proof -
  obtain x S1 where "realtime_auth D clk (sq_headers req) (client_ip S (sq_headers req) (sq_peer req)) S = (Done x, S1)"
    using realtime_auth_ready [OF assms] by blast
  then show ?thesis
    by (simp add: subscribe_begin_def Let_def split: sum.splits prod.splits bool.splits)
qed

text \<open>The lockout table after a request.\<close>

lemma subscribe_begin_lockout:
  "subscribe_begin D clk req S = (r, S') \<Longrightarrow>
   st_auth_lockout S' = st_auth_lockout (snd (realtime_auth D clk (sq_headers req)
     (client_ip S (sq_headers req) (sq_peer req)) S))"
  by (auto simp: subscribe_begin_def Let_def deny_subscribe_def acquire_realtime_def
      split: prod.splits outcome.splits sum.splits if_splits)

lemma subscribe_finish_lockout:
  "subscribe_finish p ended S = (resp, stream, S') \<Longrightarrow> st_auth_lockout S' = st_auth_lockout S"
  by (auto simp: subscribe_finish_def Let_def deny_subscribe_def release_realtime_def
      split: prod.splits wait.splits sum.splits)

lemma subscribe_kept:
  assumes "lockout_ready clk S" and "subscribe D clk P req S = (r, stream, S', subs)"
  shows "lockout_kept clk S S' \<and> r \<noteq> Panic"
proof -
  obtain b S1 where b: "subscribe_begin D clk req S = (b, S1)" by fastforce
  have "lockout_kept clk S S1"
    using subscribe_begin_lockout [OF b] realtime_auth_kept [OF assms(1)] by (metis lockout_kept_def prod.collapse)
  moreover have "st_auth_lockout S' = st_auth_lockout S1"
    using assms(2) b
    by (auto simp: subscribe_def split: outcome.splits sum.splits prod.splits dest: subscribe_finish_lockout)
  moreover have "r \<noteq> Panic"
    using assms(2) b subscribe_begin_ready [OF assms(1), of D req]
    by (auto simp: subscribe_def split: outcome.splits sum.splits prod.splits)
  ultimately show ?thesis by (simp add: lockout_kept_def)
qed

text \<open>C10: A subscription is opened only for a realtime token. With a lockout table in order \<^verbatim>\<open>subscribe\<close> never panics; it
  answers, unless the client has gone, with a status of 200, 400, 401, 403, 429, 503 and 504, and 200
  exactly when it opens a stream. A channel is subscribed on Redis only when the token had a route with
  the realtime capability, to the target of that route, the body was the empty array, the channel is the valid
  channel of the request and a permit was free; and a permit is kept exactly when a stream is opened.\<close>
theorem subscribe_outcomes:
  assumes "subscribe D clk P req S = (r, stream, S', subs)" and "lockout_ready clk S"
  shows "\<exists>resp. r = Done resp \<and>
    (\<forall>x. resp = Some x \<longrightarrow> resp_status x \<in> {200, 400, 401, 403, 429, 503, 504} \<and>
      (resp_status x = 200 \<longleftrightarrow> stream \<noteq> None)) \<and>
    (\<forall>i channel. (i, channel) \<in> set subs \<longrightarrow> (\<exists>route. route_for D S (sq_headers req) = Some route \<and>
      route_allows_realtime route \<and> i = route_target route \<and> sq_body req = Ok [] \<and>
      channel = sq_channel req \<and> st_realtime_permits S > 0 \<and>
      validate_channel channel (max_arg_bytes (st_security S)) = Ok ())) \<and>
    st_realtime_permits S = st_realtime_permits S' + (if stream = None then 0 else 1)"
proof -
  obtain b S1 where b: "subscribe_begin D clk req S = (b, S1)" by fastforce
  from b show ?thesis
  proof (cases rule: subscribe_begin_cases)
    case panic
    then show ?thesis using b subscribe_begin_ready [OF assms(2), of D req] by simp
  next
    case (denied reason e S2)
    then show ?thesis
      using assms(1) b same_bridge_fields(6)
      by (auto simp: subscribe_def keeps_inflight_def into_response_def json_response_def)
  next
    case (granted route S2)
    let ?p = "\<lparr>pe_route = route, pe_channel = sq_channel req\<rparr>"
    obtain ended channels where s: "pubsub_setup P (sq_channel req) = (ended, channels)" by fastforce
    obtain resp stream' S3 where f: "subscribe_finish ?p ended S1 = (resp, stream', S3)" by (metis prod_cases3)
    have eq: "r = Done resp" "stream = stream'" "S' = S3" "subs = map (Pair (route_target route)) channels"
      using assms(1) b granted(1) s f by (auto simp: subscribe_def)
    have "st_realtime_permits S = st_realtime_permits S' + (if stream = None then 0 else 1)"
      using subscribe_finish_failed(1) [of ?p ended S1 resp S3] subscribe_finish_opened(1) [of ?p ended S1 resp _ S3] f eq granted(7,8)
      by (cases stream') auto
    moreover have "\<forall>x. resp = Some x \<longrightarrow> resp_status x \<in> {200, 400, 401, 403, 429, 503, 504} \<and>
      (resp_status x = 200 \<longleftrightarrow> stream \<noteq> None)"
      using subscribe_finish_status f eq by blast
    ultimately show ?thesis
      using setup_channels [OF s] eq granted(2-5,7) by auto
  qed
qed

text \<open>The realtime bridge of the examples.\<close>

definition sample_realtime :: app_state where
  "sample_realtime = sample_state\<lparr>st_token_routes := [(TokenHash ''secret'',
     \<lparr>route_target = 0, route_type = caps_none\<lparr>cap_realtime := True\<rparr>\<rparr>)]\<rparr>"

definition sample_subscribe :: subscribe_request where
  "sample_subscribe = \<lparr>sq_peer = ipv4 1 2 3 4, sq_headers = sample_headers ''secret'', sq_channel = ''news'',
     sq_body = Ok []\<rparr>"

definition sample_pubsub :: pubsub_weather where
  "sample_pubsub = \<lparr>on_pubsub = Completes (Ok 7), on_subscribe = (\<lambda>_ _. Completes (Ok ()))\<rparr>"

lemma sample_realtime_ready: "lockout_ready \<lparr>now = 1, later = 1\<rparr> sample_realtime"
  using sample_ready by (simp add: lockout_ready_def sample_realtime_def)

lemma sample_begins:
  "\<exists>S'. subscribe_begin sample_digests \<lparr>now = 1, later = 1\<rparr> sample_subscribe sample_realtime =
     (Done (Ok \<lparr>pe_route = \<lparr>route_target = 0, route_type = caps_none\<lparr>cap_realtime := True\<rparr>\<rparr>,
       pe_channel = ''news''\<rparr>), S')"
proof -
  let ?r = "\<lparr>route_target = 0, route_type = caps_none\<lparr>cap_realtime := True\<rparr>\<rparr>"
  have "route_for sample_digests sample_realtime (sample_headers ''secret'') = Some ?r"
    by (simp add: route_for_def sample_bearer request_hash_def sample_realtime_def sample_state_def
        sample_digests_def TokenHash_sha256_def)
  moreover have "route_allows_realtime ?r" by (simp add: route_allows_realtime_def allows_realtime_def)
  ultimately obtain S1 where a: "realtime_auth sample_digests \<lparr>now = 1, later = 1\<rparr> (sample_headers ''secret'')
      (ipv4 1 2 3 4) sample_realtime = (Done (Ok ?r), S1)"
    using realtime_auth_ready [OF sample_realtime_ready] by blast
  note F = same_bridge_fields [OF realtime_auth_Ok(3) [OF a]]
  have "client_ip sample_realtime (sample_headers ''secret'') (ipv4 1 2 3 4) = ipv4 1 2 3 4"
    "max_arg_bytes (st_security S1) = 16" "st_realtime_permits S1 = 1"
    by (simp_all add: F) (simp_all add: client_ip_def sample_realtime_def sample_state_def sample_policy_def)
  then show ?thesis
    using a by (simp add: subscribe_begin_def sample_subscribe_def validate_channel_def acquire_realtime_def)
qed

theorem subscribe_outcomes_witness:
  "\<exists>resp stream S' subs. subscribe sample_digests \<lparr>now = 1, later = 1\<rparr> sample_pubsub sample_subscribe sample_realtime =
     (Done (Some resp), Some stream, S', subs) \<and> resp_status resp = 200 \<and> st_realtime_permits S' = 0"
proof -
  obtain S1 where b: "subscribe_begin sample_digests \<lparr>now = 1, later = 1\<rparr> sample_subscribe sample_realtime =
     (Done (Ok \<lparr>pe_route = \<lparr>route_target = 0, route_type = caps_none\<lparr>cap_realtime := True\<rparr>\<rparr>,
       pe_channel = ''news''\<rparr>), S1)"
    using sample_begins by blast
  then obtain resp stream S' subs where s:
    "subscribe sample_digests \<lparr>now = 1, later = 1\<rparr> sample_pubsub sample_subscribe sample_realtime =
       (Done (Some resp), Some stream, S', subs)"
    by (auto simp: subscribe_def pubsub_setup_def sample_pubsub_def subscribe_finish_def Let_def
        realtime_connection_def event_response_def)
  then show ?thesis
    using subscribe_outcomes [OF s sample_realtime_ready] by (auto simp: sample_realtime_def sample_state_def)
qed

theorem realtime_permits_accounted_witness:
  "\<exists>w :: realtime_world. st_realtime_permits (rw_state w) + length (rw_pending w) + length (rw_streams w) = 1 \<and>
     length (rw_pending w) = 1"
proof -
  obtain p S' where "subscribe_begin sample_digests \<lparr>now = 1, later = 1\<rparr> sample_subscribe
      (rw_state \<lparr>rw_state = sample_realtime, rw_pending = [], rw_streams = []\<rparr>) = (Done (Ok p), S')"
    using sample_begins by auto
  from rt_next [OF rt_start rt_pending [OF this]]
  have "rt_reach sample_digests sample_realtime \<lparr>rw_state = S', rw_pending = [p], rw_streams = []\<rparr>" by simp
  from realtime_permits_accounted [OF this] show ?thesis
    by (intro exI [of _ "\<lparr>rw_state = S', rw_pending = [p], rw_streams = []\<rparr>"])
       (auto simp: sample_realtime_def sample_state_def)
qed

text \<open>
  How an event reaches the client is axum's and the format of server-sent events: a text is broken into
  fields at its line feeds and put together again by the client, so it arrives unchanged unless it has a carriage
  return, which the format cannot carry. How a client of the protocol takes an event apart: at its first two commas.
\<close>

type_synonym transport = "string \<Rightarrow> string option"

definition sse_transport :: "transport \<Rightarrow> bool" where
  "sse_transport sse \<longleftrightarrow> (\<forall>t. CHR 0x0D \<notin> set t \<longrightarrow> sse t = Some t)"

definition split_event :: "string \<Rightarrow> (string \<times> string \<times> string) option" where
  "split_event e = Option.bind (split_once CHR '','' e) (\<lambda>(kind, rest).
     map_option (\<lambda>(channel, payload). (kind, channel, payload)) (split_once CHR '','' rest))"

text \<open>C36: What the client reads back from an event is what Redis published, when the payload has no carriage
  return: over a transport that carries texts without carriage returns unchanged, a valid channel passes, and because it
  has no comma, splitting the event at its first two commas gives its kind, the channel and the payload,
  whatever commas and line feeds the payload has; a payload that is not UTF-8 arrives as its lossy decoding, any other as it is.\<close>
theorem event_roundtrip:
  assumes "sse_transport sse" and "validate_channel channel m = Ok ()" and "CHR 0x0D \<notin> set payload"
  shows "Option.bind (sse (message_event channel payload)) split_event =
      Some (''message'', channel, if utf8_valid payload then payload else from_utf8_lossy payload) \<and>
    Option.bind (sse (subscribed_event channel)) split_event = Some (''subscribe'', channel, ''1'')"
proof -
  have c: "CHR '','' \<notin> set channel" "CHR 0x0D \<notin> set channel"
    using assms(2) by (auto simp: validate_channel_def list_ex_iff split: if_splits)
  then have "split_event (kind @ '','' @ channel @ '','' @ rest) = Some (kind, channel, rest)"
    if "CHR '','' \<notin> set kind" for kind rest
    using that split_once_Some [of "CHR '',''" "kind @ '','' @ channel @ '','' @ rest" kind "channel @ '','' @ rest"]
      split_once_Some [of "CHR '',''" "channel @ '','' @ rest" channel rest]
    by (simp add: split_event_def)
  note split = this [of "''message''" "from_utf8_lossy payload"] this [of "''subscribe''" "''1''"]
  have "CHR 0x0D \<notin> set (from_utf8_lossy payload)" using lossy_ascii [of "CHR 0x0D" payload] assms(3) by auto
  then have "sse (message_event channel payload) = Some (message_event channel payload)"
      "sse (subscribed_event channel) = Some (subscribed_event channel)"
    using assms(1) c(2) by (simp_all add: sse_transport_def message_event_def subscribed_event_def)
  then show ?thesis
    using split by (simp add: message_event_def subscribed_event_def lossy_valid_id)
qed

text \<open>A transport that drops what it cannot carry.\<close>

definition sample_sse :: transport where
  "sample_sse t = (if CHR 0x0D \<in> set t then None else Some t)"

theorem event_roundtrip_witness:
  "Option.bind (sample_sse (message_event ''news'' ''a,b'')) split_event = Some (''message'', ''news'', ''a,b'')"
proof -
  have "sse_transport sample_sse" by (simp add: sse_transport_def sample_sse_def)
  moreover have "validate_channel ''news'' 16 = Ok ()" by (simp add: validate_channel_def)
  moreover have "utf8_valid ''a,b''" by code_simp
  ultimately show ?thesis using event_roundtrip [of sample_sse "''news''" 16 "''a,b''"] by simp
qed

text \<open>A stream is polled for what it waits for.\<close>

fun enabled :: "stream_pc \<Rightarrow> stimulus \<Rightarrow> bool" where
  "enabled (Receiving c) (Message ch payload) = True"
| "enabled (Receiving c) Closed = True"
| "enabled Reconnecting (Attempt P) = True"
| "enabled Sleeping Woken = True"
| "enabled _ _ = False"

fun enabled_run :: "rt_stream \<Rightarrow> stimulus list \<Rightarrow> bool" where
  "enabled_run s [] = True"
| "enabled_run s (stim # stims) \<longleftrightarrow> enabled (rs_pc s) stim \<and> enabled_run (snd (stream_step s stim)) stims"

fun message_events :: "stimulus list \<Rightarrow> string list" where
  "message_events [] = []"
| "message_events (Message ch payload # stims) = message_event ch payload # message_events stims"
| "message_events (_ # stims) = message_events stims"

lemma step_events: "enabled (rs_pc s) stim \<Longrightarrow> fst (stream_step s stim) = message_events [stim]"
  by (cases "rs_pc s"; cases stim) (auto split: wait.splits sum.splits)

lemma message_events_Cons: "message_events (x # xs) = message_events [x] @ message_events xs"
  by (cases x) simp_all

lemma run_events: "enabled_run s stims \<Longrightarrow> fst (stream_run s stims) = message_events stims"
proof (induction stims arbitrary: s)
  case (Cons x xs)
  then show ?case
    using step_events [of s x] by (simp add: Let_def split_beta message_events_Cons [of x xs] del: stream_step.simps)
qed simp

definition backoff_ok :: "rt_stream \<Rightarrow> bool" where
  "backoff_ok s \<longleftrightarrow> REALTIME_BACKOFF \<le> rs_backoff s \<and> rs_backoff s \<le> REALTIME_MAX_BACKOFF"

lemmas realtime_delays = REALTIME_BACKOFF_def REALTIME_MAX_BACKOFF_def from_millis_def from_secs_def

lemma step_backoff: "backoff_ok s \<Longrightarrow> backoff_ok (snd (stream_step s stim))"
  by (cases "rs_pc s"; cases stim)
     (auto simp: backoff_ok_def realtime_delays split: wait.splits sum.splits)

lemma run_backoff: "backoff_ok s \<Longrightarrow> backoff_ok (snd (stream_run s stims))"
proof (induction stims arbitrary: s)
  case (Cons x xs)
  then show ?case using step_backoff [of s x] by (simp add: Let_def split_beta del: stream_step.simps)
qed simp

text \<open>C37: A stream delivers every message it receives, once and in order. From its first poll on, through any
  number of disconnects and attempts to reconnect, the events of a stream are the announcement of
  its channel and then one event per message, and the delay before an attempt stays between 250 milliseconds
  and 5 seconds.\<close>
theorem stream_delivers_in_order:
  assumes "rs_pc s = Announce c" and "rs_backoff s = REALTIME_BACKOFF"
    and "enabled_run (snd (stream_announce s)) stims"
  shows "fst (stream_events s stims) =
      subscribed_event (rs_channel s) # message_events stims \<and>
    from_millis 250 \<le> rs_backoff (snd (stream_events s stims)) \<and>
    rs_backoff (snd (stream_events s stims)) \<le> from_secs 5"
proof -
  define s1 where "s1 = s\<lparr>rs_pc := Receiving c\<rparr>"
  have a: "stream_announce s = ([subscribed_event (rs_channel s)], s1)"
    using assms(1) by (simp add: stream_announce_def s1_def)
  have "backoff_ok s1" using assms(2) by (simp add: backoff_ok_def s1_def realtime_delays)
  then have "backoff_ok (snd (stream_run s1 stims))" by (rule run_backoff)
  moreover have "fst (stream_run s1 stims) = message_events stims" using assms(3) a by (simp add: run_events)
  ultimately show ?thesis
    using a by (auto simp: stream_events_def Let_def split_beta backoff_ok_def REALTIME_BACKOFF_def REALTIME_MAX_BACKOFF_def)
qed

definition sample_stream :: "stream_pc \<Rightarrow> rt_stream" where
  "sample_stream pc = \<lparr>rs_pc = pc, rs_channel = ''news'', rs_target = 0, rs_guard = \<lparr>cg_target = ''t''\<rparr>,
     rs_backoff = REALTIME_BACKOFF\<rparr>"

theorem stream_delivers_in_order_witness:
  "fst (stream_events (sample_stream (Announce 7))
     [Message ''news'' ''a'', Closed, Attempt sample_pubsub, Message ''news'' ''b'']) =
   [''subscribe,news,1'', ''message,news,a'', ''message,news,b'']"
proof -
  have "enabled_run (snd (stream_announce (sample_stream (Announce 7))))
      [Message ''news'' ''a'', Closed, Attempt sample_pubsub, Message ''news'' ''b'']"
    by (simp add: stream_announce_def sample_stream_def sample_pubsub_def pubsub_setup_def)
  moreover have "from_utf8_lossy ''a'' = ''a''" "from_utf8_lossy ''b'' = ''b''" by code_simp+
  ultimately show ?thesis
    using stream_delivers_in_order [of "sample_stream (Announce 7)" 7
        "[Message ''news'' ''a'', Closed, Attempt sample_pubsub, Message ''news'' ''b'']"]
    by (simp add: sample_stream_def subscribed_event_def message_event_def)
qed

lemma run_append:
  "stream_run s (xs @ ys) =
     (fst (stream_run s xs) @ fst (stream_run (snd (stream_run s xs)) ys),
      snd (stream_run (snd (stream_run s xs)) ys))"
  by (induction xs arbitrary: s) (simp_all add: Let_def split_beta del: stream_step.simps)

lemma failed_attempts:
  "rs_pc s = Reconnecting \<Longrightarrow> rs_backoff s = min (from_millis (250 * 2 ^ n)) (from_secs 5) \<Longrightarrow>
   \<forall>P \<in> set bad. fst (pubsub_setup P (rs_channel s)) \<in> {Completes (Err ()), Elapses} \<Longrightarrow>
   stream_run s (concat (map (\<lambda>P. [Attempt P, Woken]) bad)) =
     ([], s\<lparr>rs_backoff := min (from_millis (250 * 2 ^ (n + length bad))) (from_secs 5)\<rparr>)"
proof (induction bad arbitrary: s n)
  case Nil
  then show ?case by simp
next
  case (Cons P bad)
  let ?s = "s\<lparr>rs_backoff := min (from_millis (250 * 2 ^ Suc n)) (from_secs 5)\<rparr>"
  have "min (rs_backoff s * 2) REALTIME_MAX_BACKOFF = rs_backoff ?s"
    using Cons.prems(2) by (auto simp: realtime_delays min_def)
  then have "stream_run s [Attempt P, Woken] = ([], ?s)"
    using Cons.prems by auto
  moreover have "stream_run ?s (concat (map (\<lambda>P. [Attempt P, Woken]) bad)) =
      ([], ?s\<lparr>rs_backoff := min (from_millis (250 * 2 ^ (Suc n + length bad))) (from_secs 5)\<rparr>)"
    using Cons.prems by (intro Cons.IH) simp_all
  ultimately show ?case
    using run_append [of s "[Attempt P, Woken]" "concat (map (\<lambda>P. [Attempt P, Woken]) bad)"] by simp
qed


text \<open>C38: A stream that lost its connection always comes back. After any number of failed attempts, of whatever
  kind, the delay is 250 milliseconds doubled once per attempt and capped at 5 seconds, and the first attempt
  that succeeds puts the stream back to receiving on the same channel, with the delay reset.\<close>
theorem stream_reconnects:
  assumes "rs_pc s = Receiving c" and "rs_backoff s = REALTIME_BACKOFF"
    and "\<forall>P \<in> set bad. fst (pubsub_setup P (rs_channel s)) \<in> {Completes (Err ()), Elapses}"
    and "fst (pubsub_setup good (rs_channel s)) = Completes (Ok c')"
  shows "stream_run s (Closed # concat (map (\<lambda>P. [Attempt P, Woken]) bad)) =
      ([], s\<lparr>rs_pc := Reconnecting, rs_backoff := min (from_millis (250 * 2 ^ length bad)) (from_secs 5)\<rparr>) \<and>
    stream_run s (Closed # concat (map (\<lambda>P. [Attempt P, Woken]) bad) @ [Attempt good]) =
      ([], s\<lparr>rs_pc := Receiving c'\<rparr>)"
proof -
  let ?tries = "concat (map (\<lambda>P. [Attempt P, Woken]) bad)"
  let ?s = "s\<lparr>rs_pc := Reconnecting, rs_backoff := min (from_millis (250 * 2 ^ length bad)) (from_secs 5)\<rparr>"
  have "stream_run (s\<lparr>rs_pc := Reconnecting\<rparr>) ?tries = ([], ?s)"
    using failed_attempts [of "s\<lparr>rs_pc := Reconnecting\<rparr>" 0 bad] assms(2,3) by (simp add: realtime_delays)
  then have run: "stream_run s (Closed # ?tries) = ([], ?s)" using assms(1) by simp
  moreover have "stream_run ?s [Attempt good] = ([], s\<lparr>rs_pc := Receiving c'\<rparr>)"
    using assms(2,4) by simp
  ultimately show ?thesis using run_append [of s "Closed # ?tries" "[Attempt good]"] by simp
qed

theorem stream_reconnects_witness:
  "stream_run (sample_stream (Receiving 7))
     [Closed, Attempt (sample_pubsub\<lparr>on_pubsub := Elapses\<rparr>), Woken, Attempt sample_pubsub] =
   ([], sample_stream (Receiving 7))"
  using stream_reconnects [of "sample_stream (Receiving 7)" 7 "[sample_pubsub\<lparr>on_pubsub := Elapses\<rparr>]"
      sample_pubsub 7]
  by (simp add: sample_stream_def sample_pubsub_def pubsub_setup_def)

end
