(* ===== verification/Server.thy ===== *)
theory Server
  imports Handlers Realtime
begin

text \<open>
  The start of the server (\<^verbatim>\<open>src/main.rs\<close>): the configuration becomes the state, the connection supervisors
  are started, and the layers of the routers are built, of which the concurrency limit makes a semaphore that
  panics when the limit is larger than the largest one. The listener is outside.
\<close>

section \<open>Start-up\<close>

datatype start_error =
    ConfigFailed config_error
  | InvalidBindAddress
  | StateFailed app_error
  | ListenFailed

record server =
  srv_bind :: ip_addr
  srv_port :: nat
  srv_state :: app_state
  srv_workers :: "worker list list"
  srv_body_limit :: nat
  srv_max_concurrency :: nat

definition bind_address :: "bridge \<Rightarrow> ip_addr option" where
  "bind_address b = parse_socket_ip (br_host b @ '':'' @ show_nat (br_port b))"

definition start :: "host \<Rightarrow> libraries \<Rightarrow> (ip_addr \<Rightarrow> nat \<Rightarrow> bool) \<Rightarrow> (start_error, server) result outcome" where
  "start H L listens =
     (case from_env H of
        Inl e \<Rightarrow> Done (Err (ConfigFailed e))
      | Inr config \<Rightarrow>
          (case bind_address config of
             None \<Rightarrow> Done (Err InvalidBindAddress)
           | Some bind' \<Rightarrow>
               (case AppState_new L config of
                  Panic \<Rightarrow> Panic
                | Done (Inl e) \<Rightarrow> Done (Err (StateFailed e))
                | Done (Inr state) \<Rightarrow>
                    if br_max_concurrency config > lib_max_permits L then Panic
                    else if \<not> listens bind' (br_port config) then Done (Err ListenFailed)
                    else Done (Ok \<lparr>srv_bind = bind', srv_port = br_port config, srv_state = state,
                      srv_workers = start_connection_workers state,
                      srv_body_limit = br_max_body_bytes config,
                      srv_max_concurrency = br_max_concurrency config\<rparr>))))"

section \<open>A started server\<close>

lemma add_targets_accepts:
  "add_targets L cs targets routes M = Done (Ok x) \<Longrightarrow>
   list_all (\<lambda>c. lib_client_open L (connection_string c) \<and> operation_limit c \<le> lib_max_permits L) cs"
  by (induction cs arbitrary: targets routes M) (auto split: if_splits sum.splits)

lemma AppState_new_accepts:
  "AppState_new L b = Done (Ok S) \<Longrightarrow> libraries_accept L b"
  by (auto simp: AppState_new_def libraries_accept_def dest: add_targets_accepts
      split: sum.splits outcome.splits prod.splits if_splits)

text \<open>What a started server is made of.\<close>

lemma started:
  assumes "start H L listens = Done (Ok srv)"
  obtains b where "from_env H = Ok b" and "bridge_ok b" and "AppState_new L b = Done (Ok (srv_state srv))"
    and "libraries_accept L b" and "br_max_concurrency b \<le> lib_max_permits L" and "bind_address b = Some (srv_bind srv)" and "srv_port srv = br_port b"
    and "listens (srv_bind srv) (br_port b)"
    and "srv_workers srv = start_connection_workers (srv_state srv)"
proof -
  obtain b where b: "from_env H = Ok b" using assms by (auto simp: start_def split: sum.splits)
  show thesis
    using assms b that [OF b from_env_bridge_ok [OF b]] AppState_new_accepts
    by (auto simp: start_def split: option.splits outcome.splits sum.splits if_splits)
qed

lemma started_state:
  assumes "start H L listens = Done (Ok srv)" and "from_env H = Ok b"
  shows "hget (st_token_routes (srv_state srv)) h = Some r \<longleftrightarrow> route_spec (br_targets b) h r"
    and "st_targets (srv_state srv) = map RedisTarget_new (br_targets b)"
    and "st_hash_token (srv_state srv) = br_hash_token b"
    and "st_security (srv_state srv) = br_security b"
    and "st_auth_lockout (srv_state srv) = AuthLockout_new (br_auth_lockout_failures b) (br_auth_lockout_window b)
      (br_auth_lockout_duration b) (br_auth_lockout_max_entries b)"
    and "st_realtime_permits (srv_state srv) = br_max_realtime_concurrency b"
    and "st_max_response_bytes (srv_state srv) = br_max_response_bytes b"
proof -
  obtain b' where b': "from_env H = Ok b'" "bridge_ok b'" "AppState_new L b' = Done (Ok (srv_state srv))"
      "libraries_accept L b'"
    using started [OF assms(1)] by metis
  then have "b' = b" using assms(2) by simp
  then show "hget (st_token_routes (srv_state srv)) h = Some r \<longleftrightarrow> route_spec (br_targets b) h r"
    and "st_targets (srv_state srv) = map RedisTarget_new (br_targets b)"
    and "st_hash_token (srv_state srv) = br_hash_token b"
    and "st_security (srv_state srv) = br_security b"
    and "st_auth_lockout (srv_state srv) = AuthLockout_new (br_auth_lockout_failures b) (br_auth_lockout_window b)
      (br_auth_lockout_duration b) (br_auth_lockout_max_entries b)"
    and "st_realtime_permits (srv_state srv) = br_max_realtime_concurrency b"
    and "st_max_response_bytes (srv_state srv) = br_max_response_bytes b"
    using AppState_new_Ok [OF b'(2,4)] b'(3) by auto
qed

text \<open>
  A limit that the runtime's semaphore cannot hold passes the checks of the configuration and makes the
  start-up panic instead of reporting an error.
\<close>

lemma permit_limit_panics:
  assumes "from_env H = Ok b" and "bind_address b = Some a"
    and "Metrics_new (lib_create L) (lib_enter L) [] = Ok reg"
    and "list_all (\<lambda>c. lib_client_open L (connection_string c) \<and> operation_limit c \<le> lib_max_permits L) (br_targets b)"
    and "lib_max_permits L < br_max_realtime_concurrency b \<or> lib_max_permits L < br_max_concurrency b"
  shows "start H L listens = Panic"
proof -
  have ok: "targets_ok (br_targets b)" using from_env_bridge_ok [OF assms(1)] by (simp add: bridge_ok_def)
  then have "list_all (\<lambda>c. operation_limit c > 0 \<and> connection_shards c > 0 \<and>
      lib_client_open L (connection_string c) \<and> operation_limit c \<le> lib_max_permits L) (br_targets b)"
    using assms(4) by (auto simp: targets_ok_def target_ok_def list_all_iff)
  then have "\<exists>routes' M'. add_targets L (br_targets b) [] []
      [SetTo configured_targets [] (as_i64 (length (br_targets b)))] =
      Done (Ok (map RedisTarget_new ([] @ br_targets b), routes', M')) \<and>
      (\<forall>h r. hget routes' h = Some r \<longleftrightarrow> route_spec ([] @ br_targets b) h r)"
    using ok by (intro add_targets_Ok) (auto simp: route_spec_def targets_ok_def)
  then show ?thesis using assms by (auto simp: start_def AppState_new_def)
qed

end
