(* ===== verification/Routes.thy ===== *)
theory Routes
  imports Server
begin

text \<open>
  The routes of the server and its end (\<^verbatim>\<open>src/main.rs\<close>): the table of paths, methods and layers, the dispatch of a
  request by it, the log filter, and the signals that start the graceful shutdown.
\<close>

section \<open>The table\<close>

datatype http_method = GET | HEAD | POST | OtherMethod

datatype endpoint = Root | Command | Pipeline | MultiExec | Healthz | Readyz | MetricsPage | Subscribe

text \<open>One call of \<^verbatim>\<open>route\<close>, with the layers of the router it is made on.\<close>

record route =
  ro_path :: string
  ro_get :: "endpoint option"
  ro_post :: "endpoint option"
  ro_body_limit :: bool
  ro_concurrency_limit :: bool

definition health_routes :: "route list" where
  "health_routes = map (\<lambda>(path, e). \<lparr>ro_path = path, ro_get = Some e, ro_post = None,
       ro_body_limit = False, ro_concurrency_limit = False\<rparr>)
     [(''/healthz'', Healthz), (''/readyz'', Readyz), (''/metrics'', MetricsPage)]"

definition api_routes :: "route list" where
  "api_routes = map (\<lambda>(path, g, e). \<lparr>ro_path = path, ro_get = g, ro_post = Some e,
       ro_body_limit = True, ro_concurrency_limit = True\<rparr>)
     [(''/'', Some Root, Command), (''/pipeline'', None, Pipeline), (''/multi-exec'', None, MultiExec)]"

definition realtime_routes :: "route list" where
  "realtime_routes = [\<lparr>ro_path = ''/subscribe/{*channel}'', ro_get = None, ro_post = Some Subscribe,
     ro_body_limit = True, ro_concurrency_limit = False\<rparr>]"

definition app_routes :: "route list" where
  "app_routes = health_routes @ api_routes @ realtime_routes"

section \<open>Dispatch\<close>

text \<open>
  Matching a path is axum's: for a pattern and a path, the part the wildcard captured, empty when the pattern has none.
  \<open>path_matching\<close> is what its documentation says of the two forms the table uses: a pattern without
  wildcard matches itself only, and \<^verbatim>\<open>/subscribe/{*channel}\<close> matches every longer path with that beginning.
\<close>

type_synonym matcher = "string \<Rightarrow> string \<Rightarrow> string option"

definition path_matching :: "matcher \<Rightarrow> bool" where
  "path_matching m \<longleftrightarrow>
     (\<forall>pattern path. CHR ''{'' \<notin> set pattern \<longrightarrow> m pattern path = (if path = pattern then Some [] else None)) \<and>
     (\<forall>path c. m ''/subscribe/{*channel}'' path = Some c \<longleftrightarrow> c \<noteq> [] \<and> path = ''/subscribe/'' @ c)"

datatype dispatched = NotFound | MethodNotAllowed | To endpoint string route

text \<open>\<^verbatim>\<open>get\<close> also answers \<^verbatim>\<open>HEAD\<close>; a path without the method is answered with 405, an unknown path with 404.\<close>

fun method_endpoint :: "http_method \<Rightarrow> route \<Rightarrow> endpoint option" where
  "method_endpoint GET r = ro_get r"
| "method_endpoint HEAD r = ro_get r"
| "method_endpoint POST r = ro_post r"
| "method_endpoint OtherMethod r = None"

fun dispatch_in :: "matcher \<Rightarrow> route list \<Rightarrow> http_method \<Rightarrow> string \<Rightarrow> dispatched" where
  "dispatch_in m [] verb path = NotFound"
| "dispatch_in m (r # rs) verb path =
     (case m (ro_path r) path of
        None \<Rightarrow> dispatch_in m rs verb path
      | Some captured \<Rightarrow>
          (case method_endpoint verb r of None \<Rightarrow> MethodNotAllowed | Some e \<Rightarrow> To e captured r))"

definition dispatch :: "matcher \<Rightarrow> http_method \<Rightarrow> string \<Rightarrow> dispatched" where
  "dispatch m = dispatch_in m app_routes"

section \<open>Logging and shutdown\<close>

definition tracing_filter :: "env \<Rightarrow> string" where
  "tracing_filter env = (case env ''RUST_LOG'' of Present v \<Rightarrow> v
     | _ \<Rightarrow> ''rubix_redis_bridge=info,tower_http=info,axum=warn'')"

text \<open>
  The events the shutdown waits for: Ctrl-C with its result, and \<^verbatim>\<open>SIGTERM\<close>. The wait is over with the first
  event it listens to; what is left is the rest of the events.
\<close>

datatype signal_event = CtrlC "(unit, unit) result" | SigTerm

fun wait_ctrl_c :: "signal_event list \<Rightarrow> (signal_event \<times> signal_event list) option" where
  "wait_ctrl_c [] = None"
| "wait_ctrl_c (CtrlC r # es) = Some (CtrlC r, es)"
| "wait_ctrl_c (SigTerm # es) = wait_ctrl_c es"

definition shutdown_signal ::
    "bool \<Rightarrow> (unit, unit) result \<Rightarrow> signal_event list \<Rightarrow> (signal_event \<times> signal_event list) option" where
  "shutdown_signal unix sigterm events =
     (if \<not> unix then wait_ctrl_c events
      else case sigterm of
        Inl _ \<Rightarrow> wait_ctrl_c events
      | Inr _ \<Rightarrow> (case events of [] \<Rightarrow> None | e # es \<Rightarrow> Some (e, es)))"

section \<open>Properties\<close>

lemma matching_simps:
  assumes "path_matching m"
  shows "m ''/healthz'' path = (if path = ''/healthz'' then Some [] else None)"
    and "m ''/readyz'' path = (if path = ''/readyz'' then Some [] else None)"
    and "m ''/metrics'' path = (if path = ''/metrics'' then Some [] else None)"
    and "m ''/'' path = (if path = ''/'' then Some [] else None)"
    and "m ''/pipeline'' path = (if path = ''/pipeline'' then Some [] else None)"
    and "m ''/multi-exec'' path = (if path = ''/multi-exec'' then Some [] else None)"
  using assms unfolding path_matching_def by simp_all

lemmas route_defs = dispatch_def app_routes_def health_routes_def api_routes_def realtime_routes_def

lemma method_endpoint_iff: "method_endpoint verb r = Some e \<longleftrightarrow>
    verb \<in> {GET, HEAD} \<and> ro_get r = Some e \<or> verb = POST \<and> ro_post r = Some e"
  by (cases verb) auto

text \<open>The table read backwards: what a dispatched request says of its route.\<close>

lemma dispatch_in_To:
  assumes "dispatch_in m rs verb path = To e captured r"
  shows "r \<in> set rs \<and> m (ro_path r) path = Some captured \<and> method_endpoint verb r = Some e"
  using assms by (induction rs) (auto split: option.splits)

lemma subscribe_path: "path_matching m \<Longrightarrow> m ''/subscribe/{*channel}'' path = Some c \<Longrightarrow>
   c \<noteq> [] \<and> path = ''/subscribe/'' @ c"
  by (simp add: path_matching_def)

text \<open>The paths of the table.\<close>

definition fixed_paths :: "string list" where
  "fixed_paths = [''/'', ''/pipeline'', ''/multi-exec'', ''/healthz'', ''/readyz'', ''/metrics'']"

definition subscription_path :: "string \<Rightarrow> bool" where
  "subscription_path path \<longleftrightarrow> (\<exists>c. c \<noteq> [] \<and> path = ''/subscribe/'' @ c)"

lemma drop_subscribe: "drop 11 (''/subscribe/'' @ c) = c"
  by simp

lemma subscription_path_drop: "subscription_path path \<longleftrightarrow> drop 11 path \<noteq> [] \<and> path = ''/subscribe/'' @ drop 11 path"
  unfolding subscription_path_def by (metis drop_subscribe)

lemma subscribe_match:
  assumes "path_matching m"
  shows "m ''/subscribe/{*channel}'' path = (if subscription_path path then Some (drop 11 path) else None)"
proof -
  have m: "m ''/subscribe/{*channel}'' path = Some c \<longleftrightarrow> c \<noteq> [] \<and> path = ''/subscribe/'' @ c" for c
    using assms unfolding path_matching_def by blast
  show ?thesis
  proof (cases "subscription_path path")
    case True
    then have "m ''/subscribe/{*channel}'' path = Some (drop 11 path)"
      using iffD2 [OF m [of "drop 11 path"]] subscription_path_drop by blast
    then show ?thesis using True by (simp only: if_True)
  next
    case False
    then have "m ''/subscribe/{*channel}'' path \<noteq> Some c" for c
      using m [of c] unfolding subscription_path_def by blast
    then have "m ''/subscribe/{*channel}'' path = None" by (cases "m ''/subscribe/{*channel}'' path") blast+
    then show ?thesis using False by (simp only: if_False)
  qed
qed

text \<open>The dispatch of a request, worked out for the whole table.\<close>

definition meets :: "http_method \<Rightarrow> string \<Rightarrow> route \<Rightarrow> dispatched" where
  "meets verb captured r =
     (case method_endpoint verb r of None \<Rightarrow> MethodNotAllowed | Some e \<Rightarrow> To e captured r)"

lemma dispatch_fixed:
  assumes "path_matching m" and "CHR ''{'' \<notin> set (ro_path r)"
  shows "dispatch_in m (r # rs) verb path =
    (if path = ro_path r then meets verb [] r else dispatch_in m rs verb path)"
proof -
  have "m (ro_path r) path = (if path = ro_path r then Some [] else None)"
    using assms unfolding path_matching_def by blast
  then show ?thesis by (simp add: meets_def)
qed

lemma dispatch_eq:
  assumes "path_matching m"
  shows "dispatch m verb path =
    (if path = ''/healthz'' then meets verb [] (health_routes ! 0)
     else if path = ''/readyz'' then meets verb [] (health_routes ! 1)
     else if path = ''/metrics'' then meets verb [] (health_routes ! 2)
     else if path = ''/'' then meets verb [] (api_routes ! 0)
     else if path = ''/pipeline'' then meets verb [] (api_routes ! 1)
     else if path = ''/multi-exec'' then meets verb [] (api_routes ! 2)
     else if subscription_path path then meets verb (drop 11 path) (realtime_routes ! 0)
     else NotFound)"
proof -
  have h: "app_routes = [health_routes ! 0, health_routes ! 1, health_routes ! 2, api_routes ! 0, api_routes ! 1,
      api_routes ! 2, realtime_routes ! 0]"
    by (simp add: route_defs)
  have p: "ro_path (health_routes ! 0) = ''/healthz''" "ro_path (health_routes ! 1) = ''/readyz''"
      "ro_path (health_routes ! 2) = ''/metrics''" "ro_path (api_routes ! 0) = ''/''"
      "ro_path (api_routes ! 1) = ''/pipeline''" "ro_path (api_routes ! 2) = ''/multi-exec''"
      "ro_path (realtime_routes ! 0) = ''/subscribe/{*channel}''"
    by (simp_all add: route_defs)
  have "dispatch_in m [realtime_routes ! 0] verb path =
      (if subscription_path path then meets verb (drop 11 path) (realtime_routes ! 0) else NotFound)"
    by (simp only: dispatch_in.simps p subscribe_match [OF assms] meets_def) simp
  moreover have f: "CHR ''{'' \<notin> set (ro_path (health_routes ! 0))" "CHR ''{'' \<notin> set (ro_path (health_routes ! 1))"
      "CHR ''{'' \<notin> set (ro_path (health_routes ! 2))" "CHR ''{'' \<notin> set (ro_path (api_routes ! 0))"
      "CHR ''{'' \<notin> set (ro_path (api_routes ! 1))" "CHR ''{'' \<notin> set (ro_path (api_routes ! 2))"
    unfolding p by simp_all
  ultimately show ?thesis
    by (simp only: dispatch_def h f [THEN dispatch_fixed [OF assms]] p)
qed

lemma meets_simps:
  "meets verb c (health_routes ! 0) = (if verb \<in> {GET, HEAD} then To Healthz c (health_routes ! 0) else MethodNotAllowed)"
  "meets verb c (health_routes ! 1) = (if verb \<in> {GET, HEAD} then To Readyz c (health_routes ! 1) else MethodNotAllowed)"
  "meets verb c (health_routes ! 2) = (if verb \<in> {GET, HEAD} then To MetricsPage c (health_routes ! 2) else MethodNotAllowed)"
  "meets verb c (api_routes ! 0) = (if verb \<in> {GET, HEAD} then To Root c (api_routes ! 0)
     else if verb = POST then To Command c (api_routes ! 0) else MethodNotAllowed)"
  "meets verb c (api_routes ! 1) = (if verb = POST then To Pipeline c (api_routes ! 1) else MethodNotAllowed)"
  "meets verb c (api_routes ! 2) = (if verb = POST then To MultiExec c (api_routes ! 2) else MethodNotAllowed)"
  "meets verb c (realtime_routes ! 0) = (if verb = POST then To Subscribe c (realtime_routes ! 0) else MethodNotAllowed)"
  by (cases verb; simp add: meets_def route_defs)+

lemma route_limits:
  "ro_body_limit (health_routes ! 0) = False" "ro_body_limit (health_routes ! 1) = False"
  "ro_body_limit (health_routes ! 2) = False" "ro_body_limit (api_routes ! 0)" "ro_body_limit (api_routes ! 1)"
  "ro_body_limit (api_routes ! 2)" "ro_body_limit (realtime_routes ! 0)"
  "ro_concurrency_limit (health_routes ! 0) = False" "ro_concurrency_limit (health_routes ! 1) = False"
  "ro_concurrency_limit (health_routes ! 2) = False" "ro_concurrency_limit (api_routes ! 0)"
  "ro_concurrency_limit (api_routes ! 1)" "ro_concurrency_limit (api_routes ! 2)"
  "ro_concurrency_limit (realtime_routes ! 0) = False"
  by (simp_all add: route_defs)

text \<open>C19: Every endpoint has exactly one way to it. A request reaches an endpoint if and only if the table below
  says so: the page, the probes and the metrics by \<^verbatim>\<open>GET\<close> or \<^verbatim>\<open>HEAD\<close> on their own path, the
  commands, pipelines, transactions and subscriptions by \<^verbatim>\<open>POST\<close> on theirs, a subscription with the
  rest of its path captured. A known path with another method is answered with 405, an unknown path, and
  nothing else, with 404. The body limit covers everything but the probes and the metrics; the concurrency
  limit covers the command routes and the page, and neither subscriptions nor the probes, so those are
  answered also when the commands use it up.\<close>
theorem endpoints_reached:
  assumes "path_matching m"
  shows "((\<exists>r. dispatch m verb path = To e captured r) \<longleftrightarrow>
      verb \<in> {GET, HEAD} \<and> captured = [] \<and>
        (e = Root \<and> path = ''/'' \<or> e = Healthz \<and> path = ''/healthz'' \<or> e = Readyz \<and> path = ''/readyz'' \<or>
         e = MetricsPage \<and> path = ''/metrics'') \<or>
      verb = POST \<and>
        (captured = [] \<and> (e = Command \<and> path = ''/'' \<or> e = Pipeline \<and> path = ''/pipeline'' \<or>
           e = MultiExec \<and> path = ''/multi-exec'') \<or>
         captured \<noteq> [] \<and> e = Subscribe \<and> path = ''/subscribe/'' @ captured)) \<and>
    (\<forall>r. dispatch m verb path = To e captured r \<longrightarrow>
      ro_body_limit r = (e \<notin> {Healthz, Readyz, MetricsPage}) \<and>
      ro_concurrency_limit r = (e \<in> {Root, Command, Pipeline, MultiExec})) \<and>
    (dispatch m verb path = NotFound \<longleftrightarrow>
      path \<notin> set fixed_paths \<and> \<not> subscription_path path)"
proof -
  have sub: "captured \<noteq> [] \<and> e = Subscribe \<and> path = ''/subscribe/'' @ captured \<longleftrightarrow>
      e = Subscribe \<and> subscription_path path \<and> captured = drop 11 path \<and> captured \<noteq> []"
    using subscription_path_drop [of path] drop_subscribe [of captured] by metis
  have fixed: "subscription_path path \<Longrightarrow> path \<notin> set fixed_paths"
    using subscription_path_drop [of path] by (auto simp: fixed_paths_def)
  show ?thesis
  proof (cases "path \<in> set fixed_paths")
    case True
    then have "\<not> subscription_path path" using fixed by blast
    then show ?thesis
      using True unfolding fixed_paths_def sub
      by (simp only: dispatch_eq [OF assms] list.set insert_iff empty_iff)
         (elim disjE; simp add: meets_simps [unfolded One_nat_def] route_limits [unfolded One_nat_def];
          auto split: if_splits simp: route_limits [unfolded One_nat_def])
  next
    case False
    then have n: "path \<noteq> ''/''" "path \<noteq> ''/pipeline''" "path \<noteq> ''/multi-exec''" "path \<noteq> ''/healthz''" "path \<noteq> ''/readyz''"
        "path \<noteq> ''/metrics''"
      unfolding fixed_paths_def by simp_all
    have d: "dispatch m verb path =
        (if subscription_path path then meets verb (drop 11 path) (realtime_routes ! 0) else NotFound)"
      by (simp only: dispatch_eq [OF assms] n if_False)
    have "subscription_path path \<Longrightarrow> drop 11 path \<noteq> []" using subscription_path_drop [of path] by blast
    then show ?thesis
      unfolding sub d meets_simps using False
      by (simp only: n simp_thms) (cases "verb = POST"; cases "subscription_path path"; auto simp: route_limits)
  qed
qed

text \<open>A matcher as documented, and a subscription by it.\<close>

definition example_matcher :: matcher where
  "example_matcher pattern path =
     (if pattern = ''/subscribe/{*channel}'' then
        (if take 11 path = ''/subscribe/'' \<and> drop 11 path \<noteq> [] then Some (drop 11 path) else None)
      else if path = pattern then Some [] else None)"

lemma example_matcher_ok: "path_matching example_matcher"
proof -
  have "take 11 path = ''/subscribe/'' \<Longrightarrow> path = ''/subscribe/'' @ drop 11 path" for path
    by (metis append_take_drop_id)
  then show ?thesis
    by (auto simp: path_matching_def example_matcher_def split: if_splits)
qed

theorem endpoints_reached_witness:
  "(\<exists>r. dispatch example_matcher POST ''/subscribe/a/b'' = To Subscribe ''a/b'' r \<and> ro_body_limit r) \<and>
   dispatch example_matcher POST ''/subscribe/'' = NotFound"
  using endpoints_reached [OF example_matcher_ok, of POST "''/subscribe/a/b''" Subscribe "''a/b''"]
    endpoints_reached [OF example_matcher_ok, of POST "''/subscribe/''" Subscribe "''a/b''"]
  by (auto simp: fixed_paths_def subscription_path_drop)

end
