(* ===== verification/Http.thy ===== *)
theory Http
  imports Routes
begin

text \<open>
  One HTTP request of the started server: through the table of \<open>Routes\<close> and axum's extractors to its handler,
  what it is answered with and what it sends to Redis, and which of that depends on the requests before.
\<close>

section \<open>From a request to its handler\<close>

text \<open>
  axum's extractors: the two JSON bodies, below a limit for the length, with the headers that state the
  content type; and the channel from the part of the path the wildcard captured, or the status of
  the refusal when it cannot be decoded.
\<close>

record extraction =
  ex_command :: "nat \<Rightarrow> headers \<Rightarrow> bytes \<Rightarrow> (unit, command_arg list) result"
  ex_commands :: "nat \<Rightarrow> headers \<Rightarrow> bytes \<Rightarrow> (unit, command_arg list list) result"
  ex_channel :: "string \<Rightarrow> (nat, string) result"

record web =
  wb_matcher :: matcher
  wb_extraction :: extraction
  wb_surroundings :: surroundings

text \<open>A request, the clock while it is handled, and how the waits of its handler end.\<close>

record incoming =
  in_clock :: clock
  in_method :: http_method
  in_path :: string
  in_peer :: ip_addr
  in_headers :: headers
  in_body :: bytes
  in_command :: "redis_value weather"
  in_pipeline :: "(redis_error, redis_value) result list weather"
  in_transaction :: "redis_value list weather"
  in_pubsub :: pubsub_weather

datatype call =
    ApiCall api_call
  | SubscribeCall pubsub_weather subscribe_request
  | MetricsCall "unit request"
  | ReadyCall
  | Fixed response
  | Refused nat

fun endpoint_call :: "extraction \<Rightarrow> nat \<Rightarrow> incoming \<Rightarrow> endpoint \<Rightarrow> string \<Rightarrow> call" where
  "endpoint_call X limit req Root captured = Fixed root_handler"
| "endpoint_call X limit req Healthz captured = Fixed healthz"
| "endpoint_call X limit req Readyz captured = ReadyCall"
| "endpoint_call X limit req MetricsPage captured =
     MetricsCall \<lparr>rq_peer = in_peer req, rq_headers = in_headers req, rq_body = Ok ()\<rparr>"
| "endpoint_call X limit req Command captured =
     ApiCall (PostRoot (in_command req) \<lparr>rq_peer = in_peer req, rq_headers = in_headers req,
       rq_body = ex_command X limit (in_headers req) (in_body req)\<rparr>)"
| "endpoint_call X limit req Pipeline captured =
     ApiCall (PostPipeline (in_pipeline req) \<lparr>rq_peer = in_peer req, rq_headers = in_headers req,
       rq_body = ex_commands X limit (in_headers req) (in_body req)\<rparr>)"
| "endpoint_call X limit req MultiExec captured =
     ApiCall (PostMultiExec (in_transaction req) \<lparr>rq_peer = in_peer req, rq_headers = in_headers req,
       rq_body = ex_commands X limit (in_headers req) (in_body req)\<rparr>)"
| "endpoint_call X limit req Subscribe captured =
     (case ex_channel X captured of
        Inl code \<Rightarrow> Refused code
      | Inr channel \<Rightarrow> SubscribeCall (in_pubsub req) \<lparr>sq_peer = in_peer req, sq_headers = in_headers req,
          sq_channel = channel, sq_body = ex_command X limit (in_headers req) (in_body req)\<rparr>)"

definition request_call :: "web \<Rightarrow> nat \<Rightarrow> incoming \<Rightarrow> call" where
  "request_call X limit req =
     (case dispatch (wb_matcher X) (in_method req) (in_path req) of
        NotFound \<Rightarrow> Refused 404
      | MethodNotAllowed \<Rightarrow> Refused 405
      | To e captured r \<Rightarrow> endpoint_call (wb_extraction X) limit req e captured)"

section \<open>What a request does\<close>

datatype answer = Reply response | NoReply | Crash | Refusal nat

datatype message = ToRedis wire | ToPubSub string

text \<open>The answer, what was sent to which target, the subscription that was opened, and the new state.\<close>

record effect =
  ef_answer :: answer
  ef_sent :: "(nat \<times> message) list"
  ef_stream :: "rt_stream option"
  ef_state :: app_state

fun ending_answer :: "ending \<Rightarrow> answer" where
  "ending_answer (Answered resp) = Reply resp"
| "ending_answer Panicked = Crash"
| "ending_answer Dropped_request = NoReply"

fun subscription_answer :: "response option outcome \<Rightarrow> answer" where
  "subscription_answer Panic = Crash"
| "subscription_answer (Done None) = NoReply"
| "subscription_answer (Done (Some resp)) = Reply resp"

fun run_call :: "surroundings \<Rightarrow> clock \<Rightarrow> call \<Rightarrow> app_state \<Rightarrow> effect" where
  "run_call E clk (ApiCall c) S =
     (case handle_api E clk c S of (en, S', sent) \<Rightarrow>
        \<lparr>ef_answer = ending_answer en, ef_sent = map (map_prod id ToRedis) sent, ef_stream = None, ef_state = S'\<rparr>)"
| "run_call E clk (SubscribeCall P req) S =
     (case subscribe (su_digests E) clk P req S of (r, stream, S', sent) \<Rightarrow>
        \<lparr>ef_answer = subscription_answer r, ef_sent = map (map_prod id ToPubSub) sent, ef_stream = stream,
         ef_state = S'\<rparr>)"
| "run_call E clk (MetricsCall req) S =
     (case metrics_handler E clk req S of (en, S') \<Rightarrow>
        \<lparr>ef_answer = ending_answer en, ef_sent = [], ef_stream = None, ef_state = S'\<rparr>)"
| "run_call E clk ReadyCall S = \<lparr>ef_answer = Reply (readyz S), ef_sent = [], ef_stream = None, ef_state = S\<rparr>"
| "run_call E clk (Fixed resp) S = \<lparr>ef_answer = Reply resp, ef_sent = [], ef_stream = None, ef_state = S\<rparr>"
| "run_call E clk (Refused code) S = \<lparr>ef_answer = Refusal code, ef_sent = [], ef_stream = None, ef_state = S\<rparr>"

definition respond :: "web \<Rightarrow> nat \<Rightarrow> incoming \<Rightarrow> app_state \<Rightarrow> effect" where
  "respond X limit req S = run_call (wb_surroundings X) (in_clock req) (request_call X limit req) S"

section \<open>What never changes\<close>

text \<open>All of the state but metrics, lockout table and the permits of subscriptions.\<close>

definition same_config :: "app_state \<Rightarrow> app_state \<Rightarrow> bool" where
  "same_config S S' \<longleftrightarrow>
     S'\<lparr>st_metrics := st_metrics S, st_auth_lockout := st_auth_lockout S, st_realtime_permits := st_realtime_permits S\<rparr> = S"

lemma same_config_refl [simp]: "same_config S S"
  by (simp add: same_config_def)

lemma same_config_trans: "same_config S S' \<Longrightarrow> same_config S' S'' \<Longrightarrow> same_config S S''"
  unfolding same_config_def by (cases S; cases S'; cases S''; simp)

lemma same_config_sym: "same_config S S' \<Longrightarrow> same_config S' S"
  unfolding same_config_def by (cases S; cases S'; simp)

lemma same_config_fields:
  assumes "same_config S S'"
  shows "st_targets S' = st_targets S" "st_token_routes S' = st_token_routes S"
    "st_security S' = st_security S" "st_hash_token S' = st_hash_token S"
    "st_trust_proxy_headers S' = st_trust_proxy_headers S" "st_trusted_proxies S' = st_trusted_proxies S"
    "st_max_response_bytes S' = st_max_response_bytes S" "st_metrics_token S' = st_metrics_token S"
  using assms unfolding same_config_def by (cases S; cases S'; simp)+

lemma same_config_route: "same_config S S' \<Longrightarrow> route_for D S' headers = route_for D S headers"
  by (simp add: route_for_def request_hash_def same_config_fields)

lemma same_bridge_config: "same_bridge S S' \<Longrightarrow> same_config S S'"
  unfolding same_bridge_def same_config_def by (cases S; cases S'; simp)

lemma same_config_update [simp]:
  "same_config S (S'\<lparr>st_metrics := M\<rparr>) = same_config S S'"
  "same_config S (S'\<lparr>st_auth_lockout := L\<rparr>) = same_config S S'"
  "same_config S (S'\<lparr>st_realtime_permits := n\<rparr>) = same_config S S'"
  by (simp_all add: same_config_def)

lemma release_config [simp]: "same_config S (release_realtime S') = same_config S S'"
  by (simp add: release_realtime_def)

lemma stream_drop_config [simp]: "same_config S (stream_drop s S') = same_config S S'"
  by (simp add: stream_drop_def)

lemma command_auth_config:
  assumes "command_auth D clk headers ip S = (r, S')"
  shows "same_config S S'"
proof -
  obtain x where "bridge_auth D clk headers ip S = (x, S')"
    using require_route_state assms unfolding command_auth_def by (metis prod.collapse snd_conv)
  then show ?thesis using keeps_bridge_auth same_bridge_config unfolding keeps_inflight_def by blast
qed

lemma run_route_config:
  "run_route E clk n k parse execute serialize W req S = (en, S', sent) \<Longrightarrow> same_config S S'"
  by (auto simp: run_route_def Let_def response_or_denied_def
      split: prod.splits outcome.splits sum.splits option.splits dest!: command_auth_config)

lemma handle_api_config: "handle_api E clk c S = (en, S', sent) \<Longrightarrow> same_config S S'"
  by (cases c) (auto simp: command_handler_def pipeline_handler_def multi_exec_handler_def dest: run_route_config)

lemma metrics_auth_config: "metrics_auth clk headers ip S = (r, S') \<Longrightarrow> same_config S S'"
  by (auto simp: metrics_auth_def bearer_token_bearer refuse_not_Ok keeps_inflight_def
      split: option.splits prod.splits outcome.splits sum.splits if_splits
      dest!: keeps_refuse keeps_accept intro: same_bridge_config)

lemma metrics_handler_config: "metrics_handler E clk req S = (en, S') \<Longrightarrow> same_config S S'"
  by (auto simp: metrics_handler_def Let_def split: prod.splits outcome.splits sum.splits
      dest!: metrics_auth_config refresh_same same_bridge_config intro: same_config_trans)

lemma subscribe_begin_config: "subscribe_begin D clk req S = (r, S') \<Longrightarrow> same_config S S'"
  by (erule subscribe_begin_cases)
     (auto simp: keeps_inflight_def intro: same_bridge_config)

lemma subscribe_finish_config:
  "subscribe_finish p ended S = (resp, stream, S') \<Longrightarrow> same_config S0 S' = same_config S0 S"
  by (auto simp: subscribe_finish_def Let_def deny_subscribe_def split: prod.splits wait.splits sum.splits)

lemma subscribe_config: "subscribe D clk P req S = (r, stream, S', sent) \<Longrightarrow> same_config S S'"
  by (auto simp: subscribe_def subscribe_finish_config split: prod.splits outcome.splits sum.splits
      dest!: subscribe_begin_config)

lemma respond_config: "same_config S (ef_state (respond X limit req S))"
  unfolding respond_def
  by (cases "request_call X limit req")
     (auto split: prod.splits dest: handle_api_config subscribe_config metrics_handler_config)

lemma ending_no_crash: "ending_answer en = Crash \<longleftrightarrow> en = Panicked"
  by (cases en) auto

lemma subscription_no_crash: "subscription_answer r = Crash \<longleftrightarrow> r = Panic"
  by (cases r rule: subscription_answer.cases) auto

lemma respond_kept:
  assumes "lockout_ready (in_clock req) S"
  shows "lockout_kept (in_clock req) S (ef_state (respond X limit req S))"
    and "ef_answer (respond X limit req S) \<noteq> Crash"
proof -
  have "lockout_kept (in_clock req) S (ef_state (run_call E (in_clock req) c S)) \<and>
      ef_answer (run_call E (in_clock req) c S) \<noteq> Crash" for E c
    using handle_api_kept [OF assms] subscribe_kept [OF assms] metrics_handler_kept [OF assms] kept_refl [OF assms]
    by (cases c) (auto simp: ending_no_crash subscription_no_crash split: prod.splits)
  then show "lockout_kept (in_clock req) S (ef_state (respond X limit req S))"
    and "ef_answer (respond X limit req S) \<noteq> Crash"
    by (simp_all add: respond_def)
qed

section \<open>What reaches Redis\<close>

context command_route
begin

lemma route_sends_for:
  "run_route E clk n k gate execute serialize W req S = (en, S', sent) \<Longrightarrow> (i, w) \<in> set sent \<Longrightarrow>
   \<exists>route. route_for (su_digests E) S (rq_headers req) = Some route \<and>
     route_allows_command_route route \<and> i = route_target route"
  using route_sends by blast

end

lemma handle_api_sent_for:
  "handle_api E clk c S = (en, S', sent) \<Longrightarrow> (i, w) \<in> set sent \<Longrightarrow>
   \<exists>route. route_for (su_digests E) S (call_headers c) = Some route \<and>
     route_allows_command_route route \<and> i = route_target route"
  using command.route_sends_for pipeline.route_sends_for transaction.route_sends_for
  by (cases c) (auto simp: command_handler_def pipeline_handler_def multi_exec_handler_def)

lemma subscribe_sent:
  assumes "subscribe D clk P req S = (r, stream, S', sent)" and "(i, channel) \<in> set sent"
  shows "channel = sq_channel req \<and> (\<exists>route. route_for D S (sq_headers req) = Some route \<and>
    route_allows_realtime route \<and> i = route_target route)"
proof -
  obtain x S1 where b: "subscribe_begin D clk req S = (x, S1)" by fastforce
  from b show ?thesis
  proof (cases rule: subscribe_begin_cases)
    case (granted route S2)
    obtain ended channels where "pubsub_setup P (sq_channel req) = (ended, channels)" by fastforce
    moreover from this have "set channels \<subseteq> {sq_channel req}"
      by (auto simp: pubsub_setup_def split: wait.splits sum.splits)
    ultimately show ?thesis
      using assms b granted by (auto simp: subscribe_def split: prod.splits)
  qed (use assms b in \<open>auto simp: subscribe_def\<close>)
qed

text \<open>The way to the endpoints that send something to Redis.\<close>

lemma way_to_redis:
  assumes "path_matching m" and "dispatch m verb path = To e captured r"
  shows "e \<in> {Command, Pipeline, MultiExec} \<Longrightarrow> verb = POST \<and> path \<in> {''/'', ''/pipeline'', ''/multi-exec''}"
    and "e = Subscribe \<Longrightarrow> verb = POST \<and> path = ''/subscribe/'' @ captured"
proof -
  have d: "r \<in> set app_routes" "m (ro_path r) path = Some captured" "method_endpoint verb r = Some e"
    using dispatch_in_To [of m app_routes] assms(2) by (auto simp: dispatch_def)
  show "e \<in> {Command, Pipeline, MultiExec} \<Longrightarrow> verb = POST \<and> path \<in> {''/'', ''/pipeline'', ''/multi-exec''}"
    using d by (auto simp: route_defs method_endpoint_iff matching_simps [OF assms(1)] split: if_splits)
  show "e = Subscribe \<Longrightarrow> verb = POST \<and> path = ''/subscribe/'' @ captured"
    using d subscribe_path [OF assms(1), of path captured] by (auto simp: route_defs method_endpoint_iff)
qed

text \<open>A message to Redis comes from a handler of the right kind, behind its authentication.\<close>

lemma respond_sent:
  assumes "(i, msg) \<in> set (ef_sent (respond X limit req S))" and "path_matching (wb_matcher X)"
  shows "in_method req = POST \<and> (\<exists>route. route_for (su_digests (wb_surroundings X)) S (in_headers req) = Some route \<and>
    i = route_target route \<and>
    (case msg of
       ToRedis w \<Rightarrow> in_path req \<in> {''/'', ''/pipeline'', ''/multi-exec''} \<and> route_allows_command_route route \<and>
         (\<forall>(name, args) \<in> set (wire_commands w). admitted (st_security S) (route_type route) name \<and>
           within_limits (st_security S) \<lparr>rc_name = name, rc_args = args\<rparr> \<and>
           name \<notin> set CONNECTION_COMMANDS \<union> transaction_commands)
     | ToPubSub channel \<Rightarrow> route_allows_realtime route \<and>
         (\<exists>c. in_path req = ''/subscribe/'' @ c \<and> ex_channel (wb_extraction X) c = Ok channel)))"
proof -
  obtain e captured r where d: "dispatch (wb_matcher X) (in_method req) (in_path req) = To e captured r"
      "request_call X limit req = endpoint_call (wb_extraction X) limit req e captured"
    using assms(1) by (auto simp: respond_def request_call_def split: dispatched.splits)
  note way = way_to_redis [OF assms(2) d(1)]
  show ?thesis
  proof (cases "e \<in> {Command, Pipeline, MultiExec}")
    case True
    then obtain c where c: "request_call X limit req = ApiCall c" "call_headers c = in_headers req"
      using d(2) by auto
    obtain en S' sent where h: "handle_api (wb_surroundings X) (in_clock req) c S = (en, S', sent)"
      by (metis prod_cases3)
    then obtain w where w: "msg = ToRedis w" "(i, w) \<in> set sent"
      using assms(1) c(1) by (auto simp: respond_def)
    obtain route where route: "route_for (su_digests (wb_surroundings X)) S (in_headers req) = Some route"
        "route_allows_command_route route" "i = route_target route"
      using handle_api_sent_for [OF h w(2)] c(2) by auto
    moreover have "\<forall>(name, args) \<in> set (wire_commands w). admitted (st_security S) (route_type route) name \<and>
           within_limits (st_security S) \<lparr>rc_name = name, rc_args = args\<rparr> \<and>
           name \<notin> set CONNECTION_COMMANDS \<union> transaction_commands"
      using handle_api_sent [OF h w(2)] c(2) route(1) by fastforce
    ultimately show ?thesis using way(1) True w(1) by simp
  next
    case False
    then have e: "e = Subscribe"
      using assms(1) d(2) by (cases e) (auto simp: respond_def split: prod.splits)
    then obtain channel sq where c: "ex_channel (wb_extraction X) captured = Ok channel"
        "request_call X limit req = SubscribeCall (in_pubsub req) sq"
        "sq_headers sq = in_headers req" "sq_channel sq = channel"
      using assms(1) d(2) by (auto simp: respond_def split: sum.splits)
    obtain r' stream S' sent
      where s: "subscribe (su_digests (wb_surroundings X)) (in_clock req) (in_pubsub req) sq S = (r', stream, S', sent)"
      by (metis prod_cases4)
    then obtain ch where "msg = ToPubSub ch" "(i, ch) \<in> set sent"
      using assms(1) c(2) by (auto simp: respond_def)
    then show ?thesis using subscribe_sent [OF s] way(2) [OF e] c by auto
  qed
qed

section \<open>Answers that do not depend on the others\<close>

lemma command_auth_routed:
  assumes "lockout_ready clk S" and "route_for D S headers = Some route"
  shows "\<exists>S'. command_auth D clk headers ip S =
    (Done (if route_allows_command_route route then Ok route
      else Err (forbidden ''Bearer token is not allowed to access command routes'')), S')"
  using bridge_auth_ready [OF assms(1), of D headers ip] assms(2)
  by (auto simp: command_auth_def require_route_def)

context command_route
begin

text \<open>With a token of the bridge, the answer is a function of the configuration, the body and the waits.\<close>

lemma route_determined:
  assumes "lockout_ready clk S" and "lockout_ready clk S0" and "same_config S0 S"
    and "route_for (su_digests E) S0 (rq_headers req) = Some route"
  shows "\<exists>en sent T T0. run_route E clk n k gate execute serialize W req S = (en, T, sent) \<and>
    run_route E clk n k gate execute serialize W req S0 = (en, T0, sent)"
proof -
  let ?ip = "client_ip S (rq_headers req) (rq_peer req)"
  have ip: "client_ip S0 (rq_headers req) (rq_peer req) = ?ip"
    using same_config_fields [OF assms(3)] by (simp add: client_ip_def)
  have r: "route_for (su_digests E) S (rq_headers req) = Some route"
    using same_config_route [OF assms(3)] assms(4) by simp
  obtain T T0 where a: "command_auth (su_digests E) clk (rq_headers req) ?ip S = (Done (if route_allows_command_route route
        then Ok route else Err (forbidden ''Bearer token is not allowed to access command routes'')), T)"
      "command_auth (su_digests E) clk (rq_headers req) ?ip S0 = (Done (if route_allows_command_route route
        then Ok route else Err (forbidden ''Bearer token is not allowed to access command routes'')), T0)"
    using command_auth_routed [OF assms(1) r] command_auth_routed [OF assms(2,4)] by blast
  have "same_config T0 T"
    using same_config_trans [OF same_config_trans [OF same_config_sym [OF command_auth_config [OF a(2)]] assms(3)] command_auth_config [OF a(1)]] .
  note F = same_config_fields [OF this]
  show ?thesis
  proof (cases "route_allows_command_route route \<and> is_ok (rq_body req)")
    case True
    then obtain body where body: "rq_body req = Ok body" by (cases "rq_body req") auto
    show ?thesis
    proof (cases "gate (st_security T0) body (route_type route)")
      case (Inl e)
      then show ?thesis using True a ip body by (simp add: run_route_def F)
    next
      case (Inr cs)
      obtain x ws M where x: "execute (target_id (target_of T0 route)) cs W (st_metrics T0) = (x, ws, M)"
        by (metis prod_cases3)
      from execute_pure [OF this] obtain M1
        where "execute (target_id (target_of T0 route)) cs W (st_metrics T) = (x, ws, M1)" by blast
      moreover have "target_of T route = target_of T0 route" by (simp add: target_of_def F)
      ultimately show ?thesis
        using True a ip body Inr x
        by (auto simp: run_route_def Let_def F response_or_denied_def split: option.splits sum.splits)
    qed
  next
    case False
    then show ?thesis
      using a ip by (cases "rq_body req") (auto simp: run_route_def)
  qed
qed

end

lemma handle_api_determined:
  assumes "lockout_ready clk S" and "lockout_ready clk S0" and "same_config S0 S"
    and "route_for (su_digests E) S0 (call_headers c) = Some route"
  shows "\<exists>en sent T T0. handle_api E clk c S = (en, T, sent) \<and> handle_api E clk c S0 = (en, T0, sent)"
  using assms command.route_determined [OF assms(1-3)] pipeline.route_determined [OF assms(1-3)]
    transaction.route_determined [OF assms(1-3)]
  by (cases c) (auto simp: command_handler_def pipeline_handler_def multi_exec_handler_def)

fun is_command_request :: "web \<Rightarrow> incoming \<Rightarrow> bool" where
  "is_command_request X req =
     (case dispatch (wb_matcher X) (in_method req) (in_path req) of
        To e _ _ \<Rightarrow> e \<in> {Command, Pipeline, MultiExec} | _ \<Rightarrow> False)"

lemma command_request_call:
  assumes "is_command_request X req"
  obtains c where "request_call X limit req = ApiCall c" and "call_headers c = in_headers req"
  using assms that by (auto simp: request_call_def split: dispatched.splits)

lemma respond_determined:
  assumes "lockout_ready (in_clock req) S" and "lockout_ready (in_clock req) S0" and "same_config S0 S"
    and "is_command_request X req"
    and "route_for (su_digests (wb_surroundings X)) S0 (in_headers req) \<noteq> None"
  shows "ef_answer (respond X limit req S) = ef_answer (respond X limit req S0) \<and>
    ef_sent (respond X limit req S) = ef_sent (respond X limit req S0)"
proof -
  obtain c where c: "request_call X limit req = ApiCall c" "call_headers c = in_headers req"
    by (rule command_request_call [OF assms(4)])
  then obtain en sent T T0 where "handle_api (wb_surroundings X) (in_clock req) c S = (en, T, sent)"
      "handle_api (wb_surroundings X) (in_clock req) c S0 = (en, T0, sent)"
    using handle_api_determined [OF assms(1-3), of "wb_surroundings X" c] assms(5) by auto
  then show ?thesis using c(1) by (simp add: respond_def)
qed

section \<open>The table of failures in time\<close>

text \<open>The table of failures is in order at a time, with the limits it was made with.\<close>

definition lockout_at :: "instant \<Rightarrow> duration \<Rightarrow> app_state \<Rightarrow> bool" where
  "lockout_at t d S \<longleftrightarrow> lockout_inv (st_auth_lockout S) t \<and> lockout_duration (st_auth_lockout S) = d"

lemma lockout_at_ready:
  "lockout_at t d S \<Longrightarrow> t \<le> now clk \<Longrightarrow> now clk \<le> later clk \<Longrightarrow> now clk + d < INSTANT_LIMIT \<Longrightarrow> lockout_ready clk S"
  by (auto simp: lockout_at_def lockout_ready_def intro: lockout_inv_mono)

lemma lockout_at_kept: "lockout_at t d S \<Longrightarrow> lockout_kept clk S S' \<Longrightarrow> lockout_at (later clk) d S'"
  by (auto simp: lockout_at_def lockout_kept_def same_limits_def)

lemma lockout_at_later: "lockout_at t d S \<Longrightarrow> t \<le> t' \<Longrightarrow> lockout_at t' d S"
  by (auto simp: lockout_at_def intro: lockout_inv_mono)

lemma stream_drop_lockout: "lockout_at t d (stream_drop s S) = lockout_at t d S"
  by (simp add: lockout_at_def stream_drop_def release_realtime_def)

end
