(* ===== verification/Interleaved.thy ===== *)
theory Interleaved
  imports Http
begin

text \<open>
  The server while requests overlap. A command handler is split at its one wait, as the handler of
  subscriptions is in \<open>Realtime\<close>: up to there it authenticates, parses and opens its guard, behind it the outcome
  is accounted and serialised. Between the halves anything else may happen. The operations that wait share the permits of
  their target: whether and when one gets a permit is decided by the others that hold them.
\<close>

section \<open>The two halves of a command handler\<close>

text \<open>The first half ends with an answer, or with the commands and the guard of an operation that has begun.\<close>

definition route_begin ::
    "surroundings \<Rightarrow> clock \<Rightarrow> string \<Rightarrow> string \<Rightarrow>
     (security_policy \<Rightarrow> 'b \<Rightarrow> token_caps \<Rightarrow> (policy_error, 'c) result) \<Rightarrow> 'b request \<Rightarrow> app_state \<Rightarrow>
     (ending, auth_route \<times> 'c \<times> guard) result \<times> app_state" where
  "route_begin E clk route_name kind parse req S =
     (case command_auth (su_digests E) clk (rq_headers req) (client_ip S (rq_headers req) (rq_peer req)) S of
        (Panic, S1) \<Rightarrow> (Err Panicked, S1)
      | (Done (Inl e), S1) \<Rightarrow>
          (Err (Answered (into_response e)),
           S1\<lparr>st_metrics := request_denied route_name ''auth'' (st_metrics S1)\<rparr>)
      | (Done (Inr route), S1) \<Rightarrow>
          (case rq_body req of
             Inl _ \<Rightarrow>
               (Err (Answered (into_response (bad_request ''Invalid JSON body''))),
                S1\<lparr>st_metrics := request_denied route_name ''invalid_json'' (st_metrics S1)\<rparr>)
           | Inr command_body \<Rightarrow>
               (case parse (st_security S1) command_body (route_type route) of
                  Inl e \<Rightarrow>
                    (Err (Answered (into_response (bad_request (policy_message e)))),
                     S1\<lparr>st_metrics := request_denied route_name ''policy''
                          (command_denied (target_id (target_of S1 route)) kind (st_metrics S1))\<rparr>)
                | Inr commands \<Rightarrow>
                    (let (guard, M) = begin_operation (target_id (target_of S1 route)) route_name (st_metrics S1) in
                     (Ok (route, commands, guard), S1\<lparr>st_metrics := M\<rparr>)))))"

text \<open>The operation behind its guard; the second half of \<open>execute_operation\<close>.\<close>

definition operation_end ::
    "guard \<Rightarrow> string \<Rightarrow> 'a weather \<Rightarrow> wire \<Rightarrow> ('a \<Rightarrow> 'b) \<Rightarrow> metrics \<Rightarrow>
       (api_error, 'b) result option \<times> wire list \<times> metrics" where
  "operation_end guard timeout_message W w f M =
     (let (result, sent) = operation_future W w f in
      case result of
        Completes (Inr x) \<Rightarrow> (Some (Ok x), sent, Guard_success guard M)
      | Completes (Inl e) \<Rightarrow> (Some (Err e), sent, Guard_error guard M)
      | Elapses \<Rightarrow> (Some (Err (ApiError_timeout timeout_message)), sent, Guard_timeout guard M)
      | Abandoned \<Rightarrow> (None, sent, Guard_drop guard M))"

definition route_finish ::
    "surroundings \<Rightarrow> string \<Rightarrow> (codec \<Rightarrow> bool \<Rightarrow> 'v \<Rightarrow> ser) \<Rightarrow> headers \<Rightarrow> auth_route \<Rightarrow>
     (api_error, 'v) result option \<times> wire list \<times> metrics \<Rightarrow> app_state \<Rightarrow>
     ending \<times> app_state \<times> (nat \<times> wire) list" where
  "route_finish E route_name serialize headers route ended S =
     (case ended of
        (None, sent, M) \<Rightarrow> (Dropped_request, S\<lparr>st_metrics := M\<rparr>, map (Pair (route_target route)) sent)
      | (Some (Inl e), sent, M) \<Rightarrow>
          (Answered (into_response e), S\<lparr>st_metrics := M\<rparr>, map (Pair (route_target route)) sent)
      | (Some (Inr value), sent, M) \<Rightarrow>
          (let (resp, S2) = response_or_denied route_name
                 (serialized_response (su_to_json E) 200
                    (serialize (su_codec E) (base64 headers) value) (st_max_response_bytes S))
                 (S\<lparr>st_metrics := M\<rparr>) in
           (Answered resp, S2, map (Pair (route_target route)) sent)))"

text \<open>What is waited for, with the outcome of the waits.\<close>

datatype work =
    RunCommand redis_command "redis_value weather"
  | RunPipeline "redis_command list" "(redis_error, redis_value) result list weather"
  | RunTransaction "redis_command list" "redis_value list weather"

fun work_acquire :: "work \<Rightarrow> acquired wait" where
  "work_acquire (RunCommand c W) = on_acquire W"
| "work_acquire (RunPipeline cs W) = on_acquire W"
| "work_acquire (RunTransaction cs W) = on_acquire W"

text \<open>
  An operation that has begun is queued for a permit of its target, runs with it, or has given it back, as in
  \<open>Execute\<close>; and once it has found no permit free while it was queued, it is blocked.
\<close>

record pending_op =
  po_headers :: headers
  po_route :: auth_route
  po_work :: work
  po_guard :: guard
  po_phase :: op_phase
  po_blocked :: bool

definition po_target :: "pending_op \<Rightarrow> nat" where
  "po_target p = route_target (po_route p)"

text \<open>
  How the wait for the permit ended, which comes with the request, fits what became of it: it completes with the permit
  only when the operation got one, and an acquisition that finds a free permit completes, so the timeouts fire
  only for an operation that was blocked. No code closes the limiter. A client may leave at any time.
\<close>

definition permit_fits :: "pending_op \<Rightarrow> bool" where
  "permit_fits p \<longleftrightarrow>
     (case po_phase p of
        Released \<Rightarrow> work_acquire (po_work p) \<in> {Completes Permit, Abandoned}
      | Queued \<Rightarrow> work_acquire (po_work p) = Abandoned \<or>
          po_blocked p \<and> work_acquire (po_work p) \<in> {Completes AcquireTimeout, Elapses}
      | _ \<Rightarrow> False)"

definition to_pending :: "headers \<Rightarrow> ('c \<Rightarrow> work) \<Rightarrow>
    (ending, auth_route \<times> 'c \<times> guard) result \<times> app_state \<Rightarrow> (ending, pending_op) result \<times> app_state" where
  "to_pending headers work r =
     (case r of
        (Inl en, S) \<Rightarrow> (Err en, S)
      | (Inr (route, commands, guard), S) \<Rightarrow>
          (Ok \<lparr>po_headers = headers, po_route = route, po_work = work commands, po_guard = guard,
            po_phase = Queued, po_blocked = False\<rparr>, S))"

fun api_begin :: "surroundings \<Rightarrow> clock \<Rightarrow> api_call \<Rightarrow> app_state \<Rightarrow> (ending, pending_op) result \<times> app_state" where
  "api_begin E clk (PostRoot W req) S =
     to_pending (rq_headers req) (\<lambda>c. RunCommand c W) (route_begin E clk ''command'' ''single'' parse_command req S)"
| "api_begin E clk (PostPipeline W req) S =
     to_pending (rq_headers req) (\<lambda>cs. RunPipeline cs W)
       (route_begin E clk ''pipeline'' ''pipeline'' parse_command_list req S)"
| "api_begin E clk (PostMultiExec W req) S =
     to_pending (rq_headers req) (\<lambda>cs. RunTransaction cs W)
       (route_begin E clk ''multi_exec'' ''multi_exec'' parse_command_list req S)"

fun work_finish :: "surroundings \<Rightarrow> headers \<Rightarrow> auth_route \<Rightarrow> guard \<Rightarrow> work \<Rightarrow> app_state \<Rightarrow>
    ending \<times> app_state \<times> (nat \<times> wire) list" where
  "work_finish E headers route guard (RunCommand c W) S =
     route_finish E ''command'' CommandResponse_serialize headers route
       (operation_end guard ''Redis command timed out'' W (WireCommand (cmd_of c)) (\<lambda>value. value) (st_metrics S)) S"
| "work_finish E headers route guard (RunPipeline cs W) S =
     route_finish E ''pipeline'' PipelineResponse_serialize headers route
       (operation_end guard ''Redis pipeline timed out'' W
          (WirePipe ((append_commands new_pipe cs)\<lparr>p_ignore_errors := True\<rparr>)) (map pipeline_item) (st_metrics S)) S"
| "work_finish E headers route guard (RunTransaction cs W) S =
     route_finish E ''multi_exec'' TransactionResponse_serialize headers route
       (operation_end guard ''Redis transaction timed out'' W
          (WirePipe (append_commands (new_pipe\<lparr>p_atomic := True\<rparr>) cs)) (\<lambda>values. values) (st_metrics S)) S"

definition api_finish :: "surroundings \<Rightarrow> pending_op \<Rightarrow> app_state \<Rightarrow> ending \<times> app_state \<times> (nat \<times> wire) list" where
  "api_finish E p S = work_finish E (po_headers p) (po_route p) (po_guard p) (po_work p) S"

section \<open>The halves make the whole\<close>

lemma run_route_halves:
  assumes "\<And>t cs M. execute t cs W M = (let (g, M1) = begin_operation t n M in ends g cs M1)"
  shows "run_route E clk n k parse execute serialize W req S =
    (case route_begin E clk n k parse req S of
       (Inl en, S1) \<Rightarrow> (en, S1, [])
     | (Inr (route, cs, g), S1) \<Rightarrow>
         route_finish E n serialize (rq_headers req) route (ends g cs (st_metrics S1)) S1)"
  by (simp add: run_route_def route_begin_def route_finish_def assms begin_operation_def Let_def
      split: prod.split outcome.split sum.split option.split)

lemma execute_halves:
  "execute_operation t n msg W w f M = (let (g, M1) = begin_operation t n M in operation_end g msg W w f M1)"
  by (simp add: execute_operation_def operation_end_def Let_def split: prod.split wait.split sum.split)

lemma handle_api_halves:
  "handle_api E clk c S =
     (case api_begin E clk c S of
        (Inl en, S1) \<Rightarrow> (en, S1, [])
      | (Inr p, S1) \<Rightarrow> api_finish E p S1)"
proof (cases c)
  case (PostRoot W req)
  show ?thesis
    unfolding PostRoot handle_api.simps command_handler_def
    by (subst run_route_halves [where ends = "\<lambda>g c. operation_end g ''Redis command timed out'' W
          (WireCommand (cmd_of c)) (\<lambda>value. value)"])
       (auto simp: execute_command_def execute_halves to_pending_def api_finish_def split: prod.splits sum.splits)
next
  case (PostPipeline W req)
  show ?thesis
    unfolding PostPipeline handle_api.simps pipeline_handler_def
    by (subst run_route_halves [where ends = "\<lambda>g cs. operation_end g ''Redis pipeline timed out'' W
          (WirePipe ((append_commands new_pipe cs)\<lparr>p_ignore_errors := True\<rparr>)) (map pipeline_item)"])
       (auto simp: execute_pipeline_def execute_halves to_pending_def api_finish_def split: prod.splits sum.splits)
next
  case (PostMultiExec W req)
  show ?thesis
    unfolding PostMultiExec handle_api.simps multi_exec_handler_def
    by (subst run_route_halves [where ends = "\<lambda>g cs. operation_end g ''Redis transaction timed out'' W
          (WirePipe (append_commands (new_pipe\<lparr>p_atomic := True\<rparr>) cs)) (\<lambda>values. values)"])
       (auto simp: execute_transaction_def execute_halves to_pending_def api_finish_def split: prod.splits sum.splits)
qed

text \<open>The second half reads nothing that changes: its answer and what it sends are those of any state of the bridge.\<close>

lemma operation_end_pure:
  assumes "operation_end g msg W w f M = (r, sent, M')"
  shows "\<exists>M1. operation_end g msg W w f M0 = (r, sent, M1)"
  using assms by (auto simp: operation_end_def Let_def split: prod.splits wait.splits sum.splits)

lemma route_finish_pure:
  assumes "st_max_response_bytes T = st_max_response_bytes S"
    and "route_finish E n ser h route (r, ws, M) S = (en, S', sent)"
  shows "\<exists>T'. route_finish E n ser h route (r, ws, M1) T = (en, T', sent)"
  using assms
  by (auto simp: route_finish_def response_or_denied_def Let_def split: option.splits sum.splits prod.splits)

lemma route_end_pure:
  assumes "same_config S T"
    and "route_finish E n ser h route (operation_end g msg W w f (st_metrics S)) S = (en, S', sent)"
  shows "\<exists>T'. route_finish E n ser h route (operation_end g msg W w f (st_metrics T)) T = (en, T', sent)"
proof -
  obtain r ws M where e: "operation_end g msg W w f (st_metrics S) = (r, ws, M)" by (metis prod_cases3)
  from operation_end_pure [OF this] obtain M1 where "operation_end g msg W w f (st_metrics T) = (r, ws, M1)" by blast
  then show ?thesis
    using route_finish_pure [OF same_config_fields(7) [OF assms(1)]] assms(2) e by simp
qed

lemma api_finish_pure:
  "same_config S T \<Longrightarrow> api_finish E p S = (en, S', sent) \<Longrightarrow> \<exists>T'. api_finish E p T = (en, T', sent)"
  unfolding api_finish_def by (cases "po_work p") (auto intro: route_end_pure)

section \<open>A server at work\<close>

text \<open>
  The state of the bridge, the free permits of each target, the operations and subscriptions that are waited for, the
  open streams, the time of the last authentication, and the log of what was answered and what was sent for it.
\<close>

type_synonym log_entry = "incoming \<times> answer \<times> (nat \<times> message) list"

record site =
  si_state :: app_state
  si_permits :: "nat \<Rightarrow> nat"
  si_ops :: "(incoming \<times> pending_op) list"
  si_setups :: "(incoming \<times> pending) list"
  si_streams :: "rt_stream list"
  si_time :: instant
  si_log :: "log_entry list"

definition target_permits :: "app_state \<Rightarrow> nat \<Rightarrow> nat" where
  "target_permits S i = (if i < length (st_targets S) then t_permits (st_targets S ! i) else 0)"

definition site_init :: "app_state \<Rightarrow> site" where
  "site_init S = \<lparr>si_state = S, si_permits = target_permits S, si_ops = [], si_setups = [], si_streams = [], si_time = 0, si_log = []\<rparr>"

text \<open>The clock of a request that arrives is not behind that of the last one.\<close>

definition on_time :: "incoming \<Rightarrow> site \<Rightarrow> bool" where
  "on_time req w \<longleftrightarrow> si_time w \<le> now (in_clock req) \<and> now (in_clock req) \<le> later (in_clock req)"

definition arrived :: "incoming \<Rightarrow> app_state \<Rightarrow> site \<Rightarrow> site" where
  "arrived req S w = w\<lparr>si_state := S, si_time := later (in_clock req)\<rparr>"

definition logged :: "log_entry \<Rightarrow> site \<Rightarrow> site" where
  "logged entry w = w\<lparr>si_log := si_log w @ [entry]\<rparr>"

definition with_op :: "nat \<Rightarrow> pending_op \<Rightarrow> site \<Rightarrow> site" where
  "with_op i p w = w\<lparr>si_ops := (si_ops w)[i := (fst (si_ops w ! i), p)]\<rparr>"

inductive site_step :: "web \<Rightarrow> nat \<Rightarrow> site \<Rightarrow> site \<Rightarrow> bool" for X limit where
  op_refused: "request_call X limit req = ApiCall c \<Longrightarrow> on_time req w \<Longrightarrow>
    api_begin (wb_surroundings X) (in_clock req) c (si_state w) = (Err en, S') \<Longrightarrow>
    site_step X limit w (logged (req, ending_answer en, []) (arrived req S' w))"
| op_begun: "request_call X limit req = ApiCall c \<Longrightarrow> on_time req w \<Longrightarrow>
    api_begin (wb_surroundings X) (in_clock req) c (si_state w) = (Ok p, S') \<Longrightarrow>
    site_step X limit w ((arrived req S' w)\<lparr>si_ops := si_ops w @ [(req, p)]\<rparr>)"
| op_acquires: "i < length (si_ops w) \<Longrightarrow> si_ops w ! i = (req, p) \<Longrightarrow> po_phase p = Queued \<Longrightarrow>
    work_acquire (po_work p) \<in> {Completes Permit, Abandoned} \<Longrightarrow> 0 < si_permits w (po_target p) \<Longrightarrow>
    site_step X limit w ((with_op i (p\<lparr>po_phase := Running\<rparr>) w)\<lparr>si_permits :=
      (si_permits w)(po_target p := si_permits w (po_target p) - 1)\<rparr>)"
| op_waits: "i < length (si_ops w) \<Longrightarrow> si_ops w ! i = (req, p) \<Longrightarrow> po_phase p = Queued \<Longrightarrow>
    si_permits w (po_target p) = 0 \<Longrightarrow>
    site_step X limit w (with_op i (p\<lparr>po_blocked := True\<rparr>) w)"
| op_releases: "i < length (si_ops w) \<Longrightarrow> si_ops w ! i = (req, p) \<Longrightarrow> po_phase p = Running \<Longrightarrow>
    site_step X limit w ((with_op i (p\<lparr>po_phase := Released\<rparr>) w)\<lparr>si_permits :=
      (si_permits w)(po_target p := si_permits w (po_target p) + 1)\<rparr>)"
| op_ended: "i < length (si_ops w) \<Longrightarrow> si_ops w ! i = (req, p) \<Longrightarrow> permit_fits p \<Longrightarrow>
    api_finish (wb_surroundings X) p (si_state w) = (en, S', sent) \<Longrightarrow>
    site_step X limit w (logged (req, ending_answer en, map (map_prod id ToRedis) sent)
      (w\<lparr>si_state := S', si_ops := remove_at i (si_ops w)\<rparr>))"
| setup_refused: "request_call X limit req = SubscribeCall P sq \<Longrightarrow> on_time req w \<Longrightarrow>
    subscribe_begin (su_digests (wb_surroundings X)) (in_clock req) sq (si_state w) = (Done (Err resp), S') \<Longrightarrow>
    site_step X limit w (logged (req, Reply resp, []) (arrived req S' w))"
| setup_panic: "request_call X limit req = SubscribeCall P sq \<Longrightarrow> on_time req w \<Longrightarrow>
    subscribe_begin (su_digests (wb_surroundings X)) (in_clock req) sq (si_state w) = (Panic, S') \<Longrightarrow>
    site_step X limit w (logged (req, Crash, []) (arrived req S' w))"
| setup_begun: "request_call X limit req = SubscribeCall P sq \<Longrightarrow> on_time req w \<Longrightarrow>
    subscribe_begin (su_digests (wb_surroundings X)) (in_clock req) sq (si_state w) = (Done (Ok p), S') \<Longrightarrow>
    site_step X limit w ((arrived req S' w)\<lparr>si_setups := si_setups w @ [(req, p)]\<rparr>)"
| setup_ended: "i < length (si_setups w) \<Longrightarrow> si_setups w ! i = (req, p) \<Longrightarrow>
    pubsub_setup (in_pubsub req) (pe_channel p) = (ended, channels) \<Longrightarrow>
    subscribe_finish p ended (si_state w) = (resp, stream, S') \<Longrightarrow>
    site_step X limit w (logged (req, subscription_answer (Done resp),
        map (\<lambda>channel. (route_target (pe_route p), ToPubSub channel)) channels)
      (w\<lparr>si_state := S', si_setups := remove_at i (si_setups w),
         si_streams := si_streams w @ (case stream of None \<Rightarrow> [] | Some s \<Rightarrow> [s])\<rparr>))"
| direct: "\<forall>c. request_call X limit req \<noteq> ApiCall c \<Longrightarrow> \<forall>P sq. request_call X limit req \<noteq> SubscribeCall P sq \<Longrightarrow>
    on_time req w \<Longrightarrow> respond X limit req (si_state w) = ef \<Longrightarrow>
    site_step X limit w (logged (req, ef_answer ef, ef_sent ef) (arrived req (ef_state ef) w))"
| announces: "i < length (si_streams w) \<Longrightarrow> stream_announce (si_streams w ! i) = (es, s) \<Longrightarrow>
    site_step X limit w (w\<lparr>si_streams := (si_streams w)[i := s]\<rparr>)"
| streams: "i < length (si_streams w) \<Longrightarrow> stream_step (si_streams w ! i) stim = (es, s) \<Longrightarrow>
    site_step X limit w (w\<lparr>si_streams := (si_streams w)[i := s]\<rparr>)"
| stream_ends: "i < length (si_streams w) \<Longrightarrow>
    site_step X limit w (w\<lparr>si_state := stream_drop (si_streams w ! i) (si_state w),
      si_streams := remove_at i (si_streams w)\<rparr>)"

inductive site_reach :: "web \<Rightarrow> nat \<Rightarrow> app_state \<Rightarrow> site \<Rightarrow> bool" for X limit S0 where
  site_start: "site_reach X limit S0 (site_init S0)"
| site_next: "site_reach X limit S0 w \<Longrightarrow> site_step X limit w w' \<Longrightarrow> site_reach X limit S0 w'"

lemmas site_defs = arrived_def logged_def on_time_def

section \<open>The permits of the targets\<close>

definition running_for :: "nat \<Rightarrow> (incoming \<times> pending_op) list \<Rightarrow> nat" where
  "running_for i ops = length (filter (\<lambda>(_, p). po_phase p = Running \<and> po_target p = i) ops)"

definition permits_ok :: "app_state \<Rightarrow> site \<Rightarrow> bool" where
  "permits_ok S0 w \<longleftrightarrow> (\<forall>i. si_permits w i + running_for i (si_ops w) = target_permits S0 i)"

lemma running_update:
  assumes "k < length ops"
  shows "running_for i (ops[k := (r, q)]) + of_bool (po_phase (snd (ops ! k)) = Running \<and> po_target (snd (ops ! k)) = i) =
    running_for i ops + of_bool (po_phase q = Running \<and> po_target q = i)"
  using filter_update_length [OF assms, of "\<lambda>(_, p). po_phase p = Running \<and> po_target p = i" "(r, q)"]
  by (simp add: running_for_def split_beta)

lemma running_remove:
  assumes "k < length ops" and "po_phase (snd (ops ! k)) \<noteq> Running"
  shows "running_for i (remove_at k ops) = running_for i ops"
proof -
  have "ops = take k ops @ ops ! k # drop (Suc k) ops" using assms(1) by (rule id_take_nth_drop)
  then have "running_for i ops = running_for i (take k ops @ ops ! k # drop (Suc k) ops)" by simp
  then show ?thesis using assms(2) by (simp add: running_for_def remove_at_def split_beta)
qed

lemma permits_step:
  assumes "site_step X limit w w'" and "permits_ok S0 w"
  shows "permits_ok S0 w'"
  using assms(1)
proof cases
  case (op_begun req c p S')
  then have "po_phase p = Queued"
    by (cases c) (auto simp: to_pending_def split: prod.splits sum.splits)
  then show ?thesis
    using assms(2) by (simp add: op_begun(1) permits_ok_def arrived_def running_for_def)
next
  case (op_acquires i req p)
  show ?thesis
    unfolding permits_ok_def op_acquires(1) with_op_def
  proof
    fix t
    show "si_permits (w\<lparr>si_ops := (si_ops w)[i := (fst (si_ops w ! i), p\<lparr>po_phase := Running\<rparr>)],
        si_permits := (si_permits w)(po_target p := si_permits w (po_target p) - 1)\<rparr>) t +
      running_for t (si_ops (w\<lparr>si_ops := (si_ops w)[i := (fst (si_ops w ! i), p\<lparr>po_phase := Running\<rparr>)],
        si_permits := (si_permits w)(po_target p := si_permits w (po_target p) - 1)\<rparr>)) = target_permits S0 t"
      using running_update [OF op_acquires(2), of t "fst (si_ops w ! i)" "p\<lparr>po_phase := Running\<rparr>"]
        op_acquires assms(2) [unfolded permits_ok_def, rule_format, of t]
      by (auto simp: po_target_def split: if_splits)
  qed
next
  case (op_waits i req p)
  have "running_for t ((si_ops w)[i := (fst (si_ops w ! i), p\<lparr>po_blocked := True\<rparr>)]) = running_for t (si_ops w)" for t
    using running_update [OF op_waits(2), of t "fst (si_ops w ! i)" "p\<lparr>po_blocked := True\<rparr>"] op_waits by simp
  then show ?thesis using assms(2) by (simp add: op_waits(1) with_op_def permits_ok_def)
next
  case (op_releases i req p)
  show ?thesis
    unfolding permits_ok_def op_releases(1) with_op_def
  proof
    fix t
    show "si_permits (w\<lparr>si_ops := (si_ops w)[i := (fst (si_ops w ! i), p\<lparr>po_phase := Released\<rparr>)],
        si_permits := (si_permits w)(po_target p := si_permits w (po_target p) + 1)\<rparr>) t +
      running_for t (si_ops (w\<lparr>si_ops := (si_ops w)[i := (fst (si_ops w ! i), p\<lparr>po_phase := Released\<rparr>)],
        si_permits := (si_permits w)(po_target p := si_permits w (po_target p) + 1)\<rparr>)) = target_permits S0 t"
      using running_update [OF op_releases(2), of t "fst (si_ops w ! i)" "p\<lparr>po_phase := Released\<rparr>"]
        op_releases assms(2) [unfolded permits_ok_def, rule_format, of t]
      by (auto simp: po_target_def split: if_splits)
  qed
next
  case (op_ended i req p en S' sent)
  then have "po_phase (snd (si_ops w ! i)) \<noteq> Running" by (auto simp: permit_fits_def)
  then show ?thesis
    using running_remove [OF op_ended(2)] assms(2) by (simp add: op_ended(1) permits_ok_def logged_def)
qed (use assms(2) in \<open>simp_all add: permits_ok_def site_defs\<close>)

lemma site_permits: "site_reach X limit S0 w \<Longrightarrow> permits_ok S0 w"
proof (induction rule: site_reach.induct)
  case site_start
  then show ?case by (simp add: permits_ok_def site_init_def running_for_def)
qed (rule permits_step)

text \<open>
  On the way to a site there was a moment at which the request was queued and all permits of a target were held,
  by operations of that target.
\<close>

definition saturated :: "web \<Rightarrow> nat \<Rightarrow> app_state \<Rightarrow> site \<Rightarrow> incoming \<Rightarrow> nat \<Rightarrow> bool" where
  "saturated X limit S0 w req i \<longleftrightarrow>
     (\<exists>v p. site_reach X limit S0 v \<and> rtranclp (site_step X limit) v w \<and> (req, p) \<in> set (si_ops v) \<and>
        po_phase p = Queued \<and> po_target p = i \<and> running_for i (si_ops v) = target_permits S0 i)"

lemma saturated_step: "saturated X limit S0 w req i \<Longrightarrow> site_step X limit w w' \<Longrightarrow> saturated X limit S0 w' req i"
  unfolding saturated_def by (blast intro: rtranclp.rtrancl_into_rtrancl)

lemma saturated_here:
  assumes "site_reach X limit S0 w" and "i < length (si_ops w)" and "si_ops w ! i = (req, p)" and "po_phase p = Queued"
    and "si_permits w (po_target p) = 0"
  shows "saturated X limit S0 w req (po_target p)"
proof -
  have "(req, p) \<in> set (si_ops w)" using assms(2,3) nth_mem by metis
  moreover have "running_for (po_target p) (si_ops w) = target_permits S0 (po_target p)"
    using site_permits [OF assms(1)] assms(5) by (metis permits_ok_def add_0)
  ultimately show ?thesis using assms(1,4) unfolding saturated_def by blast
qed

section \<open>What the log says\<close>

text \<open>
  The invariant of the log. The state is that of the bridge it started with, and while the clock is in
  range the table of failures is in order. Whatever is pending began, and whatever is logged was
  answered, in such a state; and the logged answer is what the whole handler answers there. An operation that was
  blocked, and a logged answer that a permit was missing, are facts \<open>Q\<close> about the target.
\<close>

definition began_in :: "app_state \<Rightarrow> duration \<Rightarrow> instant \<Rightarrow> incoming \<Rightarrow> app_state \<Rightarrow> bool" where
  "began_in S0 d t req S \<longleftrightarrow> same_config S0 S \<and> now (in_clock req) \<le> later (in_clock req) \<and>
     later (in_clock req) \<le> t \<and> (t + d < INSTANT_LIMIT \<longrightarrow> lockout_ready (in_clock req) S)"

definition as_begun :: "pending_op \<Rightarrow> pending_op" where
  "as_begun p = p\<lparr>po_phase := Queued, po_blocked := False\<rparr>"

definition permit_story :: "web \<Rightarrow> nat \<Rightarrow> (incoming \<Rightarrow> nat \<Rightarrow> bool) \<Rightarrow> incoming \<Rightarrow> app_state \<Rightarrow> bool" where
  "permit_story X limit Q req S \<longleftrightarrow>
     (\<forall>c p S'. request_call X limit req = ApiCall c \<and> api_begin (wb_surroundings X) (in_clock req) c S = (Ok p, S') \<longrightarrow>
        work_acquire (po_work p) \<in> {Completes Permit, Abandoned} \<or>
        work_acquire (po_work p) \<in> {Completes AcquireTimeout, Elapses} \<and> Q req (po_target p))"

definition op_began ::
    "web \<Rightarrow> nat \<Rightarrow> app_state \<Rightarrow> duration \<Rightarrow> (incoming \<Rightarrow> nat \<Rightarrow> bool) \<Rightarrow> instant \<Rightarrow> incoming \<Rightarrow> pending_op \<Rightarrow> bool" where
  "op_began X limit S0 d Q t req p \<longleftrightarrow>
     (\<exists>S c S'. began_in S0 d t req S \<and> same_config S S' \<and> request_call X limit req = ApiCall c \<and>
        api_begin (wb_surroundings X) (in_clock req) c S = (Ok (as_begun p), S')) \<and>
     (po_blocked p \<longrightarrow> Q req (po_target p))"

definition setup_began :: "web \<Rightarrow> nat \<Rightarrow> app_state \<Rightarrow> duration \<Rightarrow> instant \<Rightarrow> incoming \<Rightarrow> pending \<Rightarrow> bool" where
  "setup_began X limit S0 d t req p \<longleftrightarrow>
     (\<exists>S sq S'. began_in S0 d t req S \<and> request_call X limit req = SubscribeCall (in_pubsub req) sq \<and>
        subscribe_begin (su_digests (wb_surroundings X)) (in_clock req) sq S = (Done (Ok p), S'))"

definition entry_answered ::
    "web \<Rightarrow> nat \<Rightarrow> app_state \<Rightarrow> duration \<Rightarrow> (incoming \<Rightarrow> nat \<Rightarrow> bool) \<Rightarrow> instant \<Rightarrow> incoming \<Rightarrow> answer \<Rightarrow>
       (nat \<times> message) list \<Rightarrow> bool" where
  "entry_answered X limit S0 d Q t req a sent \<longleftrightarrow>
     (\<exists>S. began_in S0 d t req S \<and> a = ef_answer (respond X limit req S) \<and> sent = ef_sent (respond X limit req S) \<and>
        permit_story X limit Q req S)"

definition log_inv ::
    "web \<Rightarrow> nat \<Rightarrow> app_state \<Rightarrow> duration \<Rightarrow> (incoming \<Rightarrow> nat \<Rightarrow> bool) \<Rightarrow> site \<Rightarrow> bool" where
  "log_inv X limit S0 d Q w \<longleftrightarrow>
     same_config S0 (si_state w) \<and>
     (si_time w + d < INSTANT_LIMIT \<longrightarrow> lockout_at (si_time w) d (si_state w)) \<and>
     (\<forall>(req, p) \<in> set (si_ops w). op_began X limit S0 d Q (si_time w) req p) \<and>
     (\<forall>(req, p) \<in> set (si_setups w). setup_began X limit S0 d (si_time w) req p) \<and>
     (\<forall>(req, a, sent) \<in> set (si_log w). entry_answered X limit S0 d Q (si_time w) req a sent)"

lemmas began_defs = op_began_def setup_began_def entry_answered_def

lemma set_remove_at: "set (remove_at i xs) \<subseteq> set xs"
  unfolding remove_at_def using set_take_subset set_drop_subset by fastforce

lemma began_later: "began_in S0 d t req S \<Longrightarrow> t \<le> t' \<Longrightarrow> began_in S0 d t' req S"
  by (auto simp: began_in_def)

lemma op_later: "op_began X limit S0 d Q t req p \<Longrightarrow> t \<le> t' \<Longrightarrow> op_began X limit S0 d Q t' req p"
  unfolding op_began_def using began_later by blast

lemma setup_later: "setup_began X limit S0 d t req p \<Longrightarrow> t \<le> t' \<Longrightarrow> setup_began X limit S0 d t' req p"
  unfolding setup_began_def using began_later by blast

lemma entry_later: "entry_answered X limit S0 d Q t req a sent \<Longrightarrow> t \<le> t' \<Longrightarrow> entry_answered X limit S0 d Q t' req a sent"
  unfolding entry_answered_def using began_later by blast

lemma began_here:
  "log_inv X limit S0 d Q w \<Longrightarrow> on_time req w \<Longrightarrow> began_in S0 d (later (in_clock req)) req (si_state w)"
  by (auto simp: log_inv_def on_time_def began_in_def intro: lockout_at_ready)

text \<open>The changes of a site that keep the invariant, one by one.\<close>

lemma inv_arrived:
  assumes "log_inv X limit S0 d Q w" and "on_time req w" and "same_config (si_state w) S'"
    and "lockout_ready (in_clock req) (si_state w) \<Longrightarrow> lockout_kept (in_clock req) (si_state w) S'"
  shows "log_inv X limit S0 d Q (arrived req S' w)"
proof -
  have t: "si_time w \<le> later (in_clock req)" using assms(2) by (simp add: on_time_def)
  have "lockout_at (later (in_clock req)) d S'" if "later (in_clock req) + d < INSTANT_LIMIT"
  proof -
    have "lockout_at (si_time w) d (si_state w)" using assms(1) t that by (auto simp: log_inv_def)
    moreover from this have "lockout_ready (in_clock req) (si_state w)"
      using assms(2) that by (auto simp: on_time_def intro: lockout_at_ready)
    ultimately show ?thesis using assms(4) lockout_at_kept by blast
  qed
  then show ?thesis
    using assms(1) same_config_trans [OF _ assms(3)]
    unfolding log_inv_def arrived_def case_prod_unfold
    by (simp (no_asm_simp)) (metis op_later [OF _ t] setup_later [OF _ t] entry_later [OF _ t])
qed

lemma began_arrived:
  "log_inv X limit S0 d Q w \<Longrightarrow> on_time req w \<Longrightarrow> began_in S0 d (si_time (arrived req S' w)) req (si_state w)"
  using began_here by (simp add: arrived_def)

lemma inv_logged:
  "log_inv X limit S0 d Q w \<Longrightarrow> began_in S0 d (si_time w) req S \<Longrightarrow> a = ef_answer (respond X limit req S) \<Longrightarrow>
   sent = ef_sent (respond X limit req S) \<Longrightarrow> permit_story X limit Q req S \<Longrightarrow>
   log_inv X limit S0 d Q (logged (req, a, sent) w)"
  unfolding log_inv_def logged_def by (auto simp: entry_answered_def)

lemma inv_state:
  "log_inv X limit S0 d Q w \<Longrightarrow> same_config (si_state w) S' \<Longrightarrow> st_auth_lockout S' = st_auth_lockout (si_state w) \<Longrightarrow>
   log_inv X limit S0 d Q (w\<lparr>si_state := S'\<rparr>)"
  unfolding log_inv_def lockout_at_def using same_config_trans by auto

lemma inv_fewer:
  "log_inv X limit S0 d Q w \<Longrightarrow> log_inv X limit S0 d Q (w\<lparr>si_ops := remove_at i (si_ops w)\<rparr>)"
  "log_inv X limit S0 d Q w \<Longrightarrow> log_inv X limit S0 d Q (w\<lparr>si_setups := remove_at i (si_setups w)\<rparr>)"
  "log_inv X limit S0 d Q w \<Longrightarrow> log_inv X limit S0 d Q (w\<lparr>si_streams := ss\<rparr>)"
  unfolding log_inv_def using set_remove_at [of i "si_ops w"] set_remove_at [of i "si_setups w"] by auto

lemma inv_op:
  "log_inv X limit S0 d Q w \<Longrightarrow> began_in S0 d (si_time w) req S \<Longrightarrow> request_call X limit req = ApiCall c \<Longrightarrow>
   api_begin (wb_surroundings X) (in_clock req) c S = (Ok p, S') \<Longrightarrow> same_config S S' \<Longrightarrow>
   as_begun p = p \<Longrightarrow> \<not> po_blocked p \<Longrightarrow> log_inv X limit S0 d Q (w\<lparr>si_ops := si_ops w @ [(req, p)]\<rparr>)"
  unfolding log_inv_def by (auto simp: op_began_def)

lemma inv_with_op:
  assumes "log_inv X limit S0 d Q w" and "i < length (si_ops w)" and "si_ops w ! i = (req, p)"
    and "as_begun q = as_begun p" and "po_blocked q \<longrightarrow> po_blocked p \<or> Q req (po_target p)"
  shows "log_inv X limit S0 d Q (with_op i q w)"
proof -
  have p: "(req, p) \<in> set (si_ops w)" using assms(2,3) nth_mem by metis
  have t: "po_target q = po_target p" using arg_cong [OF assms(4), of po_route] by (simp add: as_begun_def po_target_def)
  have L: "same_config S0 (si_state w)" "si_time w + d < INSTANT_LIMIT \<longrightarrow> lockout_at (si_time w) d (si_state w)"
      "\<forall>x \<in> set (si_ops w). op_began X limit S0 d Q (si_time w) (fst x) (snd x)"
      "\<forall>x \<in> set (si_setups w). setup_began X limit S0 d (si_time w) (fst x) (snd x)"
      "\<forall>x \<in> set (si_log w). entry_answered X limit S0 d Q (si_time w) (fst x) (fst (snd x)) (snd (snd x))"
    using assms(1) unfolding log_inv_def case_prod_unfold by blast+
  have "op_began X limit S0 d Q (si_time w) req q"
    using bspec [OF L(3) p] assms(4,5) t by (auto simp: op_began_def)
  then have "\<forall>x \<in> set ((si_ops w)[i := (fst (si_ops w ! i), q)]). op_began X limit S0 d Q (si_time w) (fst x) (snd x)"
    using L(3) set_update_subset_insert [of "si_ops w" i "(req, q)"] assms(3) by auto
  then show ?thesis using L(1,2,4,5) by (simp add: log_inv_def with_op_def case_prod_unfold)
qed

lemma inv_permits: "log_inv X limit S0 d Q (w\<lparr>si_permits := f\<rparr>) = log_inv X limit S0 d Q w"
  by (simp add: log_inv_def)

lemma op_mono:
  "op_began X limit S0 d Q t req p \<Longrightarrow> (\<And>req i. Q req i \<Longrightarrow> Q' req i) \<Longrightarrow> op_began X limit S0 d Q' t req p"
  unfolding op_began_def by blast

lemma entry_mono:
  assumes "entry_answered X limit S0 d Q t req a sent" and "\<And>req i. Q req i \<Longrightarrow> Q' req i"
  shows "entry_answered X limit S0 d Q' t req a sent"
proof -
  have "permit_story X limit Q req S \<Longrightarrow> permit_story X limit Q' req S" for S
    using assms(2) unfolding permit_story_def by blast
  then show ?thesis using assms(1) unfolding entry_answered_def by blast
qed

lemma inv_mono:
  assumes "log_inv X limit S0 d Q w" and "\<And>req i. Q req i \<Longrightarrow> Q' req i"
  shows "log_inv X limit S0 d Q' w"
proof -
  have "op_began X limit S0 d Q' (si_time w) req p" if "(req, p) \<in> set (si_ops w)" for req p
  proof (rule op_mono [OF _ assms(2)])
    show "op_began X limit S0 d Q (si_time w) req p" using assms(1) that by (auto simp: log_inv_def)
  qed
  moreover have "entry_answered X limit S0 d Q' (si_time w) req a sent" if "(req, a, sent) \<in> set (si_log w)" for req a sent
  proof (rule entry_mono [OF _ assms(2)])
    show "entry_answered X limit S0 d Q (si_time w) req a sent" using assms(1) that by (auto simp: log_inv_def)
  qed
  ultimately show ?thesis using assms(1) by (auto simp: log_inv_def)
qed

lemma api_begin_fresh: "api_begin E clk c S = (Ok p, S') \<Longrightarrow> as_begun p = p \<and> \<not> po_blocked p"
  by (cases c) (auto simp: to_pending_def as_begun_def split: prod.splits sum.splits)

lemma api_finish_begun: "api_finish E (as_begun p) S = api_finish E p S"
  by (simp add: api_finish_def as_begun_def)

lemma no_story:
  "\<forall>c. request_call X limit req \<noteq> ApiCall c \<Longrightarrow> permit_story X limit Q req S"
  "request_call X limit req = SubscribeCall P sq \<Longrightarrow> permit_story X limit Q req S"
  "request_call X limit req = ApiCall c \<Longrightarrow> api_begin (wb_surroundings X) (in_clock req) c S = (Err en, S') \<Longrightarrow>
   permit_story X limit Q req S"
  by (auto simp: permit_story_def)

text \<open>An operation that has ended: its outcome was possible only in the way its phase says.\<close>

lemma ended_story:
  assumes "request_call X limit req = ApiCall c"
    and "api_begin (wb_surroundings X) (in_clock req) c S = (Ok (as_begun p), S')"
    and "permit_fits p" and "po_blocked p \<longrightarrow> Q req (po_target p)"
  shows "permit_story X limit Q req S"
  using assms
  by (auto simp: permit_story_def permit_fits_def as_begun_def po_target_def split: op_phase.splits)

lemma inv_setup:
  "log_inv X limit S0 d Q w \<Longrightarrow> began_in S0 d (si_time w) req S \<Longrightarrow>
   request_call X limit req = SubscribeCall (in_pubsub req) sq \<Longrightarrow>
   subscribe_begin (su_digests (wb_surroundings X)) (in_clock req) sq S = (Done (Ok p), S') \<Longrightarrow>
   log_inv X limit S0 d Q (w\<lparr>si_setups := si_setups w @ [(req, p)]\<rparr>)"
  unfolding log_inv_def by (auto simp: setup_began_def)

text \<open>What the halves change.\<close>

lemma route_begin_state:
  assumes "route_begin E clk n k parse req S = (r, S')"
  shows "same_config S S'" and "st_auth_lockout S' = st_auth_lockout (snd (command_auth (su_digests E) clk
    (rq_headers req) (client_ip S (rq_headers req) (rq_peer req)) S))"
  using assms
  by (auto simp: route_begin_def Let_def split: prod.splits outcome.splits sum.splits dest!: command_auth_config)

lemma to_pending_state:
  assumes "to_pending h work (route_begin E clk n k parse req S) = (r, S')"
  shows "same_config S S'" and "lockout_ready clk S \<Longrightarrow> lockout_kept clk S S'"
proof -
  obtain x where x: "route_begin E clk n k parse req S = (x, S')"
    using assms by (auto simp: to_pending_def split: prod.splits sum.splits)
  then show "same_config S S'" by (rule route_begin_state)
  show "lockout_ready clk S \<Longrightarrow> lockout_kept clk S S'"
    using route_begin_state(2) [OF x] command_auth_kept [of clk S] by (metis lockout_kept_def prod.collapse)
qed

lemma api_begin_state:
  assumes "api_begin E clk c S = (r, S')"
  shows "same_config S S'" and "lockout_ready clk S \<Longrightarrow> lockout_kept clk S S'"
  using assms by (cases c; auto dest: to_pending_state)+

lemma api_finish_state:
  assumes "api_finish E p S = (en, S', sent)"
  shows "same_config S S'" and "st_auth_lockout S' = st_auth_lockout S"
  using assms unfolding api_finish_def
  by (cases "po_work p"; auto simp: route_finish_def response_or_denied_def Let_def
      split: prod.splits option.splits sum.splits)+

lemma subscribe_begin_kept:
  "subscribe_begin D clk sq S = (r, S') \<Longrightarrow> lockout_ready clk S \<Longrightarrow> lockout_kept clk S S'"
  using subscribe_begin_lockout [of D clk sq S r S'] realtime_auth_kept [of clk S]
  by (metis lockout_kept_def prod.collapse)

lemma subscribe_call: "request_call X limit req = SubscribeCall P sq \<Longrightarrow> P = in_pubsub req"
  unfolding request_call_def
  by (auto split: dispatched.splits sum.splits elim!: endpoint_call.elims)

text \<open>The answer of a subscription depends on the end of its setup only.\<close>

lemma subscribe_finish_answer:
  "subscribe_finish p ended S = (resp, stream, S') \<Longrightarrow> fst (subscribe_finish p ended T) = resp"
  by (auto simp: subscribe_finish_def Let_def deny_subscribe_def split: prod.splits wait.splits sum.splits)

text \<open>The whole handler, from its halves in the states they run in.\<close>

lemma respond_refused:
  "request_call X limit req = ApiCall c \<Longrightarrow> api_begin (wb_surroundings X) (in_clock req) c S = (Err en, S') \<Longrightarrow>
   ef_answer (respond X limit req S) = ending_answer en \<and> ef_sent (respond X limit req S) = []"
  by (simp add: respond_def handle_api_halves)

lemma respond_halves:
  "request_call X limit req = ApiCall c \<Longrightarrow> api_begin (wb_surroundings X) (in_clock req) c S = (Ok p, S1) \<Longrightarrow>
   same_config S1 T \<Longrightarrow> api_finish (wb_surroundings X) p T = (en, S', sent) \<Longrightarrow>
   ef_answer (respond X limit req S) = ending_answer en \<and>
   ef_sent (respond X limit req S) = map (map_prod id ToRedis) sent"
  using api_finish_pure [OF same_config_sym, of S1 T "wb_surroundings X" p en S' sent]
  by (auto simp: respond_def handle_api_halves)

lemma respond_setup:
  assumes "request_call X limit req = SubscribeCall (in_pubsub req) sq"
    and "subscribe_begin (su_digests (wb_surroundings X)) (in_clock req) sq S = (Done (Ok p), S1)"
    and "pubsub_setup (in_pubsub req) (pe_channel p) = (ended, channels)"
    and "subscribe_finish p ended T = (resp, stream, T')"
  shows "ef_answer (respond X limit req S) = subscription_answer (Done resp)"
    and "ef_sent (respond X limit req S) = map (\<lambda>channel. (route_target (pe_route p), ToPubSub channel)) channels"
  using assms subscribe_finish_answer [OF assms(4), of S1]
  by (auto simp: respond_def subscribe_def split: prod.splits)

lemma log_inv_step:
  assumes "site_step X limit w w'" and "log_inv X limit S0 d Q w"
    and "\<And>i req p. i < length (si_ops w) \<Longrightarrow> si_ops w ! i = (req, p) \<Longrightarrow> po_phase p = Queued \<Longrightarrow>
      si_permits w (po_target p) = 0 \<Longrightarrow> Q req (po_target p)"
  shows "log_inv X limit S0 d Q w'"
  using assms(1)
proof cases
  case (op_refused req c en S')
  have "log_inv X limit S0 d Q (arrived req S' w)"
    by (rule inv_arrived [OF assms(2) op_refused(3) api_begin_state [OF op_refused(4)]])
  then show ?thesis
    unfolding op_refused(1)
    using inv_logged began_arrived [OF assms(2) op_refused(3)] respond_refused [OF op_refused(2,4)]
      no_story(3) [OF op_refused(2,4)] by metis
next
  case (op_begun req c p S')
  have "log_inv X limit S0 d Q (arrived req S' w)"
    by (rule inv_arrived [OF assms(2) op_begun(3) api_begin_state [OF op_begun(4)]])
  from inv_op [OF this began_arrived [OF assms(2) op_begun(3)] op_begun(2,4) api_begin_state(1) [OF op_begun(4)]]
  show ?thesis using api_begin_fresh [OF op_begun(4)] by (simp add: op_begun(1) arrived_def)
next
  case (op_acquires i req p)
  show ?thesis
    unfolding op_acquires(1) inv_permits
    by (rule inv_with_op [OF assms(2) op_acquires(2,3)]) (simp_all add: as_begun_def)
next
  case (op_waits i req p)
  show ?thesis
    unfolding op_waits(1)
    by (rule inv_with_op [OF assms(2) op_waits(2,3)]) (use assms(3) [OF op_waits(2-5)] in \<open>simp_all add: as_begun_def\<close>)
next
  case (op_releases i req p)
  show ?thesis
    unfolding op_releases(1) inv_permits
    by (rule inv_with_op [OF assms(2) op_releases(2,3)]) (simp_all add: as_begun_def)
next
  case (op_ended i req p en S' sent)
  have "(req, p) \<in> set (si_ops w)" using op_ended(2,3) nth_mem by metis
  then obtain S c S1 where b: "began_in S0 d (si_time w) req S" "same_config S S1"
      "request_call X limit req = ApiCall c" "api_begin (wb_surroundings X) (in_clock req) c S = (Ok (as_begun p), S1)"
      "po_blocked p \<longrightarrow> Q req (po_target p)"
    using assms(2) by (auto simp: log_inv_def began_defs)
  have "same_config S1 (si_state w)"
    using same_config_trans [OF same_config_sym [OF b(2)]] same_config_trans [OF same_config_sym] b(1) assms(2)
    by (metis began_in_def log_inv_def)
  note r = respond_halves [OF b(3,4) this op_ended(5) [folded api_finish_begun [of _ p]]]
  have "log_inv X limit S0 d Q (w\<lparr>si_state := S', si_ops := remove_at i (si_ops w)\<rparr>)"
    using inv_fewer(1) [OF inv_state [OF assms(2) api_finish_state [OF op_ended(5)]], of i] by simp
  then show ?thesis
    unfolding op_ended(1)
    by (rule inv_logged [where S = S]) (use b(1) r ended_story [where Q = Q and p = p, OF b(3,4) op_ended(4) b(5)] in simp_all)
next
  case (setup_refused req P sq resp S')
  have "log_inv X limit S0 d Q (arrived req S' w)"
    by (rule inv_arrived [OF assms(2) setup_refused(3) subscribe_begin_config [OF setup_refused(4)]
          subscribe_begin_kept [OF setup_refused(4)]])
  then show ?thesis
    unfolding setup_refused(1)
    by (rule inv_logged [OF _ began_arrived [OF assms(2) setup_refused(3)]])
       (use setup_refused(2,4) in \<open>simp_all add: respond_def subscribe_def no_story(2)\<close>)
next
  case (setup_panic req P sq S')
  have "log_inv X limit S0 d Q (arrived req S' w)"
    by (rule inv_arrived [OF assms(2) setup_panic(3) subscribe_begin_config [OF setup_panic(4)]
          subscribe_begin_kept [OF setup_panic(4)]])
  then show ?thesis
    unfolding setup_panic(1)
    by (rule inv_logged [OF _ began_arrived [OF assms(2) setup_panic(3)]])
       (use setup_panic(2,4) in \<open>simp_all add: respond_def subscribe_def no_story(2)\<close>)
next
  case (setup_begun req P sq p S')
  have call: "request_call X limit req = SubscribeCall (in_pubsub req) sq"
    using setup_begun(2) subscribe_call by metis
  have "log_inv X limit S0 d Q (arrived req S' w)"
    by (rule inv_arrived [OF assms(2) setup_begun(3) subscribe_begin_config [OF setup_begun(4)]
          subscribe_begin_kept [OF setup_begun(4)]])
  from inv_setup [OF this began_arrived [OF assms(2) setup_begun(3)] call setup_begun(4)]
  show ?thesis by (simp add: setup_begun(1) arrived_def)
next
  case (setup_ended i req p ended channels resp stream S')
  have "(req, p) \<in> set (si_setups w)" using setup_ended(2,3) nth_mem by metis
  then obtain S sq S1 where b: "began_in S0 d (si_time w) req S"
      "request_call X limit req = SubscribeCall (in_pubsub req) sq"
      "subscribe_begin (su_digests (wb_surroundings X)) (in_clock req) sq S = (Done (Ok p), S1)"
    using assms(2) by (auto simp: log_inv_def began_defs)
  note r = respond_setup [OF b(2,3) setup_ended(4,5)]
  have "same_config (si_state w) S'" using subscribe_finish_config [OF setup_ended(5), of "si_state w"] by simp
  then have "log_inv X limit S0 d Q (w\<lparr>si_state := S'\<rparr>)"
    using inv_state [OF assms(2)] subscribe_finish_lockout [OF setup_ended(5)] by blast
  from inv_fewer(3) [OF inv_fewer(2) [OF this, of i]]
  have "log_inv X limit S0 d Q (w\<lparr>si_state := S', si_setups := remove_at i (si_setups w), si_streams := ss\<rparr>)" for ss
    by simp
  then show ?thesis
    unfolding setup_ended(1) by (rule inv_logged [where S = S]) (use b(1) r no_story(2) [OF b(2)] in simp_all)
next
  case (direct req ef)
  have "log_inv X limit S0 d Q (arrived req (ef_state ef) w)"
    by (rule inv_arrived [OF assms(2) direct(4)]) (use respond_config respond_kept(1) direct(5) in blast)+
  then show ?thesis
    unfolding direct(1)
    by (rule inv_logged [OF _ began_arrived [OF assms(2) direct(4)]]) (simp_all add: direct(5) no_story(1) [OF direct(2)])
next
  case (stream_ends i)
  have "log_inv X limit S0 d Q (w\<lparr>si_state := stream_drop (si_streams w ! i) (si_state w)\<rparr>)"
    by (rule inv_state [OF assms(2)]) (simp_all add: stream_drop_def release_realtime_def)
  from inv_fewer(3) [OF this] show ?thesis by (simp add: stream_ends(1))
qed (use inv_fewer(3) [OF assms(2)] in auto)

lemma site_log_inv:
  assumes "site_reach X limit S0 w" and "lockout_at 0 d S0"
  shows "log_inv X limit S0 d (saturated X limit S0 w) w"
  using assms(1)
proof (induction rule: site_reach.induct)
  case site_start
  then show ?case using assms(2) by (simp add: log_inv_def site_init_def)
next
  case (site_next w w')
  have "log_inv X limit S0 d (saturated X limit S0 w') w"
    using inv_mono [OF site_next(3)] saturated_step [OF _ site_next(2)] by blast
  then show ?case
    using log_inv_step [OF site_next(2)] saturated_here [OF site_next(1)] saturated_step [OF _ site_next(2)] by metis
qed

section \<open>What is accounted for\<close>

lemma keeps_command_auth: "command_auth D clk headers ip S = (r, S') \<Longrightarrow> keeps_inflight S S'"
  by (auto simp: command_auth_def require_route_def
      split: prod.splits outcome.splits sum.splits dest: keeps_bridge_auth)

lemma keeps_metrics_auth: "metrics_auth clk headers ip S = (r, S') \<Longrightarrow> keeps_inflight S S'"
  by (auto simp: metrics_auth_def bearer_token_bearer refuse_not_Ok keeps_refl
      split: option.splits prod.splits outcome.splits sum.splits if_splits dest: keeps_refuse keeps_accept)

lemma keeps_request_denied: "keeps_inflight S (S'\<lparr>st_metrics := request_denied r s (st_metrics S')\<rparr>) = keeps_inflight S S'"
  by (simp add: keeps_inflight_def same_bridge_def request_denied_def gauge_value_append)

lemma keeps_command_denied:
  "keeps_inflight S (S'\<lparr>st_metrics := request_denied r s (command_denied t k (st_metrics S'))\<rparr>) = keeps_inflight S S'"
  by (simp add: keeps_inflight_def same_bridge_def request_denied_def command_denied_def gauge_value_append)

lemma keeps_metrics_handler: "metrics_handler E clk req S = (en, S') \<Longrightarrow> keeps_inflight S S'"
  by (auto simp: metrics_handler_def Let_def keeps_request_denied split: prod.splits outcome.splits sum.splits
      dest!: keeps_metrics_auth keeps_refresh intro: keeps_trans)

lemma route_begin_inflight:
  assumes "route_begin E clk n k parse req S = (r, S')"
  shows "(\<exists>en. r = Err en \<and> keeps_inflight S S') \<or>
    (\<exists>route cs g S1 l M. r = Ok (route, cs, g) \<and> keeps_inflight S S1 \<and> open_operation l (st_metrics S1) = (g, M) \<and>
      S' = S1\<lparr>st_metrics := M\<rparr>)"
proof -
  obtain a S1 where a: "command_auth (su_digests E) clk (rq_headers req) (client_ip S (rq_headers req) (rq_peer req)) S = (a, S1)"
    by fastforce
  note k = keeps_command_auth [OF this]
  show ?thesis
  proof (cases a)
    case Panic
    then show ?thesis using assms a k by (auto simp: route_begin_def)
  next
    case (Done x)
    show ?thesis
    proof (cases x)
      case (Inl e)
      then show ?thesis using assms a k Done by (auto simp: route_begin_def keeps_request_denied)
    next
      case (Inr route)
      show ?thesis
      proof (cases "\<exists>body cs. rq_body req = Ok body \<and> parse (st_security S1) body (route_type route) = Ok cs")
        case True
        then obtain body cs where "rq_body req = Ok body" "parse (st_security S1) body (route_type route) = Ok cs"
          by blast
        moreover obtain g M
          where o: "open_operation (target_id (target_of S1 route), n) (st_metrics S1) = (g, M)" by fastforce
        ultimately have "r = Ok (route, cs, g)" "S' = S1\<lparr>st_metrics := M\<rparr>"
          using assms a Done Inr by (simp_all add: route_begin_def open_operation_def)
        then show ?thesis using k o by blast
      next
        case False
        then show ?thesis
          using assms a k Done Inr
          by (auto simp: route_begin_def Let_def keeps_request_denied keeps_command_denied split: sum.splits prod.splits)
      qed
    qed
  qed
qed

lemma to_pending_inflight:
  assumes "to_pending h work (route_begin E clk n k parse req S) = (r, S')"
  shows "(\<exists>en. r = Err en \<and> keeps_inflight S S') \<or>
    (\<exists>p S1 l M. r = Ok p \<and> keeps_inflight S S1 \<and> open_operation l (st_metrics S1) = (po_guard p, M) \<and>
      S' = S1\<lparr>st_metrics := M\<rparr>)"
proof -
  obtain x where x: "route_begin E clk n k parse req S = (x, S')"
    using assms by (auto simp: to_pending_def split: prod.splits sum.splits)
  from route_begin_inflight [OF this] show ?thesis
    using assms x by (fastforce simp: to_pending_def split: prod.splits sum.splits)
qed

lemma api_begin_inflight:
  "api_begin E clk c S = (r, S') \<Longrightarrow> (\<exists>en. r = Err en \<and> keeps_inflight S S') \<or>
    (\<exists>p S1 l M. r = Ok p \<and> keeps_inflight S S1 \<and> open_operation l (st_metrics S1) = (po_guard p, M) \<and>
      S' = S1\<lparr>st_metrics := M\<rparr>)"
  by (cases c; simp only: api_begin.simps; rule to_pending_inflight; assumption)

lemma operation_end_closes:
  assumes "operation_end g msg W w f M = (r, sent, M')"
  shows "\<exists>h. M' = close_operation h g M"
proof -
  have "M' \<in> {close_operation Succeeded g M, close_operation Errored g M, close_operation TimedOut g M,
      close_operation Dropped g M}"
    using assms by (auto simp: operation_end_def Let_def split: prod.splits wait.splits sum.splits)
  then show ?thesis by blast
qed

lemma close_operation_realtime:
  "gauge_value (close_operation h g M) realtime_inflight ls = gauge_value M realtime_inflight ls"
  by (cases h) (auto simp: metrics_defs Let_def gauge_value_append)

text \<open>The second half closes the guard, and touches neither gauge otherwise.\<close>

lemma route_end_inflight:
  assumes "route_finish E n ser h route (operation_end g msg W w f (st_metrics S)) S = (en, S', sent)"
  shows "\<exists>c. same_bridge S S' \<and> keeps_inflight (S\<lparr>st_metrics := close_operation c g (st_metrics S)\<rparr>) S'"
proof -
  obtain r ws M where e: "operation_end g msg W w f (st_metrics S) = (r, ws, M)" by (metis prod_cases3)
  from operation_end_closes [OF this] obtain c where c: "M = close_operation c g (st_metrics S)" by blast
  have "keeps_inflight (S\<lparr>st_metrics := M\<rparr>) S' \<and> same_bridge S S'"
    using assms e
    by (auto simp: route_finish_def response_or_denied_def Let_def keeps_refl same_bridge_def
        split: option.splits sum.splits prod.splits)
       (auto simp: keeps_inflight_def same_bridge_def request_denied_def gauge_value_append)
  then show ?thesis using c by blast
qed

lemma api_finish_inflight:
  "api_finish E p S = (en, S', sent) \<Longrightarrow>
   \<exists>c. same_bridge S S' \<and> keeps_inflight (S\<lparr>st_metrics := close_operation c (po_guard p) (st_metrics S)\<rparr>) S'"
  unfolding api_finish_def by (cases "po_work p") (auto dest: route_end_inflight)

text \<open>The subscriptions do not touch the gauge of the operations.\<close>

lemma subscribe_begin_ops:
  "subscribe_begin D clk sq S = (r, S') \<Longrightarrow>
   gauge_value (st_metrics S') redis_operations_inflight ls = gauge_value (st_metrics S) redis_operations_inflight ls"
  by (erule subscribe_begin_cases) (simp_all add: keeps_inflight_def)

lemma subscribe_finish_ops:
  "subscribe_finish p ended S = (resp, stream, S') \<Longrightarrow>
   gauge_value (st_metrics S') redis_operations_inflight ls = gauge_value (st_metrics S) redis_operations_inflight ls"
  by (auto simp: subscribe_finish_def Let_def deny_subscribe_def release_realtime_def request_denied_def
      realtime_connection_def gauge_value_append split: prod.splits wait.splits sum.splits)

lemma stream_drop_ops:
  "gauge_value (st_metrics (stream_drop s S)) redis_operations_inflight ls =
   gauge_value (st_metrics S) redis_operations_inflight ls"
  by (simp add: stream_drop_def release_realtime_def ConnectionGuard_drop_def gauge_value_append)

lemma open_operation_realtime:
  "open_operation l M = (g, M') \<Longrightarrow> gauge_value M' realtime_inflight ls = gauge_value M realtime_inflight ls"
  by (auto simp: open_operation_def begin_operation_def gauge_value_append)

text \<open>The subscriptions of a site, as a world of \<open>Realtime\<close>, and the guards of its operations.\<close>

definition subscriptions_of :: "site \<Rightarrow> realtime_world" where
  "subscriptions_of w = \<lparr>rw_state = si_state w, rw_pending = map snd (si_setups w), rw_streams = si_streams w\<rparr>"

definition operations_run :: "app_state \<Rightarrow> (incoming \<times> pending_op) list \<Rightarrow> app_state \<Rightarrow> bool" where
  "operations_run S0 ops S \<longleftrightarrow>
     guards_run open_operation close_operation redis_operations_inflight (st_metrics S0)
       (map (po_guard \<circ> snd) ops) (st_metrics S)"

lemma operations_other:
  "operations_run S0 ops S \<Longrightarrow>
   \<forall>ls. gauge_value (st_metrics S') redis_operations_inflight ls = gauge_value (st_metrics S) redis_operations_inflight ls \<Longrightarrow>
   operations_run S0 ops S'"
  unfolding operations_run_def by (rule run_other)

lemma rt_other_keeps:
  "rt_reach D S0 w \<Longrightarrow> keeps_inflight (rw_state w) S' \<Longrightarrow> rt_reach D S0 (w\<lparr>rw_state := S'\<rparr>)"
  by (rule rt_next [OF _ rt_other]) (auto simp: keeps_inflight_def)

definition site_accounts :: "web \<Rightarrow> app_state \<Rightarrow> site \<Rightarrow> bool" where
  "site_accounts X S0 w \<longleftrightarrow>
     rt_reach (su_digests (wb_surroundings X)) S0 (subscriptions_of w) \<and> operations_run S0 (si_ops w) (si_state w)"

lemma accounts_keeps:
  assumes "site_accounts X S0 w" and "keeps_inflight (si_state w) S'"
  shows "site_accounts X S0 (w\<lparr>si_state := S'\<rparr>)"
  using assms rt_other_keeps [of _ S0 "subscriptions_of w" S'] operations_other
  by (auto simp: site_accounts_def subscriptions_of_def keeps_inflight_def)

lemma accounts_irrelevant [simp]:
  "site_accounts X S0 (w\<lparr>si_time := t\<rparr>) = site_accounts X S0 w"
  "site_accounts X S0 (logged entry w) = site_accounts X S0 w"
  "site_accounts X S0 (w\<lparr>si_permits := f\<rparr>) = site_accounts X S0 w"
  by (simp_all add: site_accounts_def subscriptions_of_def logged_def)

text \<open>What becomes of an operation on its way to a permit does not touch its guard.\<close>

lemma guards_with_op:
  assumes "i < length (si_ops w)" and "po_guard q = po_guard (snd (si_ops w ! i))"
  shows "map (po_guard \<circ> snd) (si_ops (with_op i q w)) = map (po_guard \<circ> snd) (si_ops w)"
  using assms by (simp add: with_op_def map_update list_update_same_conv)

lemma accounts_with_op:
  assumes "i < length (si_ops w)" and "po_guard q = po_guard (snd (si_ops w ! i))"
  shows "site_accounts X S0 (with_op i q w) = site_accounts X S0 w"
proof -
  have "subscriptions_of (with_op i q w) = subscriptions_of w" "si_state (with_op i q w) = si_state w"
    by (simp_all add: subscriptions_of_def with_op_def)
  then show ?thesis using guards_with_op [OF assms] by (simp add: site_accounts_def operations_run_def)
qed

lemma accounts_arrived: "site_accounts X S0 (arrived req S' w) = site_accounts X S0 (w\<lparr>si_state := S'\<rparr>)"
  by (simp add: arrived_def site_accounts_def subscriptions_of_def)

lemma site_accounts_step:
  assumes "site_step X limit w w'" and "site_accounts X S0 w"
  shows "site_accounts X S0 w'"
proof -
  let ?D = "su_digests (wb_surroundings X)"
  have rt: "rt_reach ?D S0 (subscriptions_of w)" and ops: "operations_run S0 (si_ops w) (si_state w)"
    using assms(2) by (auto simp: site_accounts_def)
  from assms(1) show ?thesis
  proof cases
    case (op_refused req c en S')
    then show ?thesis
      using api_begin_inflight [OF op_refused(4)] accounts_keeps [OF assms(2)] by (auto simp: accounts_arrived)
  next
    case (op_begun req c p S')
    then obtain S1 l M where o: "keeps_inflight (si_state w) S1"
        "open_operation l (st_metrics S1) = (po_guard p, M)" "S' = S1\<lparr>st_metrics := M\<rparr>"
      using api_begin_inflight [OF op_begun(4)] by auto
    have a: "site_accounts X S0 (w\<lparr>si_state := S1\<rparr>)" by (rule accounts_keeps [OF assms(2) o(1)])
    then have "guards_run open_operation close_operation redis_operations_inflight (st_metrics S0)
        (map (po_guard \<circ> snd) (si_ops w)) (st_metrics S1)"
      by (simp add: site_accounts_def operations_run_def)
    from run_open [where opn = open_operation, OF this o(2)]
    have "operations_run S0 (si_ops w @ [(req, p)]) S'" using o(3) by (simp add: operations_run_def)
    moreover have "rt_reach ?D S0 (subscriptions_of (w\<lparr>si_state := S'\<rparr>))"
      using rt_next [OF _ rt_other, of ?D S0 "subscriptions_of (w\<lparr>si_state := S1\<rparr>)" S'] a o(3)
        open_operation_realtime [OF o(2)]
      by (simp add: site_accounts_def subscriptions_of_def)
    ultimately show ?thesis by (simp add: op_begun(1) arrived_def site_accounts_def subscriptions_of_def)
  next
    case (op_acquires i req p)
    then show ?thesis using assms(2) by (simp add: accounts_with_op)
  next
    case (op_waits i req p)
    then show ?thesis using assms(2) by (simp add: accounts_with_op)
  next
    case (op_releases i req p)
    then show ?thesis using assms(2) by (simp add: accounts_with_op)
  next
    case (op_ended i req p en S' sent)
    then obtain c where c: "same_bridge (si_state w) S'"
        "keeps_inflight ((si_state w)\<lparr>st_metrics := close_operation c (po_guard p) (st_metrics (si_state w))\<rparr>) S'"
      using api_finish_inflight [OF op_ended(5)] by blast
    have "map (po_guard \<circ> snd) (si_ops w) ! i = po_guard p" using op_ended(2,3) by simp
    moreover have "i < length (map (po_guard \<circ> snd) (si_ops w))" using op_ended(2) by simp
    ultimately have "operations_run S0 (remove_at i (si_ops w)) S'"
      using run_close [OF ops [unfolded operations_run_def], of i c] c(2)
      by (auto simp: operations_run_def keeps_inflight_def remove_at_def take_map drop_map intro: run_other)
    moreover have "rt_reach ?D S0 (subscriptions_of (w\<lparr>si_state := S'\<rparr>))"
      using rt_next [OF rt rt_other, of S'] c close_operation_realtime
      by (simp add: subscriptions_of_def keeps_inflight_def)
    ultimately show ?thesis by (simp add: op_ended(1) logged_def site_accounts_def subscriptions_of_def)
  next
    case (setup_refused req P sq resp S')
    then show ?thesis
      using rt_next [OF rt rt_denied, of "in_clock req" sq resp S'] operations_other [OF ops]
        subscribe_begin_ops [OF setup_refused(4)]
      by (simp add: arrived_def logged_def site_accounts_def subscriptions_of_def)
  next
    case (setup_panic req P sq S')
    then show ?thesis
      using rt_next [OF rt rt_panic, of "in_clock req" sq S'] operations_other [OF ops]
        subscribe_begin_ops [OF setup_panic(4)]
      by (simp add: arrived_def logged_def site_accounts_def subscriptions_of_def)
  next
    case (setup_begun req P sq p S')
    then show ?thesis
      using rt_next [OF rt rt_pending, of "in_clock req" sq p S'] operations_other [OF ops]
        subscribe_begin_ops [OF setup_begun(4)]
      by (simp add: arrived_def site_accounts_def subscriptions_of_def)
  next
    case (setup_ended i req p ended channels resp stream S')
    have f: "i < length (rw_pending (subscriptions_of w))"
        "subscribe_finish (rw_pending (subscriptions_of w) ! i) ended (rw_state (subscriptions_of w)) = (resp, stream, S')"
      using setup_ended(2,3,5) by (simp_all add: subscriptions_of_def)
    have "operations_run S0 (si_ops w) S'"
      using operations_other [OF ops] subscribe_finish_ops [OF setup_ended(5)] by blast
    moreover have "rt_reach ?D S0 \<lparr>rw_state = S', rw_pending = map snd (remove_at i (si_setups w)),
        rw_streams = si_streams w @ (case stream of None \<Rightarrow> [] | Some s \<Rightarrow> [s])\<rparr>"
    proof (cases stream)
      case None
      from rt_next [OF rt rt_failed [OF f [unfolded None]]] show ?thesis
        by (simp add: None subscriptions_of_def map_remove_at)
    next
      case (Some s)
      from rt_next [OF rt rt_opened [OF f [unfolded Some]]] show ?thesis
        by (simp add: Some subscriptions_of_def map_remove_at)
    qed
    ultimately show ?thesis by (simp add: setup_ended(1) logged_def site_accounts_def subscriptions_of_def)
  next
    case (direct req ef)
    have "keeps_inflight (si_state w) (ef_state ef)"
      using direct(2,3,5) keeps_metrics_handler
      by (cases "request_call X limit req") (auto simp: respond_def keeps_refl split: prod.splits)
    then show ?thesis using accounts_keeps [OF assms(2)] by (simp add: direct(1) accounts_arrived)
  next
    case (announces i es s)
    then show ?thesis
      using rt_next [OF rt rt_announce, of i es s] ops by (simp add: site_accounts_def subscriptions_of_def)
  next
    case (streams i stim es s)
    then show ?thesis
      using rt_next [OF rt rt_stream, of i stim es s] ops by (simp add: site_accounts_def subscriptions_of_def)
  next
    case (stream_ends i)
    then show ?thesis
      using rt_next [OF rt rt_dropped, of i] operations_other [OF ops] stream_drop_ops
      by (simp add: site_accounts_def subscriptions_of_def)
  qed
qed

lemma site_reach_accounts: "site_reach X limit S0 w \<Longrightarrow> site_accounts X S0 w"
proof (induction rule: site_reach.induct)
  case site_start
  then show ?case
    by (simp add: site_accounts_def subscriptions_of_def site_init_def operations_run_def rt_start run_start)
qed (rule site_accounts_step)

text \<open>An entry of the log is what the whole handler answers and sends in some state of the same bridge.\<close>

lemma site_log_story:
  assumes "site_reach X limit S0 w" and "lockout_at 0 d S0" and "(req, a, sent) \<in> set (si_log w)"
  obtains S where "same_config S0 S" and "si_time w + d < INSTANT_LIMIT \<Longrightarrow> lockout_ready (in_clock req) S"
    and "si_time w + d < INSTANT_LIMIT \<Longrightarrow> lockout_ready (in_clock req) S0" and "a = ef_answer (respond X limit req S)"
    and "sent = ef_sent (respond X limit req S)" and "permit_story X limit (saturated X limit S0 w) req S"
proof -
  obtain S where S: "began_in S0 d (si_time w) req S" "a = ef_answer (respond X limit req S)"
      "sent = ef_sent (respond X limit req S)" "permit_story X limit (saturated X limit S0 w) req S"
    using site_log_inv [OF assms(1,2)] assms(3) by (auto simp: log_inv_def entry_answered_def)
  then show thesis
    using assms(2) by (intro that [of S]) (auto simp: began_in_def intro!: lockout_at_ready [of 0 d])
qed

lemma site_log_entry:
  assumes "site_reach X limit S0 w" and "lockout_at 0 d S0" and "(req, a, sent) \<in> set (si_log w)"
  obtains S where "same_config S0 S" and "si_time w + d < INSTANT_LIMIT \<Longrightarrow> lockout_ready (in_clock req) S"
    and "si_time w + d < INSTANT_LIMIT \<Longrightarrow> lockout_ready (in_clock req) S0" and "a = ef_answer (respond X limit req S)" and "sent = ef_sent (respond X limit req S)"
  using site_log_story [OF assms] by metis

section \<open>With and without the permit\<close>

text \<open>A request whose wait for the permit completes with the permit, everything else being as it is.\<close>

definition granted :: "incoming \<Rightarrow> incoming" where
  "granted req = req\<lparr>in_command := (in_command req)\<lparr>on_acquire := Completes Permit\<rparr>,
     in_pipeline := (in_pipeline req)\<lparr>on_acquire := Completes Permit\<rparr>,
     in_transaction := (in_transaction req)\<lparr>on_acquire := Completes Permit\<rparr>\<rparr>"

fun granted_call :: "api_call \<Rightarrow> api_call" where
  "granted_call (PostRoot W req) = PostRoot (W\<lparr>on_acquire := Completes Permit\<rparr>) req"
| "granted_call (PostPipeline W req) = PostPipeline (W\<lparr>on_acquire := Completes Permit\<rparr>) req"
| "granted_call (PostMultiExec W req) = PostMultiExec (W\<lparr>on_acquire := Completes Permit\<rparr>) req"

fun granted_work :: "work \<Rightarrow> work" where
  "granted_work (RunCommand c W) = RunCommand c (W\<lparr>on_acquire := Completes Permit\<rparr>)"
| "granted_work (RunPipeline cs W) = RunPipeline cs (W\<lparr>on_acquire := Completes Permit\<rparr>)"
| "granted_work (RunTransaction cs W) = RunTransaction cs (W\<lparr>on_acquire := Completes Permit\<rparr>)"

text \<open>How the wait for the permit of a request to the command routes ends.\<close>

fun call_acquire :: "api_call \<Rightarrow> acquired wait" where
  "call_acquire (PostRoot W req) = on_acquire W"
| "call_acquire (PostPipeline W req) = on_acquire W"
| "call_acquire (PostMultiExec W req) = on_acquire W"

lemma granted_fields [simp]:
  "in_clock (granted req) = in_clock req" "in_headers (granted req) = in_headers req"
  "in_method (granted req) = in_method req" "in_path (granted req) = in_path req"
  by (simp_all add: granted_def)

lemma request_call_granted:
  "request_call X limit req = ApiCall c \<Longrightarrow> request_call X limit (granted req) = ApiCall (granted_call c)"
  by (auto simp: request_call_def granted_def split: dispatched.splits sum.splits elim!: endpoint_call.elims)

lemma api_begin_granted:
  "api_begin E clk (granted_call c) S =
     apfst (map_sum id (\<lambda>p. p\<lparr>po_work := granted_work (po_work p)\<rparr>)) (api_begin E clk c S)"
  by (cases c) (auto simp: to_pending_def split: prod.splits sum.splits)

lemma api_begin_acquire: "api_begin E clk c S = (Ok p, S') \<Longrightarrow> work_acquire (po_work p) = call_acquire c"
  by (cases c) (auto simp: to_pending_def split: prod.splits sum.splits)

lemma granted_same: "work_acquire k = Completes Permit \<Longrightarrow> granted_work k = k"
proof (cases k)
  case (RunCommand c W)
  then show "work_acquire k = Completes Permit \<Longrightarrow> granted_work k = k" by (cases W) simp
next
  case (RunPipeline cs W)
  then show "work_acquire k = Completes Permit \<Longrightarrow> granted_work k = k" by (cases W) simp
next
  case (RunTransaction cs W)
  then show "work_acquire k = Completes Permit \<Longrightarrow> granted_work k = k" by (cases W) simp
qed

lemma route_begin_route:
  "route_begin E clk n k parse req S = (Ok (route, cs, g), T) \<Longrightarrow>
   route_for (su_digests E) S (rq_headers req) = Some route"
  by (auto simp: route_begin_def Let_def split: prod.splits outcome.splits sum.splits dest!: command_auth_Ok(1))

lemma api_begin_route:
  "api_begin E clk c S = (Ok p, S') \<Longrightarrow> route_for (su_digests E) S (call_headers c) = Some (po_route p)"
  by (cases c) (auto simp: to_pending_def split: prod.splits sum.splits dest: route_begin_route)

text \<open>An operation that gets no permit: what it answers and that it sends nothing.\<close>

fun no_permit_answer :: "acquired wait \<Rightarrow> nat option" where
  "no_permit_answer (Completes AcquireTimeout) = Some 429"
| "no_permit_answer Elapses = Some 504"
| "no_permit_answer _ = None"

lemma route_finish_no_permit:
  assumes "route_finish E n ser h route (operation_end g msg W w f M) S = (en, S', sent)"
    and "on_acquire W \<in> {Completes AcquireTimeout, Elapses, Abandoned}"
  shows "sent = [] \<and> (case no_permit_answer (on_acquire W) of
    None \<Rightarrow> en = Dropped_request | Some code \<Rightarrow> \<exists>resp. en = Answered resp \<and> resp_status resp = code)"
  using assms
  by (auto simp: route_finish_def operation_end_def operation_future_def Let_def api_error_defs)

lemma api_finish_no_permit:
  assumes "api_finish E p S = (en, S', sent)"
    and "work_acquire (po_work p) \<in> {Completes AcquireTimeout, Elapses, Abandoned}"
  shows "sent = [] \<and> (case no_permit_answer (work_acquire (po_work p)) of
    None \<Rightarrow> en = Dropped_request | Some code \<Rightarrow> \<exists>resp. en = Answered resp \<and> resp_status resp = code)"
  using assms unfolding api_finish_def by (cases "po_work p") (auto dest!: route_finish_no_permit)

text \<open>
  The answer with the permit, or the one without it: a refusal does not depend on the permit, and behind it either the
  permit was granted or its wait ended the operation.
\<close>

lemma respond_granted:
  assumes "request_call X limit req = ApiCall c"
    and "permit_story X limit Q req S"
  shows "ef_answer (respond X limit req S) = ef_answer (respond X limit (granted req) S) \<and>
      ef_sent (respond X limit req S) = ef_sent (respond X limit (granted req) S) \<or>
    call_acquire c = Abandoned \<and> ef_answer (respond X limit req S) = NoReply \<and> ef_sent (respond X limit req S) = [] \<or>
    (\<exists>code resp route. no_permit_answer (call_acquire c) = Some code \<and> ef_answer (respond X limit req S) = Reply resp \<and>
      resp_status resp = code \<and> ef_sent (respond X limit req S) = [] \<and>
      route_for (su_digests (wb_surroundings X)) S (call_headers c) = Some route \<and> Q req (route_target route))"
proof -
  let ?E = "wb_surroundings X" and ?clk = "in_clock req"
  note g = request_call_granted [OF assms(1)]
  obtain r S1 where b: "api_begin ?E ?clk c S = (r, S1)" by fastforce
  show ?thesis
  proof (cases r)
    case (Inl en)
    then have "api_begin ?E ?clk (granted_call c) S = (Err en, S1)" using b by (simp add: api_begin_granted)
    then show ?thesis using b Inl assms(1) g by (simp add: respond_def handle_api_halves)
  next
    case (Inr p)
    obtain en S2 sent where f: "api_finish ?E p S1 = (en, S2, sent)" by (metis prod_cases3)
    have q: "work_acquire (po_work p) = call_acquire c" using api_begin_acquire b Inr by blast
    have r: "ef_answer (respond X limit req S) = ending_answer en" "ef_sent (respond X limit req S) = map (map_prod id ToRedis) sent"
      using b Inr f assms(1) by (simp_all add: respond_def handle_api_halves)
    have story: "call_acquire c \<in> {Completes Permit, Abandoned} \<or>
        call_acquire c \<in> {Completes AcquireTimeout, Elapses} \<and> Q req (po_target p)"
      using assms b Inr q by (auto simp: permit_story_def)
    show ?thesis
    proof (cases "call_acquire c = Completes Permit")
      case True
      then have "api_begin ?E ?clk (granted_call c) S = (Ok p, S1)"
        using b Inr granted_same [of "po_work p"] q by (simp add: api_begin_granted)
      then show ?thesis using b Inr assms(1) g by (simp add: respond_def handle_api_halves)
    next
      case False
      then have "sent = [] \<and> (case no_permit_answer (call_acquire c) of
          None \<Rightarrow> en = Dropped_request | Some code \<Rightarrow> \<exists>resp. en = Answered resp \<and> resp_status resp = code)"
        using api_finish_no_permit [OF f] story q by auto
      then show ?thesis
        using story False r api_begin_route [of ?E ?clk c S p S1] b Inr by (auto simp: po_target_def)
    qed
  qed
qed

lemma request_call_headers: "request_call X limit req = ApiCall c \<Longrightarrow> call_headers c = in_headers req"
  by (auto simp: request_call_def split: dispatched.splits sum.splits elim!: endpoint_call.elims)

lemma command_call_request: "request_call X limit req = ApiCall c \<Longrightarrow> is_command_request X (granted req)"
  by (auto simp: request_call_def split: dispatched.splits sum.splits elim!: endpoint_call.elims)

text \<open>A request on a bridge that does nothing else: it begins, gets its permit, gives it back and is answered.\<close>

lemma serve_alone:
  assumes "request_call X limit req = ApiCall c" and "on_time req (site_init S)"
    and "api_begin (wb_surroundings X) (in_clock req) c S = (Ok p, S1)" and "call_acquire c = Completes Permit"
    and "0 < target_permits S (po_target p)" and "api_finish (wb_surroundings X) p S1 = (en, S2, sent)"
  obtains w where "site_reach X limit S w" and "si_time w = later (in_clock req)"
    and "si_log w = [(req, ending_answer en, map (map_prod id ToRedis) sent)]"
proof -
  let ?w = "site_init S" and ?r = "p\<lparr>po_phase := Running\<rparr>" and ?d = "p\<lparr>po_phase := Released\<rparr>"
  have "as_begun p = p" using api_begin_fresh [OF assms(3)] by blast
  then have q: "po_phase p = Queued" by (metis as_begun_def pending_op.select_convs(5) pending_op.surjective pending_op.update_convs(5,6))
  have k: "work_acquire (po_work p) = Completes Permit" using api_begin_acquire [OF assms(3)] assms(4) by simp
  define w1 where "w1 = (arrived req S1 ?w)\<lparr>si_ops := si_ops ?w @ [(req, p)]\<rparr>"
  define w2 where "w2 = (with_op 0 ?r w1)\<lparr>si_permits := (si_permits w1)(po_target p := si_permits w1 (po_target p) - 1)\<rparr>"
  define w3 where "w3 = (with_op 0 ?d w2)\<lparr>si_permits := (si_permits w2)(po_target ?r := si_permits w2 (po_target ?r) + 1)\<rparr>"
  have 1: "site_step X limit ?w w1"
    unfolding w1_def by (rule op_begun [OF assms(1,2)]) (use assms(3) in \<open>simp add: site_init_def\<close>)
  have 2: "site_step X limit w1 w2"
    unfolding w2_def
    by (rule op_acquires [where req = req]) (use q k assms(5) in \<open>simp_all add: w1_def site_init_def arrived_def\<close>)
  have "site_step X limit w2 ((with_op 0 (?r\<lparr>po_phase := Released\<rparr>) w2)\<lparr>si_permits :=
      (si_permits w2)(po_target ?r := si_permits w2 (po_target ?r) + 1)\<rparr>)"
    by (rule op_releases [where req = req]) (simp_all add: w2_def w1_def with_op_def site_init_def arrived_def)
  then have 3: "site_step X limit w2 w3" by (simp add: w3_def)
  have ops: "si_ops w3 = [(req, ?d)]" "si_state w3 = S1" "si_log w3 = []" "si_time w3 = later (in_clock req)"
    by (simp_all add: w3_def w2_def w1_def with_op_def site_init_def arrived_def)
  have "api_finish (wb_surroundings X) ?d (si_state w3) = (en, S2, sent)"
    using assms(6) ops(2) by (simp add: api_finish_def)
  then have 4: "site_step X limit w3 (logged (req, ending_answer en, map (map_prod id ToRedis) sent)
      (w3\<lparr>si_state := S2, si_ops := remove_at 0 (si_ops w3)\<rparr>))"
    by (intro op_ended [where req = req and p = ?d]) (use ops k in \<open>simp_all add: permit_fits_def\<close>)
  show thesis
    by (rule that [OF site_next [OF site_next [OF site_next [OF site_next [OF site_start 1] 2] 3] 4]])
       (simp_all add: logged_def ops)
qed

lemma route_finish_target:
  "route_finish E n ser h route ended S = (en, S', sent) \<Longrightarrow> (i, m) \<in> set sent \<Longrightarrow> i = route_target route"
  by (auto simp: route_finish_def Let_def split: prod.splits option.splits sum.splits)

lemma api_finish_target: "api_finish E p S = (en, S', sent) \<Longrightarrow> (i, m) \<in> set sent \<Longrightarrow> i = po_target p"
  unfolding api_finish_def po_target_def by (cases "po_work p") (auto dest: route_finish_target)

section \<open>Properties\<close>

text \<open>C11: The load of the bridge is accounted for while requests overlap. However commands, batches, subscriptions,
  disconnects and metrics requests interleave, and whichever way each of them ends: the free permits of the
  realtime limiter, the subscriptions being set up and the open streams add up to the configured limit; and
  the in-flight gauges have grown by exactly the operations that are waited for, per target and kind,
  and by the open streams, per target.\<close>
theorem load_accounted:
  assumes "site_reach X limit S0 w"
  shows "st_realtime_permits (si_state w) + length (si_setups w) + length (si_streams w) = st_realtime_permits S0 \<and>
    gauge_value (st_metrics (si_state w)) redis_operations_inflight [t, k] =
      gauge_value (st_metrics S0) redis_operations_inflight [t, k] +
        int (length (filter (\<lambda>(_, p). operation_labels (po_guard p) = [t, k]) (si_ops w))) \<and>
    gauge_value (st_metrics (si_state w)) realtime_inflight [t] =
      gauge_value (st_metrics S0) realtime_inflight [t] +
        int (length (filter (\<lambda>s. cg_target (rs_guard s) = t) (si_streams w)))"
proof -
  note A = site_reach_accounts [OF assms, unfolded site_accounts_def]
  have rt: "rt_inv S0 (subscriptions_of w)" using A rt_reach_inv by blast
  then have "gauge_value (st_metrics (si_state w)) realtime_inflight [t] =
      gauge_value (st_metrics S0) realtime_inflight [t] +
        int (length (filter (\<lambda>g. [cg_target g] = [t]) (map rs_guard (si_streams w))))"
    unfolding rt_inv_def subscriptions_of_def by (intro subscriptions.gauge_counts_alive) simp
  moreover have "gauge_value (st_metrics (si_state w)) redis_operations_inflight [t, k] =
      gauge_value (st_metrics S0) redis_operations_inflight [t, k] +
        int (length (filter (\<lambda>g. operation_labels g = [t, k]) (map (po_guard \<circ> snd) (si_ops w))))"
    using A unfolding operations_run_def by (intro operations.gauge_counts_alive) simp
  ultimately show ?thesis
    using rt by (simp add: rt_inv_def subscriptions_of_def filter_map comp_def case_prod_unfold)
qed

text \<open>A subscription being set up on the bridge of \<open>Realtime\<close>.\<close>

definition sample_subscriber :: incoming where
  "sample_subscriber = \<lparr>in_clock = \<lparr>now = 1, later = 1\<rparr>, in_method = POST, in_path = ''/subscribe/news'',
     in_peer = ipv4 1 2 3 4, in_headers = sample_headers ''secret'', in_body = [],
     in_command = sample_weather Okay, in_pipeline = sample_weather [], in_transaction = sample_weather [],
     in_pubsub = sample_pubsub\<rparr>"

definition sample_site_web :: web where
  "sample_site_web = \<lparr>wb_matcher = example_matcher,
     wb_extraction = \<lparr>ex_command = (\<lambda>_ _ _. Ok []), ex_commands = (\<lambda>_ _ _. Err ()), ex_channel = Ok\<rparr>,
     wb_surroundings = sample_surroundings\<rparr>"

theorem load_accounted_witness:
  "\<exists>w. site_reach sample_site_web 16 sample_realtime w \<and> length (si_setups w) = 1 \<and>
     st_realtime_permits (si_state w) = 0"
proof -
  have call: "request_call sample_site_web 16 sample_subscriber = SubscribeCall sample_pubsub sample_subscribe"
    by (simp add: request_call_def sample_site_web_def sample_subscriber_def sample_subscribe_def route_defs
        example_matcher_def)
  obtain p S' where "subscribe_begin sample_digests \<lparr>now = 1, later = 1\<rparr> sample_subscribe sample_realtime = (Done (Ok p), S')"
    using sample_begins by blast
  then have b: "subscribe_begin (su_digests (wb_surroundings sample_site_web)) (in_clock sample_subscriber) sample_subscribe
      (si_state (site_init sample_realtime)) = (Done (Ok p), S')"
    by (simp add: sample_site_web_def sample_surroundings_def sample_subscriber_def site_init_def)
  have "on_time sample_subscriber (site_init sample_realtime)"
    by (simp add: on_time_def site_init_def sample_subscriber_def)
  from site_next [OF site_start setup_begun [OF call this b]]
  have r: "site_reach sample_site_web 16 sample_realtime
      ((arrived sample_subscriber S' (site_init sample_realtime))\<lparr>si_setups := [(sample_subscriber, p)]\<rparr>)"
    by (simp add: site_init_def)
  show ?thesis
    using load_accounted [OF r] r
    by (intro exI [of _ "(arrived sample_subscriber S' (site_init sample_realtime))\<lparr>si_setups := [(sample_subscriber, p)]\<rparr>"])
       (simp add: arrived_def site_init_def sample_realtime_def sample_state_def)
qed

end
