(* ===== verification/Guessing.thy ===== *)
theory Guessing
  imports Auth
begin

text \<open>
  Guessing tokens (\<^verbatim>\<open>src/auth/request.rs\<close> with \<^verbatim>\<open>src/auth/lockout.rs\<close>). What a run of refused requests of one
  address is answered with while requests of others come between them: the specification of the failures
  of an address, the interface \<open>throttled\<close> of whatever answers requests before a table of failures, and its
  first interpretation, the three kinds of authentication.
\<close>

section \<open>Runs of requests\<close>

text \<open>
  What the failures of one address mean while other requests come between them: its own answers follow from
  the instants of its own failures.
\<close>

fun spec_run :: "nat \<Rightarrow> duration \<Rightarrow> duration \<Rightarrow> auth_status \<Rightarrow> instant list \<Rightarrow> auth_failure list" where
  "spec_run mf w d st [] = []"
| "spec_run mf w d st (t # ts) =
     (let (f, st') = spec_failure mf d t (aged w t st) in f # spec_run mf w d st' ts)"

text \<open>The address is on record, so has its entry in the table, whenever it fails again.\<close>

fun on_record :: "nat \<Rightarrow> duration \<Rightarrow> duration \<Rightarrow> auth_status \<Rightarrow> instant list \<Rightarrow> bool" where
  "on_record mf w d st [] = True"
| "on_record mf w d st (t # ts) =
     (aged w t st \<noteq> Fresh \<and> on_record mf w d (snd (spec_failure mf d t (aged w t st))) ts)"

lemma aged_aged: "t \<le> t' \<Longrightarrow> aged w t' (aged w t st) = aged w t' st"
  by (cases st) auto

lemma locked_run:
  "\<forall>t \<in> set ts. t < u \<Longrightarrow>
   spec_run mf w d (LockedUntil u) ts = replicate (length ts) AlreadyLocked \<and> on_record mf w d (LockedUntil u) ts"
  by (induction ts) auto

definition nth_failure :: "nat \<Rightarrow> nat \<Rightarrow> auth_failure" where
  "nth_failure mf i = (if i + 1 < mf then Tracked else if i + 1 = mf then Locked else AlreadyLocked)"

text \<open>
  The failures of an address from its \<open>k\<close>-th on, the limit being reached within the window of the first and all
  others before the lockout has run out.
\<close>

definition in_window :: "nat \<Rightarrow> duration \<Rightarrow> duration \<Rightarrow> instant \<Rightarrow> instant list \<Rightarrow> bool" where
  "in_window mf w d ws ts \<longleftrightarrow>
     (\<forall>i < length ts. if i < mf then ts ! i < ws + w else ts ! i < ts ! (mf - 1) + d)"

lemma in_window_Cons:
  assumes "in_window (Suc mf) w d ws (t # ts)" and "0 < mf"
  shows "t < ws + w" and "in_window mf w d ws ts"
proof -
  show "t < ws + w" using assms(1) by (force simp: in_window_def)
  show "in_window mf w d ws ts"
    unfolding in_window_def
  proof (intro allI impI)
    fix i
    assume "i < length ts"
    then show "if i < mf then ts ! i < ws + w else ts ! i < ts ! (mf - 1) + d"
      using assms(1) [unfolded in_window_def, rule_format, of "Suc i"] assms(2) by (auto split: if_splits)
  qed
qed

lemma in_window_lock:
  assumes "in_window 1 w d ws (t # ts)"
  shows "t < ws + w" and "\<forall>u \<in> set ts. u < t + d"
proof -
  show "t < ws + w" using assms by (force simp: in_window_def)
  show "\<forall>u \<in> set ts. u < t + d"
  proof
    fix u
    assume "u \<in> set ts"
    then obtain i where "i < length ts" "u = ts ! i" by (metis in_set_conv_nth)
    then show "u < t + d"
      using assms [unfolded in_window_def, rule_format, of "Suc i"] by simp
  qed
qed

lemma upt_map_Suc: "map f [0..<Suc n] = f 0 # map (\<lambda>i. f (Suc i)) [0..<n]"
  by (induction n) simp_all

lemma locked_nth: "map (nth_failure 1) [0..<Suc n] = Locked # replicate n AlreadyLocked"
  by (subst upt_map_Suc) (simp add: nth_failure_def map_replicate_const)

lemma counting_spec_run:
  assumes "0 < k" and "0 < mf" and "0 < w" and "in_window mf w d ws ts"
  shows "spec_run (k + mf) w d (Counting k ws) ts = map (nth_failure mf) [0..<length ts] \<and>
    on_record (k + mf) w d (Counting k ws) ts"
  using assms
proof (induction ts arbitrary: k mf)
  case Nil
  then show ?case by simp
next
  case (Cons t ts)
  show ?case
  proof (cases "mf = 1")
    case True
    have win: "t < ws + w" "\<forall>u \<in> set ts. u < t + d"
      using in_window_lock [of w d ws t ts] Cons.prems(4) True by auto
    have "aged w t (Counting k ws) = Counting k ws" using win(1) Cons.prems(3) by auto
    then show ?thesis
      using locked_run [OF win(2), of "Suc k" w d] True locked_nth [of "length ts"] by (simp del: upt_Suc)
  next
    case False
    then obtain n where n: "mf = Suc n" "0 < n" using Cons.prems(2) by (cases mf) auto
    note win = in_window_Cons [OF Cons.prems(4) [unfolded n(1)] n(2)]
    have st: "aged w t (Counting k ws) = Counting k ws" using win(1) Cons.prems(3) by auto
    have IH: "spec_run (Suc k + n) w d (Counting (Suc k) ws) ts = map (nth_failure n) [0..<length ts] \<and>
        on_record (Suc k + n) w d (Counting (Suc k) ws) ts"
      by (rule Cons.IH [OF _ n(2) Cons.prems(3) win(2)]) simp
    have "map (nth_failure mf) [0..<length (t # ts)] = Tracked # map (nth_failure n) [0..<length ts]"
      unfolding list.size add_Suc_right add_0_right
      by (subst upt_map_Suc) (use n in \<open>auto simp: nth_failure_def\<close>)
    then show ?thesis using IH st n by (simp del: upt_Suc aged.simps)
  qed
qed

lemma fresh_spec_run:
  assumes "0 < mf" and "in_window mf w d t (t # ts)"
  shows "spec_run mf w d Fresh (t # ts) = map (nth_failure mf) [0..<length (t # ts)] \<and>
    on_record mf w d (snd (spec_failure mf d t Fresh)) ts"
proof (cases "mf = 1")
  case True
  then show ?thesis
    using locked_run [of ts "t + d" 1 w d] in_window_lock [of w d t t ts] assms(2) locked_nth [of "length ts"]
    by (simp del: upt_Suc)
next
  case False
  then obtain n where n: "mf = Suc n" "0 < n" using assms(1) by (cases mf) auto
  have "map (nth_failure mf) [0..<length (t # ts)] = Tracked # map (nth_failure n) [0..<length ts]"
    unfolding list.size add_Suc_right add_0_right
    by (subst upt_map_Suc) (use n in \<open>auto simp: nth_failure_def\<close>)
  then show ?thesis
    using counting_spec_run [OF zero_less_one n(2) _ in_window_Cons(2) [OF assms(2) [unfolded n(1)] n(2)]]
      in_window_Cons(1) [OF assms(2) [unfolded n(1)] n(2)] n
    by (simp del: upt_Suc)
qed

text \<open>A table that can take an operation of a clock, as \<open>lockout_ready\<close> says of the bridge's.\<close>

definition in_order :: "clock \<Rightarrow> auth_lockout \<Rightarrow> bool" where
  "in_order clk L \<longleftrightarrow> lockout_inv L (now clk) \<and> now clk \<le> later clk \<and> now clk + lockout_duration L < INSTANT_LIMIT"

lemma lockout_ready_in_order: "lockout_ready clk S = in_order clk (st_auth_lockout S)"
  by (simp add: lockout_ready_def in_order_def)

text \<open>A run of requests with its answers; each request begins when the one before has its answer.\<close>

fun run_all :: "('c \<Rightarrow> 's \<Rightarrow> 'a \<times> 's) \<Rightarrow> 'c list \<Rightarrow> 's \<Rightarrow> ('c \<times> 'a) list \<times> 's" where
  "run_all step [] S = ([], S)"
| "run_all step (c # cs) S =
     (let (a, S1) = step c S; (answers, S2) = run_all step cs S1 in ((c, a) # answers, S2))"

definition answers_to :: "('c \<Rightarrow> bool) \<Rightarrow> ('c \<times> 'a) list \<Rightarrow> 'a list" where
  "answers_to own answers = map snd (filter (\<lambda>(c, _). own c) answers)"

lemma run_all_requests: "map fst (fst (run_all step cs S)) = cs"
  by (induction cs arbitrary: S) (simp_all add: Let_def split_beta)

lemma answers_to_cong:
  assumes "\<And>c. c \<in> set (map fst answers) \<Longrightarrow> own c = own' c"
  shows "answers_to own answers = answers_to own' answers"
proof -
  have "filter (\<lambda>(c, _). own c) answers = filter (\<lambda>(c, _). own' c) answers"
    by (rule filter_cong [OF refl]) (use assms in force)
  then show ?thesis by (simp add: answers_to_def)
qed

fun chronological :: "('c \<Rightarrow> clock) \<Rightarrow> instant \<Rightarrow> 'c list \<Rightarrow> bool" where
  "chronological clk t [] = True"
| "chronological clk t (c # cs) \<longleftrightarrow>
     t \<le> now (clk c) \<and> now (clk c) \<le> later (clk c) \<and> chronological clk (later (clk c)) cs"

definition instants :: "('c \<Rightarrow> clock) \<Rightarrow> ('c \<Rightarrow> bool) \<Rightarrow> 'c list \<Rightarrow> instant list" where
  "instants clk own cs = map (\<lambda>c. now (clk c)) (filter own cs)"

text \<open>
  The contract of whatever answers requests before a table of failures: a refused request records one failure of the
  address it is charged to, takes a snapshot, and answers by the failure; no request changes the status of
  an address it is not charged to; the table stays in order, and who is charged and refused does not change.
\<close>

locale throttled =
  fixes step :: "'c \<Rightarrow> 's \<Rightarrow> 'a \<times> 's"
    and clk :: "'c \<Rightarrow> clock"
    and table :: "'s \<Rightarrow> auth_lockout"
    and charged :: "'s \<Rightarrow> 'c \<Rightarrow> ip_addr option"
    and refused :: "'s \<Rightarrow> 'c \<Rightarrow> bool"
    and says :: "'a \<Rightarrow> 'v"
    and code :: "auth_failure \<Rightarrow> 'v"
  assumes refused_step: "in_order (clk c) (table S) \<Longrightarrow> refused S c \<Longrightarrow> charged S c = Some ip \<Longrightarrow>
        step c S = (a, S') \<Longrightarrow>
        \<exists>f L. record_failure_at (table S) ip (now (clk c)) = (Done f, L) \<and>
          table S' = snd (snapshot_at L (later (clk c))) \<and> says a = code f"
    and others_step: "in_order (clk c) (table S) \<Longrightarrow> charged S c \<noteq> Some ip \<Longrightarrow> step c S = (a, S') \<Longrightarrow>
        status (table S') (later (clk c)) ip = status (table S) (later (clk c)) ip"
    and kept_step: "in_order (clk c) (table S) \<Longrightarrow> step c S = (a, S') \<Longrightarrow>
        lockout_inv (table S') (later (clk c)) \<and> same_limits (table S) (table S')"
    and fixed_step: "in_order (clk c) (table S) \<Longrightarrow> step c S = (a, S') \<Longrightarrow>
        charged S' = charged S \<and> refused S' = refused S"
begin

lemma room_step:
  assumes "in_order (clk c) (table S)" and "limits_ok (table S) (now (clk c))" and "refused S c"
    and "charged S c = Some ip" and "step c S = (a, S')" and "room (table S) ip (now (clk c))"
    and "spec_failure (max_failures (table S)) (lockout_duration (table S)) (now (clk c))
      (status (table S) (now (clk c)) ip) = (f, st)"
  shows "says a = code f" and "status (table S') (later (clk c)) ip = aged (failure_window (table S)) (later (clk c)) st"
proof -
  let ?n = "now (clk c)" and ?l = "later (clk c)"
  have i: "lockout_inv (table S) ?n" "?n \<le> ?l" using assms(1) by (auto simp: in_order_def)
  obtain r L where r: "record_failure_at (table S) ip ?n = (Done r, L)" "(r, status L ?n ip) = (f, st)"
      "same_limits (table S) L"
    using record_failure_refines [OF i(1) order_refl assms(2,6)] assms(7) by metis
  moreover have "table S' = snd (snapshot_at L ?l)" "says a = code r"
    using refused_step [OF assms(1,3,4,5)] r(1) by auto
  moreover have "lockout_inv L ?n" using record_failure_inv [OF i(1) order_refl r(1)] .
  ultimately show "says a = code f" "status (table S') ?l ip = aged (failure_window (table S)) ?l st"
    using snapshot_status status_aged [OF i(2), of L ip] by (simp_all add: same_limits_def)
qed

text \<open>An address without room in the table is refused, and stays off the record.\<close>

lemma no_room_step:
  assumes "in_order (clk c) (table S)" and "is_enabled (table S)" and "refused S c"
    and "charged S c = Some ip" and "step c S = (a, S')" and "\<not> room (table S) ip (now (clk c))"
  shows "says a = code EntryLimitReached" and "status (table S') (later (clk c)) ip = Fresh"
proof -
  let ?n = "now (clk c)" and ?l = "later (clk c)" and ?L = "(table S)\<lparr>entries := cleaned (table S) ip (now (clk c))\<rparr>"
  have i: "lockout_inv (table S) ?n" using assms(1) by (auto simp: in_order_def)
  have r: "record_failure_at (table S) ip ?n = (Done EntryLimitReached, ?L)"
    by (rule record_failure_no_room [OF assms(2) i assms(6)])
  then have "table S' = snd (snapshot_at ?L ?l)" "says a = code EntryLimitReached"
    using refused_step [OF assms(1,3,4,5)] by auto
  moreover have "status ?L ?l ip = Fresh"
    using assms(6) cleaned_get_self [OF i, of ip ?n] by (simp add: status_def room_def)
  moreover have "lockout_inv ?L ?n" using record_failure_inv [OF i order_refl r] .
  ultimately show "says a = code EntryLimitReached" "status (table S') ?l ip = Fresh"
    using snapshot_status by simp_all
qed

lemma run_follows_spec:
  assumes "lockout_inv (table S) t" and "status (table S) t ip = aged w t st"
    and "max_failures (table S) = mf" "failure_window (table S) = w" "lockout_duration (table S) = d"
    and "0 < mf" "0 < w" "0 < d" and "chronological clk t cs" and "\<forall>c \<in> set cs. later (clk c) + d < INSTANT_LIMIT"
    and "\<forall>c \<in> set cs. charged S c = Some ip \<longrightarrow> refused S c"
    and "on_record mf w d st (instants clk (\<lambda>c. charged S c = Some ip) cs)"
  shows "map says (answers_to (\<lambda>c. charged S c = Some ip) (fst (run_all step cs S))) =
    map code (spec_run mf w d st (instants clk (\<lambda>c. charged S c = Some ip) cs))"
  using assms
proof (induction cs arbitrary: S t st)
  case Nil
  then show ?case by (simp add: answers_to_def instants_def)
next
  case (Cons c cs)
  let ?n = "now (clk c)" and ?l = "later (clk c)" and ?own = "\<lambda>c. charged S c = Some ip"
  obtain a S1 where s: "step c S = (a, S1)" by fastforce
  have le: "t \<le> ?n" "?n \<le> ?l" using Cons.prems(9) by auto
  have o: "in_order (clk c) (table S)"
    using Cons.prems(1,5,10) le lockout_inv_mono [OF Cons.prems(1) le(1)] by (auto simp: in_order_def)
  have k: "lockout_inv (table S1) ?l" "same_limits (table S) (table S1)" "charged S1 = charged S" "refused S1 = refused S"
    using kept_step [OF o s] fixed_step [OF o s] by auto
  have st: "status (table S) u ip = aged w u st" if "t \<le> u" for u
    using status_aged [OF that, of "table S" ip] Cons.prems(2,4) aged_aged [OF that] by simp
  have IH: "map says (answers_to ?own (fst (run_all step cs S1))) = map code (spec_run mf w d st1 (instants clk ?own cs))"
    if "status (table S1) ?l ip = aged w ?l st1" "on_record mf w d st1 (instants clk ?own cs)" for st1
    using Cons.IH [OF k(1) that(1)] Cons.prems that(2) k by (simp add: same_limits_def)
  show ?case
  proof (cases "?own c")
    case True
    obtain f st1 where f: "spec_failure mf d ?n (aged w ?n st) = (f, st1)" by fastforce
    have nf: "aged w ?n st \<noteq> Fresh" and rec: "on_record mf w d st1 (instants clk ?own cs)"
      using Cons.prems(12) True f by (auto simp: instants_def)
    have "room (table S) ip ?n" using nf st [OF le(1)] by (auto simp: room_def status_def split: option.splits)
    moreover have "limits_ok (table S) ?n" using Cons.prems(3-8,10) le by (auto simp: limits_ok_def)
    ultimately have "says a = code f" "status (table S1) ?l ip = aged w ?l st1"
      using room_step [OF o _ _ True s] Cons.prems(3-5,11) True f st [OF le(1)] by auto
    then show ?thesis
      using IH [OF _ rec] s f True by (simp add: answers_to_def instants_def Let_def split_beta)
  next
    case False
    then have "status (table S1) ?l ip = aged w ?l st"
      using others_step [OF o False s] st [of ?l] le by simp
    then show ?thesis
      using IH [of st] s False Cons.prems(12) by (simp add: answers_to_def instants_def Let_def split_beta)
  qed
qed

text \<open>The answers to an address that is not on record, from its first refused request on.\<close>

lemma locked_out:
  assumes "lockout_inv (table S) (now (clk c))" and "status (table S) (now (clk c)) ip = Fresh"
    and "limits_ok (table S) (now (clk c))" and "room (table S) ip (now (clk c))"
    and "charged S c = Some ip" and "\<forall>c' \<in> set (c # cs). charged S c' = Some ip \<longrightarrow> refused S c'"
    and "chronological clk (now (clk c)) (c # cs)"
    and "\<forall>c' \<in> set (c # cs). later (clk c') + lockout_duration (table S) < INSTANT_LIMIT"
    and "in_window (max_failures (table S)) (failure_window (table S)) (lockout_duration (table S)) (now (clk c))
      (instants clk (\<lambda>c'. charged S c' = Some ip) (c # cs))"
  shows "map says (answers_to (\<lambda>c'. charged S c' = Some ip) (fst (run_all step (c # cs) S))) =
    map (\<lambda>i. code (nth_failure (max_failures (table S)) i))
      [0..<length (instants clk (\<lambda>c'. charged S c' = Some ip) (c # cs))]"
proof -
  let ?n = "now (clk c)" and ?l = "later (clk c)" and ?own = "\<lambda>c'. charged S c' = Some ip"
  let ?mf = "max_failures (table S)" and ?w = "failure_window (table S)" and ?d = "lockout_duration (table S)"
  obtain a S1 where s: "step c S = (a, S1)" by fastforce
  have pos: "0 < ?mf" "0 < ?w" "0 < ?d" using assms(3) by (auto simp: limits_ok_def)
  have le: "?n \<le> ?l" using assms(7) by simp
  have o: "in_order (clk c) (table S)" using assms(1,3) le by (simp add: in_order_def limits_ok_def)
  have k: "lockout_inv (table S1) ?l" "same_limits (table S) (table S1)" "charged S1 = charged S" "refused S1 = refused S"
    using kept_step [OF o s] fixed_step [OF o s] by auto
  have ts: "instants clk ?own (c # cs) = ?n # instants clk ?own cs" using assms(5) by (simp add: instants_def)
  note spec = fresh_spec_run [OF pos(1) assms(9) [unfolded ts]]
  obtain f st where f: "spec_failure ?mf ?d ?n Fresh = (f, st)" by fastforce
  have r: "says a = code f" "status (table S1) ?l ip = aged ?w ?l st"
    using room_step [OF o assms(3) _ assms(5) s assms(4)] assms(2,5,6) f by auto
  have "map says (answers_to ?own (fst (run_all step cs S1))) = map code (spec_run ?mf ?w ?d st (instants clk ?own cs))"
    using run_follows_spec [OF k(1) r(2), of ?mf ?d cs] k pos assms(6-8) spec f by (simp add: same_limits_def)
  then have "map says (answers_to ?own (fst (run_all step (c # cs) S))) =
      map code (spec_run ?mf ?w ?d Fresh (?n # instants clk ?own cs))"
    using s r(1) f assms(5) by (simp add: answers_to_def Let_def split_beta)
  then show ?thesis using spec ts by (simp add: comp_def del: upt_Suc)
qed

end

section \<open>The authentications of a bridge\<close>

datatype auth_kind = ForCommands | ForSubscriptions | ForMetrics

record auth_request =
  ar_clock :: clock
  ar_kind :: auth_kind
  ar_headers :: headers
  ar_ip :: ip_addr

fun verdict :: "(api_error, 'a) result outcome \<Rightarrow> nat option" where
  "verdict (Done (Inl e)) = Some (ae_status e)"
| "verdict _ = None"

text \<open>Each handler begins with one of the three; what it learns is that it may go on, or the status to refuse with.\<close>

definition authenticate :: "digests \<Rightarrow> auth_request \<Rightarrow> app_state \<Rightarrow> nat option \<times> app_state" where
  "authenticate D q S =
     (case ar_kind q of
        ForCommands \<Rightarrow> apfst verdict (command_auth D (ar_clock q) (ar_headers q) (ar_ip q) S)
      | ForSubscriptions \<Rightarrow> apfst verdict (realtime_auth D (ar_clock q) (ar_headers q) (ar_ip q) S)
      | ForMetrics \<Rightarrow> apfst verdict (metrics_auth (ar_clock q) (ar_headers q) (ar_ip q) S))"

text \<open>A bridge without metrics token refuses metrics requests without counting them.\<close>

definition auth_charged :: "app_state \<Rightarrow> auth_request \<Rightarrow> ip_addr option" where
  "auth_charged S q = (if ar_kind q = ForMetrics \<and> st_metrics_token S = None then None else Some (ar_ip q))"

definition wrong_token :: "digests \<Rightarrow> app_state \<Rightarrow> auth_request \<Rightarrow> bool" where
  "wrong_token D S q =
     (if ar_kind q = ForMetrics then st_metrics_token S \<noteq> bearer (ar_headers q)
      else route_for D S (ar_headers q) = None)"

definition failure_status :: "auth_failure \<Rightarrow> nat option" where
  "failure_status f = Some (if f \<in> {Locked, AlreadyLocked} then 429 else 401)"

lemma failure_status_error: "Some (ae_status (failure_error f m)) = failure_status f"
  by (simp add: failure_status_def failure_error_status)

lemma refuse_same:
  "lockout_ready clk S \<Longrightarrow> refuse clk ip m S = (r :: (api_error, 'a) result outcome, S') \<Longrightarrow> same_bridge S S'"
  using refuse_record [where 'a = 'a, of clk S ip m] by auto

lemma accept_same: "lockout_ready clk S \<Longrightarrow> accept clk ip x S = (r, S') \<Longrightarrow> same_bridge S S'"
  using accept_Done [of S "now clk" clk ip x] by (auto simp: lockout_ready_def)

lemma metrics_auth_same:
  assumes "lockout_ready clk S" and "metrics_auth clk headers ip S = (r, S')"
  shows "same_bridge S S'"
  using assms(2)
  by (auto simp: metrics_auth_def bearer_token_bearer refuse_not_Ok
      split: option.splits prod.splits outcome.splits sum.splits if_splits
      dest: refuse_same [OF assms(1)] accept_same [OF assms(1)])

lemma authenticate_state:
  "ar_kind q \<noteq> ForMetrics \<Longrightarrow> snd (authenticate D q S) = snd (bridge_auth D (ar_clock q) (ar_headers q) (ar_ip q) S)"
  "ar_kind q = ForMetrics \<Longrightarrow> snd (authenticate D q S) = snd (metrics_auth (ar_clock q) (ar_headers q) (ar_ip q) S)"
  by (cases "ar_kind q"; simp add: authenticate_def command_auth_def realtime_auth_def require_route_state)+

interpretation auth: throttled "authenticate D" ar_clock st_auth_lockout auth_charged "wrong_token D" "\<lambda>v. v" failure_status
proof unfold_locales
  fix q :: auth_request and S :: app_state and a S'
  assume o: "in_order (ar_clock q) (st_auth_lockout S)" and s: "authenticate D q S = (a, S')"
  note R = o [folded lockout_ready_in_order]
  obtain b B where b: "bridge_auth D (ar_clock q) (ar_headers q) (ar_ip q) S = (b, B)" by fastforce
  obtain m M where m: "metrics_auth (ar_clock q) (ar_headers q) (ar_ip q) S = (m, M)" by fastforce
  have S': "S' = (if ar_kind q = ForMetrics then M else B)"
    using authenticate_state [of q D S] s b m by (cases "ar_kind q = ForMetrics") simp_all
  have "same_bridge S B" using bridge_auth_ready [OF R, of D "ar_headers q" "ar_ip q"] b by auto
  then have same: "same_bridge S S'" using metrics_auth_same [OF R m] S' by simp
  show "lockout_inv (st_auth_lockout S') (later (ar_clock q)) \<and> same_limits (st_auth_lockout S) (st_auth_lockout S')"
    using bridge_auth_kept [OF R b] metrics_auth_kept [OF R m] S' by (simp add: lockout_kept_def)
  show "auth_charged S' = auth_charged S \<and> wrong_token D S' = wrong_token D S"
    by (simp add: fun_eq_iff auth_charged_def wrong_token_def route_for_def request_hash_def same_bridge_fields [OF same])
  fix ip
  show "status (st_auth_lockout S') (later (ar_clock q)) ip = status (st_auth_lockout S) (later (ar_clock q)) ip"
    if "auth_charged S q \<noteq> Some ip"
  proof (cases "ip = ar_ip q")
    case True
    then have "S' = S"
      using that S' m by (auto simp: auth_charged_def metrics_auth_def split: if_splits)
    then show ?thesis by simp
  next
    case False
    then show ?thesis
      using bridge_auth_others [OF R b False] metrics_auth_others [OF R m False] S' by simp
  qed
  assume w: "wrong_token D S q" and c: "auth_charged S q = Some ip"
  have ip: "ip = ar_ip q" using c by (simp add: auth_charged_def split: if_splits)
  show "\<exists>f L. record_failure_at (st_auth_lockout S) ip (now (ar_clock q)) = (Done f, L) \<and>
      st_auth_lockout S' = snd (snapshot_at L (later (ar_clock q))) \<and> a = failure_status f"
  proof (cases "ar_kind q = ForMetrics")
    case True
    then obtain t where "st_metrics_token S = Some t" "bearer (ar_headers q) \<noteq> Some t"
      using w c by (auto simp: wrong_token_def auth_charged_def split: if_splits)
    from metrics_auth_refused [OF R this, of ip] show ?thesis
      using s m True S' ip failure_status_error by (auto simp: authenticate_def)
  next
    case False
    then have "route_for D S (ar_headers q) = None" using w by (simp add: wrong_token_def)
    from bridge_auth_refused [OF R this, of ip] show ?thesis
      using s b False S' ip failure_status_error
      by (cases "ar_kind q") (auto simp: authenticate_def command_auth_def realtime_auth_def require_route_def)
  qed
qed

section \<open>Guessing\<close>

lemma nth_failure_status: "failure_status (nth_failure mf i) = Some (if i + 1 < mf then 401 else 429)"
  by (simp add: failure_status_def nth_failure_def)

text \<open>C6: Guessing is throttled. Take an address that is not on record, with the table of failures in order and
  lockout on, and any run of authentications, for commands, subscriptions and metrics and of any
  addresses, in which those that would be charged to it carry no valid token. When the table has room for
  it, which means an entry of its own or, after the clean-up, fewer entries than the largest number, its requests are answered
  by their number alone: all before the limit, which fall within one window, with 401, and the one at the limit
  and every later one before the lockout has run out with 429, whatever the others do in between. When
  the table has no room, its request is answered with 401 and it stays off the record, so such an address is
  not throttled while the table is full.\<close>
theorem refused_requests_lock_out:
  assumes "lockout_inv (st_auth_lockout S) (now (ar_clock q))" and "limits_ok (st_auth_lockout S) (now (ar_clock q))"
    and "status (st_auth_lockout S) (now (ar_clock q)) ip = Fresh" and "auth_charged S q = Some ip"
    and "\<forall>r \<in> set (q # qs). auth_charged S r = Some ip \<longrightarrow> wrong_token D S r"
    and "chronological ar_clock (now (ar_clock q)) (q # qs)"
    and "\<forall>r \<in> set (q # qs). later (ar_clock r) + lockout_duration (st_auth_lockout S) < INSTANT_LIMIT"
    and "in_window (max_failures (st_auth_lockout S)) (failure_window (st_auth_lockout S))
      (lockout_duration (st_auth_lockout S)) (now (ar_clock q))
      (instants ar_clock (\<lambda>r. auth_charged S r = Some ip) (q # qs))"
  shows "if room (st_auth_lockout S) ip (now (ar_clock q))
    then answers_to (\<lambda>r. auth_charged S r = Some ip) (fst (run_all (authenticate D) (q # qs) S)) =
      map (\<lambda>i. Some (if i + 1 < max_failures (st_auth_lockout S) then 401 else 429))
        [0..<length (filter (\<lambda>r. auth_charged S r = Some ip) (q # qs))]
    else \<exists>S'. authenticate D q S = (Some 401, S') \<and> status (st_auth_lockout S') (later (ar_clock q)) ip = Fresh"
proof (cases "room (st_auth_lockout S) ip (now (ar_clock q))")
  case True
  then show ?thesis
    using auth.locked_out [OF assms(1,3,2) True assms(4-8)]
    by (simp only: if_True nth_failure_status instants_def length_map list.map_ident)
next
  case False
  obtain a S' where s: "authenticate D q S = (a, S')" by fastforce
  have "in_order (ar_clock q) (st_auth_lockout S)" using assms(1,2,6) by (simp add: in_order_def limits_ok_def)
  moreover have "is_enabled (st_auth_lockout S)" using assms(2) by (simp add: limits_ok_def is_enabled_def)
  moreover have "wrong_token D S q" using assms(4,5) by simp
  ultimately have "a = failure_status EntryLimitReached" "status (st_auth_lockout S') (later (ar_clock q)) ip = Fresh"
    using auth.no_room_step [OF _ _ _ assms(4) s False] by blast+
  then show ?thesis using s False by (simp add: failure_status_def)
qed

text \<open>Two guesses, with a valid request of another address between them, and a third after the lockout began.\<close>

definition sample_auth :: "auth_kind \<Rightarrow> instant \<Rightarrow> string \<Rightarrow> ip_addr \<Rightarrow> auth_request" where
  "sample_auth kind t token ip =
     \<lparr>ar_clock = \<lparr>now = t, later = t + 1\<rparr>, ar_kind = kind, ar_headers = sample_headers token, ar_ip = ip\<rparr>"

lemma sample_in_order:
  "lockout_inv (st_auth_lockout sample_state) t" "limits_ok (st_auth_lockout sample_state) 1"
  "status (st_auth_lockout sample_state) 1 ip = Fresh" "room (st_auth_lockout sample_state) ip 1"
  by (simp add: sample_state_def lockout_inv_new)
     (simp_all add: sample_state_def AuthLockout_new_def limits_ok_def room_def cleaned_def
       cleanup_stale_entries_def INSTANT_LIMIT_def status_def)

theorem refused_requests_lock_out_witness:
  "answers_to (\<lambda>r. auth_charged sample_state r = Some (ipv4 1 2 3 4)) (fst (run_all (authenticate sample_digests)
     [sample_auth ForCommands 1 ''guess'' (ipv4 1 2 3 4), sample_auth ForCommands 2 ''secret'' (ipv4 9 9 9 9),
      sample_auth ForSubscriptions 3 ''guess'' (ipv4 1 2 3 4), sample_auth ForCommands 9 ''guess'' (ipv4 1 2 3 4)]
     sample_state)) = [Some 401, Some 429, Some 429]"
proof -
  let ?own = "\<lambda>r. auth_charged sample_state r = Some (ipv4 1 2 3 4)" and ?q = "sample_auth ForCommands 1 ''guess'' (ipv4 1 2 3 4)"
  let ?qs = "[sample_auth ForCommands 2 ''secret'' (ipv4 9 9 9 9),
      sample_auth ForSubscriptions 3 ''guess'' (ipv4 1 2 3 4), sample_auth ForCommands 9 ''guess'' (ipv4 1 2 3 4)]"
  have ne: "ipv4 9 9 9 9 \<noteq> ipv4 1 2 3 4" by code_simp
  have c: "auth_charged sample_state (sample_auth k t token ip) = Some ip" if "k \<noteq> ForMetrics" for k t token ip
    using that by (simp add: auth_charged_def sample_auth_def)
  have w: "wrong_token sample_digests sample_state (sample_auth k t ''guess'' ip)" if "k \<noteq> ForMetrics" for k t ip
    using that sample_bearer(2)
    by (simp add: wrong_token_def sample_auth_def route_for_def request_hash_def sample_state_def sample_digests_def TokenHash_sha256_def)
  have l: "max_failures (st_auth_lockout sample_state) = 2" "failure_window (st_auth_lockout sample_state) = 5000000000"
      "lockout_duration (st_auth_lockout sample_state) = 10000000000"
    by (simp_all add: sample_state_def AuthLockout_new_def)
  have f: "filter ?own (?q # ?qs) = [?q, ?qs ! 1, ?qs ! 2]" using ne by (simp add: c)
  have "instants ar_clock ?own (?q # ?qs) = [1, 3, 9]" unfolding instants_def f by (simp add: sample_auth_def)
  moreover have "in_window 2 5000000000 10000000000 1 [1, 3, 9]"
    by (simp add: in_window_def less_Suc_eq all_conj_distrib numeral_3_eq_3)
  ultimately have win: "in_window (max_failures (st_auth_lockout sample_state)) (failure_window (st_auth_lockout sample_state))
      (lockout_duration (st_auth_lockout sample_state)) (now (ar_clock ?q)) (instants ar_clock ?own (?q # ?qs))"
    by (simp only: l) (simp add: sample_auth_def)
  have n: "now (ar_clock ?q) = 1" by (simp add: sample_auth_def)
  have "\<forall>r \<in> set (?q # ?qs). ?own r \<longrightarrow> wrong_token sample_digests sample_state r" using ne by (simp add: c w)
  moreover have "chronological ar_clock 1 (?q # ?qs)" by (simp add: sample_auth_def)
  moreover have "\<forall>r \<in> set (?q # ?qs). later (ar_clock r) + lockout_duration (st_auth_lockout sample_state) < INSTANT_LIMIT"
    by (simp add: l sample_auth_def INSTANT_LIMIT_def)
  ultimately have "answers_to ?own (fst (run_all (authenticate sample_digests) (?q # ?qs) sample_state)) =
      map (\<lambda>i. Some (if i + 1 < max_failures (st_auth_lockout sample_state) then 401 else 429))
        [0..<length (filter ?own (?q # ?qs))]"
    using refused_requests_lock_out [of sample_state ?q "ipv4 1 2 3 4" ?qs sample_digests] sample_in_order win c
    unfolding n by (simp only: if_True auth_kind.distinct not_False_eq_True)
  moreover have "[0..<length (filter ?own (?q # ?qs))] = [0, 1, 2]" unfolding f by (simp add: upt_rec)
  ultimately show ?thesis by (simp only: l) simp
qed

end
