(* ===== verification/Throttle.thy ===== *)
theory Throttle
  imports Http Guessing
begin

text \<open>
  Throttling as a client meets it: whole HTTP requests through the table of routes, the handlers
  (\<^verbatim>\<open>src/app/handlers.rs\<close>, \<^verbatim>\<open>src/app/realtime.rs\<close>), authentication, the resolution of the client
  address and the lockout table; the second interpretation of \<open>throttled\<close>. Whoever guesses tokens is locked out on
  every route, forwarding headers do not help, and nobody else is affected.
\<close>

section \<open>A refused request, from the handler to the table\<close>

fun call_peer :: "api_call \<Rightarrow> ip_addr" where
  "call_peer (PostRoot W req) = rq_peer req"
| "call_peer (PostPipeline W req) = rq_peer req"
| "call_peer (PostMultiExec W req) = rq_peer req"

definition call_ip :: "app_state \<Rightarrow> api_call \<Rightarrow> ip_addr" where
  "call_ip S call = client_ip S (call_headers call) (call_peer call)"

lemma handle_api_refused:
  assumes "lockout_ready clk S" and "route_for (su_digests E) S (call_headers call) = None"
  shows "\<exists>f m S' L. record_failure_at (st_auth_lockout S) (call_ip S call) (now clk) = (Done f, L) \<and>
    handle_api E clk call S = (Answered (into_response (failure_error f m)), S', []) \<and> same_bridge S S' \<and>
    st_auth_lockout S' = snd (snapshot_at L (later clk))"
proof -
  obtain f m S1 L where b: "record_failure_at (st_auth_lockout S) (call_ip S call) (now clk) = (Done f, L)"
      "bridge_auth (su_digests E) clk (call_headers call) (call_ip S call) S = (Done (Err (failure_error f m)), S1)"
      "same_bridge S S1" "st_auth_lockout S1 = snd (snapshot_at L (later clk))"
    using bridge_auth_refused [OF assms] by blast
  then have "command_auth (su_digests E) clk (call_headers call) (call_ip S call) S =
      (Done (Err (failure_error f m)), S1)"
    by (simp add: command_auth_def require_route_def)
  then have "\<exists>n. handle_api E clk call S = (Answered (into_response (failure_error f m)),
      S1\<lparr>st_metrics := request_denied n ''auth'' (st_metrics S1)\<rparr>, [])"
    by (cases call)
       (auto simp: command_handler_def pipeline_handler_def multi_exec_handler_def run_route_def Let_def call_ip_def)
  then show ?thesis using b same_bridge_trans [OF b(3) same_bridge_update(3)] by fastforce
qed

lemma subscribe_refused:
  assumes "lockout_ready clk S" and "route_for D S (sq_headers req) = None"
  shows "\<exists>f m S' L. record_failure_at (st_auth_lockout S) (client_ip S (sq_headers req) (sq_peer req)) (now clk) = (Done f, L) \<and>
    subscribe D clk P req S = (Done (Some (into_response (failure_error f m))), None, S', []) \<and>
    st_auth_lockout S' = snd (snapshot_at L (later clk))"
  using bridge_auth_refused [OF assms, of "client_ip S (sq_headers req) (sq_peer req)"]
  by (fastforce simp: subscribe_def subscribe_begin_def realtime_auth_def require_route_def deny_subscribe_def Let_def)

lemma metrics_refused:
  assumes "lockout_ready clk S" and "st_metrics_token S = Some t" and "bearer (rq_headers req) \<noteq> Some t"
  shows "\<exists>f m S' L. record_failure_at (st_auth_lockout S) (client_ip S (rq_headers req) (rq_peer req)) (now clk) = (Done f, L) \<and>
    metrics_handler E clk req S = (Answered (into_response (failure_error f m)), S') \<and>
    st_auth_lockout S' = snd (snapshot_at L (later clk))"
  using metrics_auth_refused [OF assms, of "client_ip S (rq_headers req) (rq_peer req)"]
  by (fastforce simp: metrics_handler_def Let_def)

section \<open>Other addresses\<close>

lemma handle_api_others:
  assumes "lockout_ready clk S" and "handle_api E clk call S = (en, S', sent)" and "ip \<noteq> call_ip S call"
  shows "status (st_auth_lockout S') (later clk) ip = status (st_auth_lockout S) (later clk) ip"
proof -
  obtain r T where b: "bridge_auth (su_digests E) clk (call_headers call) (call_ip S call) S = (r, T)" by fastforce
  have "st_auth_lockout S' = st_auth_lockout (snd (command_auth (su_digests E) clk (call_headers call) (call_ip S call) S))"
    using assms(2)
    by (cases call) (auto simp: command_handler_def pipeline_handler_def multi_exec_handler_def call_ip_def
        dest!: run_route_lockout)
  then show ?thesis
    using bridge_auth_others [OF assms(1) b assms(3)] b by (simp add: command_auth_def require_route_state)
qed

lemma subscribe_others:
  assumes "lockout_ready clk S" and "subscribe D clk P req S = (r, stream, S', sent)"
    and "ip \<noteq> client_ip S (sq_headers req) (sq_peer req)"
  shows "status (st_auth_lockout S') (later clk) ip = status (st_auth_lockout S) (later clk) ip"
proof -
  obtain x T where b: "bridge_auth D clk (sq_headers req) (client_ip S (sq_headers req) (sq_peer req)) S = (x, T)" by fastforce
  obtain y S1 where s: "subscribe_begin D clk req S = (y, S1)" by fastforce
  have "st_auth_lockout S' = st_auth_lockout S1"
    using assms(2) s
    by (auto simp: subscribe_def split: outcome.splits sum.splits prod.splits dest: subscribe_finish_lockout)
  then show ?thesis
    using subscribe_begin_lockout [OF s] bridge_auth_others [OF assms(1) b assms(3)] b
    by (simp add: realtime_auth_def require_route_state)
qed

lemma refresh_others:
  assumes "lockout_inv (st_auth_lockout S) t" and "refresh_lockout_metrics clk S = (r, S')"
  shows "status (st_auth_lockout S') (later clk) ip = status (st_auth_lockout S) (later clk) ip"
  using snapshot_status [OF assms(1), of "later clk" ip] assms(2)
  by (auto simp: refresh_lockout_metrics_def split: prod.splits outcome.splits)

lemma metrics_handler_others:
  assumes "lockout_ready clk S" and "metrics_handler E clk req S = (en, S')"
    and "st_metrics_token S = None \<or> ip \<noteq> client_ip S (rq_headers req) (rq_peer req)"
  shows "status (st_auth_lockout S') (later clk) ip = status (st_auth_lockout S) (later clk) ip"
proof (cases "st_metrics_token S")
  case None
  then show ?thesis using assms(2) by (auto simp: metrics_handler_def metrics_auth_def)
next
  case (Some t)
  obtain a S1 where a: "metrics_auth clk (rq_headers req) (client_ip S (rq_headers req) (rq_peer req)) S = (a, S1)"
    by fastforce
  have s: "status (st_auth_lockout S1) (later clk) ip = status (st_auth_lockout S) (later clk) ip"
    using metrics_auth_others [OF assms(1) a] assms(3) Some by simp
  have inv: "lockout_inv (st_auth_lockout S1) (later clk)"
    using metrics_auth_kept [OF assms(1) a] by (simp add: lockout_kept_def)
  have "st_auth_lockout S' = st_auth_lockout S1 \<or>
      (\<exists>r S2. refresh_lockout_metrics clk S1 = (r, S2) \<and> st_auth_lockout S' = st_auth_lockout S2)"
    using assms(2) a by (auto simp: metrics_handler_def Let_def split: outcome.splits sum.splits prod.splits)
  then show ?thesis using s refresh_others [OF inv] by metis
qed

section \<open>Requests before the table\<close>

text \<open>
  Whether a request authenticates at all, with which address it is charged, and whether its token is
  refused. A page, a probe, an unknown path or a metrics request to a bridge without metrics token is not charged.
\<close>

definition attempts :: "web \<Rightarrow> nat \<Rightarrow> app_state \<Rightarrow> incoming \<Rightarrow> bool" where
  "attempts X limit S req =
     (case request_call X limit req of
        ApiCall c \<Rightarrow> True
      | SubscribeCall P sq \<Rightarrow> True
      | MetricsCall r \<Rightarrow> st_metrics_token S \<noteq> None
      | _ \<Rightarrow> False)"

definition request_charged :: "web \<Rightarrow> nat \<Rightarrow> app_state \<Rightarrow> incoming \<Rightarrow> ip_addr option" where
  "request_charged X limit S req =
     (if attempts X limit S req then Some (client_ip S (in_headers req) (in_peer req)) else None)"

definition request_refused :: "web \<Rightarrow> nat \<Rightarrow> app_state \<Rightarrow> incoming \<Rightarrow> bool" where
  "request_refused X limit S req =
     (case request_call X limit req of
        MetricsCall r \<Rightarrow> st_metrics_token S \<noteq> bearer (in_headers req)
      | _ \<Rightarrow> route_for (su_digests (wb_surroundings X)) S (in_headers req) = None)"

text \<open>The status of an answer, and what was sent to Redis for it.\<close>

fun answer_status :: "answer \<Rightarrow> nat option" where
  "answer_status (Reply resp) = Some (resp_status resp)"
| "answer_status (Refusal code) = Some code"
| "answer_status _ = None"

definition exchange :: "web \<Rightarrow> nat \<Rightarrow> incoming \<Rightarrow> app_state \<Rightarrow> (nat option \<times> (nat \<times> message) list) \<times> app_state" where
  "exchange X limit req S =
     (let ef = respond X limit req S in ((answer_status (ef_answer ef), ef_sent ef), ef_state ef))"

lemma request_parts:
  "request_call X limit req = ApiCall c \<Longrightarrow> call_headers c = in_headers req \<and> call_peer c = in_peer req"
  "request_call X limit req = SubscribeCall P sq \<Longrightarrow> sq_headers sq = in_headers req \<and> sq_peer sq = in_peer req"
  "request_call X limit req = MetricsCall r \<Longrightarrow> rq_headers r = in_headers req \<and> rq_peer r = in_peer req"
  by (auto simp: request_call_def split: dispatched.splits sum.splits elim!: endpoint_call.elims)

lemma failure_response_status: "Some (resp_status (into_response (failure_error f m))) = failure_status f"
  by (simp add: failure_status_def failure_error_status into_response_def json_response_def)

lemma exchange_refused:
  assumes "lockout_ready (in_clock req) S" and "request_refused X limit S req"
    and "request_charged X limit S req = Some ip" and "exchange X limit req S = (a, S')"
  shows "\<exists>f L. record_failure_at (st_auth_lockout S) ip (now (in_clock req)) = (Done f, L) \<and>
    st_auth_lockout S' = snd (snapshot_at L (later (in_clock req))) \<and> a = (failure_status f, [])"
proof (cases "request_call X limit req")
  case (ApiCall c)
  then have "route_for (su_digests (wb_surroundings X)) S (call_headers c) = None" "ip = call_ip S c"
    using assms(2,3) request_parts(1) [OF ApiCall]
    by (auto simp: request_refused_def request_charged_def call_ip_def split: if_splits)
  then show ?thesis
    using handle_api_refused [OF assms(1), of "wb_surroundings X" c] assms(4) ApiCall failure_response_status
    by (auto simp: exchange_def respond_def)
next
  case (SubscribeCall P sq)
  then have "route_for (su_digests (wb_surroundings X)) S (sq_headers sq) = None" "ip = client_ip S (sq_headers sq) (sq_peer sq)"
    using assms(2,3) request_parts(2) [OF SubscribeCall]
    by (auto simp: request_refused_def request_charged_def split: if_splits)
  then show ?thesis
    using subscribe_refused [OF assms(1), of "su_digests (wb_surroundings X)" sq P] assms(4) SubscribeCall
      failure_response_status
    by (auto simp: exchange_def respond_def)
next
  case (MetricsCall r)
  then obtain t where "st_metrics_token S = Some t" "bearer (rq_headers r) \<noteq> Some t"
      "ip = client_ip S (rq_headers r) (rq_peer r)"
    using assms(2,3) request_parts(3) [OF MetricsCall]
    by (auto simp: request_refused_def request_charged_def attempts_def split: if_splits)
  then show ?thesis
    using metrics_refused [OF assms(1), of t r "wb_surroundings X"] assms(4) MetricsCall failure_response_status
    by (auto simp: exchange_def respond_def)
qed (use assms(3) in \<open>simp_all add: request_charged_def attempts_def\<close>)

lemma exchange_others:
  assumes "lockout_ready (in_clock req) S" and "request_charged X limit S req \<noteq> Some ip"
    and "exchange X limit req S = (a, S')"
  shows "status (st_auth_lockout S') (later (in_clock req)) ip = status (st_auth_lockout S) (later (in_clock req)) ip"
proof (cases "request_call X limit req")
  case (ApiCall c)
  then have "ip \<noteq> call_ip S c"
    using assms(2) request_parts(1) [OF ApiCall] by (auto simp: request_charged_def attempts_def call_ip_def)
  then show ?thesis
    using handle_api_others [OF assms(1)] assms(3) ApiCall by (auto simp: exchange_def respond_def split: prod.splits)
next
  case (SubscribeCall P sq)
  then have "ip \<noteq> client_ip S (sq_headers sq) (sq_peer sq)"
    using assms(2) request_parts(2) [OF SubscribeCall] by (auto simp: request_charged_def attempts_def)
  then show ?thesis
    using subscribe_others [OF assms(1)] assms(3) SubscribeCall
    by (auto simp: exchange_def respond_def split: prod.splits)
next
  case (MetricsCall r)
  then have "st_metrics_token S = None \<or> ip \<noteq> client_ip S (rq_headers r) (rq_peer r)"
    using assms(2) request_parts(3) [OF MetricsCall] by (auto simp: request_charged_def attempts_def)
  then show ?thesis
    using metrics_handler_others [OF assms(1)] assms(3) MetricsCall
    by (auto simp: exchange_def respond_def split: prod.splits)
qed (use assms(3) in \<open>auto simp: exchange_def respond_def\<close>)

interpretation http: throttled "exchange X limit" in_clock st_auth_lockout "request_charged X limit"
  "request_refused X limit" "\<lambda>a. a" "\<lambda>f. (failure_status f, [])"
proof unfold_locales
  fix req :: incoming and S :: app_state and a S'
  assume o: "in_order (in_clock req) (st_auth_lockout S)" and s: "exchange X limit req S = (a, S')"
  note R = o [folded lockout_ready_in_order]
  have S': "S' = ef_state (respond X limit req S)" using s by (auto simp: exchange_def Let_def)
  show "lockout_inv (st_auth_lockout S') (later (in_clock req)) \<and> same_limits (st_auth_lockout S) (st_auth_lockout S')"
    using respond_kept(1) [OF R, of X limit] S' by (simp add: lockout_kept_def)
  have same: "same_config S S'" using respond_config S' by simp
  show "request_charged X limit S' = request_charged X limit S \<and> request_refused X limit S' = request_refused X limit S"
    by (simp add: fun_eq_iff request_charged_def request_refused_def attempts_def same_config_route [OF same]
        client_ip_def same_config_fields [OF same] split: call.split)
  show "status (st_auth_lockout S') (later (in_clock req)) ip = status (st_auth_lockout S) (later (in_clock req)) ip"
    if "request_charged X limit S req \<noteq> Some ip" for ip
    using exchange_others [OF R that s] .
  show "\<exists>f L. record_failure_at (st_auth_lockout S) ip (now (in_clock req)) = (Done f, L) \<and>
      st_auth_lockout S' = snd (snapshot_at L (later (in_clock req))) \<and> a = (failure_status f, [])"
    if "request_refused X limit S req" "request_charged X limit S req = Some ip" for ip
    using exchange_refused [OF R that s] .
qed

section \<open>Properties\<close>

text \<open>A peer that is no trusted proxy is charged with its own address, whatever headers it sends.\<close>

lemma untrusted_charged:
  assumes "\<not> st_trust_proxy_headers S \<or> \<not> is_trusted (st_trusted_proxies S) (in_peer req)"
  shows "client_ip S (in_headers req) (in_peer req) = in_peer req"
  using assms by (auto simp: client_ip_def resolve_def)

text \<open>C7: Forwarding headers do not help to guess tokens. Take a peer that is no trusted proxy and not on record, with the
  table of failures in order and lockout on, and any run of HTTP requests in which that peer never has a valid token
  while no trusted proxy names its address. However the peer varies headers, tokens and routes, and whatever
  other clients do in between: when the table has room for the peer, an entry of its own or fewer entries than the
  largest number after the clean-up, its authenticated requests are answered by their number alone, with 401 before
  the limit, within one window, and with 429 from the limit on until the lockout has run out, and send nothing
  to Redis. When the table has no room, its request is answered with 401, sends nothing and leaves it off the
  record, so such a peer is not throttled while the table is full.\<close>
theorem spoofing_does_not_help:
  assumes "\<not> st_trust_proxy_headers S \<or> \<not> is_trusted (st_trusted_proxies S) peer"
    and "in_peer req = peer" and "attempts X limit S req"
    and "\<forall>r \<in> set (req # reqs). if in_peer r = peer then attempts X limit S r \<longrightarrow> request_refused X limit S r
      else client_ip S (in_headers r) (in_peer r) \<noteq> peer"
    and "lockout_inv (st_auth_lockout S) (now (in_clock req))" and "limits_ok (st_auth_lockout S) (now (in_clock req))"
    and "status (st_auth_lockout S) (now (in_clock req)) peer = Fresh"
    and "chronological in_clock (now (in_clock req)) (req # reqs)"
    and "\<forall>r \<in> set (req # reqs). later (in_clock r) + lockout_duration (st_auth_lockout S) < INSTANT_LIMIT"
    and "in_window (max_failures (st_auth_lockout S)) (failure_window (st_auth_lockout S))
      (lockout_duration (st_auth_lockout S)) (now (in_clock req))
      (instants in_clock (\<lambda>r. in_peer r = peer \<and> attempts X limit S r) (req # reqs))"
  shows "if room (st_auth_lockout S) peer (now (in_clock req))
    then answers_to (\<lambda>r. in_peer r = peer \<and> attempts X limit S r) (fst (run_all (exchange X limit) (req # reqs) S)) =
      map (\<lambda>i. (Some (if i + 1 < max_failures (st_auth_lockout S) then 401 else 429), []))
        [0..<length (filter (\<lambda>r. in_peer r = peer \<and> attempts X limit S r) (req # reqs))]
    else \<exists>S'. exchange X limit req S = ((Some 401, []), S') \<and>
      status (st_auth_lockout S') (later (in_clock req)) peer = Fresh"
proof -
  let ?own = "\<lambda>r. in_peer r = peer \<and> attempts X limit S r" and ?ch = "\<lambda>r. request_charged X limit S r = Some peer"
  have ip: "?ch r \<longleftrightarrow> ?own r" if "r \<in> set (req # reqs)" for r
  proof (cases "in_peer r = peer")
    case True
    then show ?thesis using untrusted_charged [of S r] assms(1) by (simp add: request_charged_def)
  next
    case False
    then have "client_ip S (in_headers r) (in_peer r) \<noteq> peer" using assms(4) that by metis
    then show ?thesis using False by (simp add: request_charged_def)
  qed
  have f: "filter ?ch (req # reqs) = filter ?own (req # reqs)" by (rule filter_cong [OF refl ip])
  then have i: "instants in_clock ?ch (req # reqs) = instants in_clock ?own (req # reqs)" by (simp only: instants_def)
  have c: "?ch req" using ip [of req] assms(2,3) by simp
  have w: "\<forall>r \<in> set (req # reqs). ?ch r \<longrightarrow> request_refused X limit S r" using ip assms(4) by auto
  show ?thesis
  proof (cases "room (st_auth_lockout S) peer (now (in_clock req))")
    case True
    have "answers_to ?ch (fst (run_all (exchange X limit) (req # reqs) S)) =
        answers_to ?own (fst (run_all (exchange X limit) (req # reqs) S))"
      using ip run_all_requests [of "exchange X limit" "req # reqs" S] by (intro answers_to_cong) auto
    then show ?thesis
      using http.locked_out [OF assms(5,7,6) True c w assms(8,9)] assms(10) True unfolding i
      by (simp only: if_True nth_failure_status list.map_ident f [symmetric]) (simp only: instants_def length_map f)
  next
    case False
    obtain a S' where s: "exchange X limit req S = (a, S')" by fastforce
    have "in_order (in_clock req) (st_auth_lockout S)" using assms(5,6,8) by (simp add: in_order_def limits_ok_def)
    moreover have "is_enabled (st_auth_lockout S)" using assms(6) by (simp add: limits_ok_def is_enabled_def)
    moreover have "request_refused X limit S req" using w c by simp
    ultimately have "a = (failure_status EntryLimitReached, [])"
        "status (st_auth_lockout S') (later (in_clock req)) peer = Fresh"
      using http.no_room_step [OF _ _ _ c s False] by blast+
    then show ?thesis using s False by (simp add: failure_status_def)
  qed
qed

text \<open>A client that changes token, route and forwarding header with every request.\<close>

definition guess_web :: web where
  "guess_web = \<lparr>wb_matcher = example_matcher,
     wb_extraction = \<lparr>ex_command = (\<lambda>_ _ _. Ok []), ex_commands = (\<lambda>_ _ _. Err ()), ex_channel = Ok\<rparr>,
     wb_surroundings = sample_surroundings\<rparr>"

definition guess_request :: "instant \<Rightarrow> string \<Rightarrow> string \<Rightarrow> ip_addr \<Rightarrow> incoming" where
  "guess_request t path token peer = \<lparr>in_clock = \<lparr>now = t, later = t + 1\<rparr>, in_method = POST, in_path = path,
     in_peer = peer, in_headers = (sample_headers token)(''x-forwarded-for'' \<mapsto> show_nat t), in_body = [],
     in_command = sample_weather Okay, in_pipeline = sample_weather [], in_transaction = sample_weather [],
     in_pubsub = sample_pubsub\<rparr>"

lemma guess_calls:
  "\<exists>c. request_call guess_web 16 (guess_request t ''/'' token peer) = ApiCall c"
  "\<exists>P sq. request_call guess_web 16 (guess_request t ''/subscribe/news'' token peer) = SubscribeCall P sq"
  by (simp_all add: request_call_def guess_web_def guess_request_def route_defs example_matcher_def)

lemma guess_bearer: "bearer (in_headers (guess_request t path ''guess'' peer)) = Some ''guess''"
  using bearer_header [of "in_headers (guess_request t path ''guess'' peer)" "''guess''"]
  by (simp add: guess_request_def sample_headers_def trim_graphic graphic_def)

lemma guess_attempts:
  assumes "path \<in> {''/'', ''/subscribe/news''}"
  shows "attempts guess_web 16 sample_state (guess_request t path token peer)"
    and "request_refused guess_web 16 sample_state (guess_request t path ''guess'' peer)"
proof -
  have r: "route_for (su_digests (wb_surroundings guess_web)) sample_state (in_headers (guess_request t path ''guess'' peer)) = None"
    by (simp add: route_for_def guess_bearer request_hash_def guess_web_def sample_surroundings_def sample_state_def
        sample_digests_def TokenHash_sha256_def)
  show "attempts guess_web 16 sample_state (guess_request t path token peer)"
    and "request_refused guess_web 16 sample_state (guess_request t path ''guess'' peer)"
    using assms guess_calls(1) [of t token peer] guess_calls(2) [of t token peer]
      guess_calls(1) [of t "''guess''" peer] guess_calls(2) [of t "''guess''" peer] r
    by (auto simp: attempts_def request_refused_def)
qed

theorem spoofing_does_not_help_witness:
  "answers_to (\<lambda>r. in_peer r = ipv4 1 2 3 4 \<and> attempts guess_web 16 sample_state r)
     (fst (run_all (exchange guess_web 16)
       [guess_request 1 ''/'' ''guess'' (ipv4 1 2 3 4), guess_request 2 ''/'' ''secret'' (ipv4 9 9 9 9),
        guess_request 3 ''/subscribe/news'' ''guess'' (ipv4 1 2 3 4)] sample_state)) =
   [(Some 401, []), (Some 429, [])]"
proof -
  let ?own = "\<lambda>r. in_peer r = ipv4 1 2 3 4 \<and> attempts guess_web 16 sample_state r"
  let ?q = "guess_request 1 ''/'' ''guess'' (ipv4 1 2 3 4)"
  let ?qs = "[guess_request 2 ''/'' ''secret'' (ipv4 9 9 9 9), guess_request 3 ''/subscribe/news'' ''guess'' (ipv4 1 2 3 4)]"
  have ne: "ipv4 9 9 9 9 \<noteq> ipv4 1 2 3 4" by code_simp
  have peer: "in_peer (guess_request t path token p) = p" "now (in_clock (guess_request t path token p)) = t"
      "later (in_clock (guess_request t path token p)) = t + 1" for t path token p
    by (simp_all add: guess_request_def)
  have l: "max_failures (st_auth_lockout sample_state) = 2" "failure_window (st_auth_lockout sample_state) = 5000000000"
      "lockout_duration (st_auth_lockout sample_state) = 10000000000" "\<not> st_trust_proxy_headers sample_state"
    by (simp_all add: sample_state_def AuthLockout_new_def)
  have f: "filter ?own (?q # ?qs) = [?q, ?qs ! 1]" using ne by (simp add: peer guess_attempts)
  have "instants in_clock ?own (?q # ?qs) = [1, 3]" unfolding instants_def f by (simp add: peer)
  moreover have "in_window 2 5000000000 10000000000 1 [1, 3]" by (simp add: in_window_def less_Suc_eq all_conj_distrib numeral_2_eq_2)
  ultimately have win: "in_window (max_failures (st_auth_lockout sample_state)) (failure_window (st_auth_lockout sample_state))
      (lockout_duration (st_auth_lockout sample_state)) (now (in_clock ?q)) (instants in_clock ?own (?q # ?qs))"
    by (simp only: l peer)
  have others: "\<forall>r \<in> set (?q # ?qs). if in_peer r = ipv4 1 2 3 4
      then attempts guess_web 16 sample_state r \<longrightarrow> request_refused guess_web 16 sample_state r
      else client_ip sample_state (in_headers r) (in_peer r) \<noteq> ipv4 1 2 3 4"
    using ne l(4) by (simp add: peer guess_attempts client_ip_def)
  have att: "attempts guess_web 16 sample_state ?q" by (simp add: guess_attempts)
  have chron: "chronological in_clock (now (in_clock ?q)) (?q # ?qs)" by (simp add: peer)
  have range: "\<forall>r \<in> set (?q # ?qs). later (in_clock r) + lockout_duration (st_auth_lockout sample_state) < INSTANT_LIMIT"
    by (simp add: l peer INSTANT_LIMIT_def)
  have proxy: "\<not> st_trust_proxy_headers sample_state \<or> \<not> is_trusted (st_trusted_proxies sample_state) (ipv4 1 2 3 4)"
    using l(4) ..
  have "answers_to ?own (fst (run_all (exchange guess_web 16) (?q # ?qs) sample_state)) =
      map (\<lambda>i. (Some (if i + 1 < max_failures (st_auth_lockout sample_state) then 401 else 429), []))
        [0..<length (filter ?own (?q # ?qs))]"
    using spoofing_does_not_help [OF proxy peer(1) att others _ _ _ chron range win] sample_in_order
    by (simp only: peer if_True)
  moreover have "[0..<length (filter ?own (?q # ?qs))] = [0, 1]" unfolding f by (simp add: upt_rec)
  ultimately show ?thesis by (simp only: l) simp
qed

text \<open>A guess on a command route, as its handler sees it.\<close>

definition sample_guess :: api_call where
  "sample_guess = PostMultiExec (sample_weather [])
     \<lparr>rq_peer = ipv4 1 2 3 4, rq_headers = sample_headers ''guess'', rq_body = Ok []\<rparr>"

text \<open>C17: Nobody is locked out by others. Whatever a client of one address does on the command routes, with a wrong or a
  right token, the lockout status of every other address stays what it was, also when the table is full and
  entries are removed.\<close>
theorem lockouts_isolated:
  assumes "lockout_ready clk S" and "handle_api E clk call S = (en, S', sent)" and "ip \<noteq> call_ip S call"
  shows "status (st_auth_lockout S') (later clk) ip = status (st_auth_lockout S) (later clk) ip"
  using handle_api_others [OF assms] .

theorem lockouts_isolated_witness:
  "\<exists>en S' sent. handle_api sample_surroundings sample_clock sample_guess sample_state = (en, S', sent) \<and>
     status (st_auth_lockout S') 1 (ipv4 9 9 9 9) = Fresh"
proof -
  obtain en S' sent where h: "handle_api sample_surroundings sample_clock sample_guess sample_state = (en, S', sent)"
    by (metis prod_cases3)
  have "ipv4 9 9 9 9 \<noteq> ipv4 1 2 3 4" by code_simp
  then have "ipv4 9 9 9 9 \<noteq> call_ip sample_state sample_guess"
    by (simp add: call_ip_def client_ip_def sample_state_def sample_guess_def)
  from lockouts_isolated [OF sample_ready h this] h show ?thesis
    by (simp add: status_def sample_state_def AuthLockout_new_def)
qed

end
