(* ===== verification/Timing.thy ===== *)
theory Timing
  imports Execute
begin

text \<open>
  The two timeouts of an operation (\<^verbatim>\<open>execute_operation\<close> in \<^verbatim>\<open>src/redis/execute.rs\<close>): how long each wait takes is the
  input here, and what becomes of the operation, and when, is computed by the nested timeouts. The
  timed operation refines the one of \<open>Execute\<close>, whose weather it determines.
\<close>

section \<open>Waits that take time\<close>

text \<open>
  A wait completes after some time or never. The runtime documents of a timeout that it ends with the result of the
  wait or at the limit, whichever is first. \<^verbatim>\<open>tokio::time::timeout\<close> polls the wait before its own timer, so a wait
  that completes exactly at the limit still counts.
\<close>

type_synonym 'a delayed = "(duration \<times> 'a) option"

definition timeout :: "duration \<Rightarrow> 'a delayed \<Rightarrow> duration \<times> 'a option" where
  "timeout limit wait =
     (case wait of
        Some (t, x) \<Rightarrow> if t \<le> limit then (t, Some x) else (limit, None)
      | None \<Rightarrow> (limit, None))"

text \<open>The waits of one operation, each from the moment it starts: a permit or a closed limiter, a connection, and the answer.\<close>

record 'a timing =
  tm_permit :: "bool delayed"
  tm_connection :: "conn option delayed"
  tm_redis :: "conn \<Rightarrow> wire \<Rightarrow> (redis_error, 'a) result delayed"

section \<open>The operation\<close>

text \<open>The future inside the request timeout.\<close>

definition timed_future ::
    "duration \<Rightarrow> 'a timing \<Rightarrow> wire \<Rightarrow> ('a \<Rightarrow> 'b) \<Rightarrow> (api_error, 'b) result delayed" where
  "timed_future acquire_timeout T w f =
     (case timeout acquire_timeout (tm_permit T) of
        (t1, None) \<Rightarrow> Some (t1, Err (too_many_requests ''Redis operation capacity exhausted''))
      | (t1, Some False) \<Rightarrow> Some (t1, Err (unavailable ''Redis backend unavailable''))
      | (t1, Some True) \<Rightarrow>
          (case tm_connection T of
             None \<Rightarrow> None
           | Some (t2, None) \<Rightarrow> Some (t1 + t2, Err (unavailable ''Redis backend unavailable''))
           | Some (t2, Some c) \<Rightarrow>
               (case tm_redis T c w of
                  None \<Rightarrow> None
                | Some (t3, Inl e) \<Rightarrow> Some (t1 + t2 + t3, Err (redis_api_error e))
                | Some (t3, Inr x) \<Rightarrow> Some (t1 + t2 + t3, Ok (f x)))))"

definition timed_operation ::
    "string \<Rightarrow> string \<Rightarrow> string \<Rightarrow> duration \<Rightarrow> duration \<Rightarrow> 'a timing \<Rightarrow> wire \<Rightarrow> ('a \<Rightarrow> 'b) \<Rightarrow> metrics \<Rightarrow>
       duration \<times> (api_error, 'b) result \<times> metrics" where
  "timed_operation target operation_name timeout_message request_timeout acquire_timeout T w f M =
     (let (guard, M1) = begin_operation target operation_name M in
      case timeout request_timeout (timed_future acquire_timeout T w f) of
        (t, Some (Inr x)) \<Rightarrow> (t, Ok x, Guard_success guard M1)
      | (t, Some (Inl e)) \<Rightarrow> (t, Err e, Guard_error guard M1)
      | (t, None) \<Rightarrow> (t, Err (ApiError_timeout timeout_message), Guard_timeout guard M1))"

section \<open>The weather that the times make\<close>

definition permit_wait :: "duration \<Rightarrow> duration \<Rightarrow> 'a timing \<Rightarrow> duration \<times> acquired wait" where
  "permit_wait request_timeout acquire_timeout T =
     (let (t1, r) = timeout acquire_timeout (tm_permit T) in
      (t1, if request_timeout < t1 then Elapses
           else Completes (case r of None \<Rightarrow> AcquireTimeout | Some False \<Rightarrow> LimiterClosed | Some True \<Rightarrow> Permit)))"

definition until :: "duration \<Rightarrow> duration \<Rightarrow> 'a delayed \<Rightarrow> 'a wait" where
  "until request_timeout before wait =
     (case wait of
        None \<Rightarrow> Elapses
      | Some (t, x) \<Rightarrow> if before + t \<le> request_timeout then Completes x else Elapses)"

definition weather_of :: "duration \<Rightarrow> duration \<Rightarrow> 'a timing \<Rightarrow> 'a weather" where
  "weather_of request_timeout acquire_timeout T =
     (let t1 = fst (permit_wait request_timeout acquire_timeout T);
          t2 = (case tm_connection T of None \<Rightarrow> 0 | Some (t, _) \<Rightarrow> t) in
      \<lparr>on_acquire = snd (permit_wait request_timeout acquire_timeout T),
       on_connection = until request_timeout t1 (tm_connection T),
       on_redis = (\<lambda>c w. until request_timeout (t1 + t2) (tm_redis T c w))\<rparr>)"

lemma timeout_le: "fst (timeout limit wait) \<le> limit"
  by (auto simp: timeout_def split: option.splits)

lemmas timing_defs = timed_future_def timeout_def permit_wait_def until_def weather_of_def
  operation_future_def

text \<open>The future ends in time with a result exactly when the waits of the weather lead to that result.\<close>

lemma weather_future:
  "fst (operation_future (weather_of req acq T) w f) =
     (case snd (timeout req (timed_future acq T w f)) of None \<Rightarrow> Elapses | Some r \<Rightarrow> Completes r)"
proof -
  obtain t1 r where p: "timeout acq (tm_permit T) = (t1, r)" by fastforce
  show ?thesis
  proof (cases "req < t1")
    case True
    then show ?thesis
      using p by (auto simp: timed_future_def permit_wait_def weather_of_def operation_future_def timeout_def [of req] Let_def
          split: option.splits bool.splits prod.splits sum.splits)
  next
    case False
    note d = timed_future_def permit_wait_def weather_of_def operation_future_def timeout_def [of req] Let_def p until_def
    show ?thesis
    proof (cases r)
      case None
      then show ?thesis using False by (simp add: d)
    next
      case (Some b)
      show ?thesis
      proof (cases b)
        case True
        show ?thesis
        proof (cases "tm_connection T")
          case None
          then show ?thesis using False Some True by (simp add: d)
        next
          case conn: (Some tc)
          obtain t2 oc where tc: "tc = (t2, oc)" by fastforce
          show ?thesis
            using False Some True conn tc
            by (cases oc) (auto simp: d split: option.splits sum.splits)
        qed
      next
        case b: False
        then show ?thesis using False Some by (simp add: d)
      qed
    qed
  qed
qed

lemma redis_api_error_status: "ae_status (redis_api_error e) \<in> {400, 503}"
  by (auto simp: redis_api_error_def api_error_defs split: if_splits)

lemma weather_not_abandoned: "fst (operation_future (weather_of req acq T) w f) \<noteq> Abandoned"
  by (simp add: weather_future split: option.splits)

section \<open>Properties\<close>

text \<open>C13: Every operation comes to an end within the request timeout. Whatever the limiter, the pool and Redis do,
  also when one of them never answers, the timed operation has a result no later than the request
  timeout, and it is the result and the accounting of the untimed operation under the weather that the times make.\<close>
theorem operation_terminates:
  "\<exists>t r M' sent. timed_operation target kind msg req acq T w f M = (t, r, M') \<and> t \<le> req \<and>
     execute_operation target kind msg (weather_of req acq T) w f M = (Some r, sent, M')"
proof -
  obtain t r where o: "timeout req (timed_future acq T w f) = (t, r)" by fastforce
  have "t \<le> req" using timeout_le [of req "timed_future acq T w f"] o by simp
  then show ?thesis
    using o weather_future [of req acq T w f]
    by (cases "operation_future (weather_of req acq T) w f")
       (auto simp: timed_operation_def execute_operation_def Let_def split: option.splits sum.splits prod.splits)
qed

text \<open>
  When the acquire timeout is below the request timeout, an operation that gets no permit within the acquire
  timeout is answered with 429 exactly then, before the request timeout could turn it into 504; no other
  operation is answered with 429.
\<close>

lemma saturation_reported:
  assumes "acq < req" and "timed_operation target kind msg req acq T w f M = (t, r, M')"
  shows "((\<exists>e. r = Err e \<and> ae_status e = 429) \<longleftrightarrow>
      (case tm_permit T of None \<Rightarrow> True | Some (t1, _) \<Rightarrow> acq < t1)) \<and>
    ((\<exists>e. r = Err e \<and> ae_status e = 429) \<longrightarrow> t = acq)"
proof (cases "snd (timeout acq (tm_permit T))")
  case None
  then show ?thesis
    using assms
    by (auto simp: timed_operation_def timed_future_def timeout_def Let_def begin_operation_def api_error_defs
        split: option.splits prod.splits if_splits)
next
  case (Some b)
  have "ae_status (redis_api_error e) \<noteq> 429" for e
    using redis_api_error_status [of e] by auto
  then have "\<forall>u e. timed_future acq T w f = Some (u, Err e) \<longrightarrow> ae_status e \<noteq> 429"
    using Some
    by (auto simp: timed_future_def api_error_defs split: option.splits prod.splits bool.splits sum.splits)
  then have "\<not> (\<exists>e. r = Err e \<and> ae_status e = 429)"
    using assms(2)
    by (auto simp: timed_operation_def timeout_def Let_def begin_operation_def api_error_defs
        split: option.splits prod.splits sum.splits if_splits)
  moreover have "\<not> (case tm_permit T of None \<Rightarrow> True | Some (t1, _) \<Rightarrow> acq < t1)"
    using Some by (auto simp: timeout_def split: option.splits if_splits)
  ultimately show ?thesis by blast
qed

definition sample_timing :: "duration \<Rightarrow> redis_value timing" where
  "sample_timing t = \<lparr>tm_permit = Some (t, True), tm_connection = Some (1, Some 7),
     tm_redis = (\<lambda>_ _. None)\<rparr>"

end
