(* ===== verification/Redacted.thy ===== *)
theory Redacted
  imports App_State Policy
begin

text \<open>
  What the values of the bridge show when they are formatted for a log: the \<^verbatim>\<open>Debug\<close> implementations that
  the code writes by hand, because the values hold tokens, hashes, passwords in URLs and the
  arguments of commands. A formatted value is the tree of calls on the formatter.
\<close>

section \<open>Formatted values\<close>

datatype dbg =
    DbgText string
  | DbgStr string
  | DbgNat nat
  | DbgBool bool
  | DbgDuration duration
  | DbgNone
  | DbgSome dbg
  | DbgStruct string "(string \<times> dbg) list"

fun dbg_option :: "('a \<Rightarrow> dbg) \<Rightarrow> 'a option \<Rightarrow> dbg" where
  "dbg_option f None = DbgNone"
| "dbg_option f (Some x) = DbgSome (f x)"

section \<open>The implementations\<close>

definition TokenCaps_debug :: "token_caps \<Rightarrow> dbg" where
  "TokenCaps_debug c = DbgText (caps_config_value c)"

definition TokenHash_debug :: "token_hash \<Rightarrow> dbg" where
  "TokenHash_debug h =
     DbgStruct ''TokenHash'' [(''algorithm'', DbgStr ''hmac-sha256''), (''digest'', DbgStr ''[redacted]'')]"

definition AuthToken_debug :: "auth_token \<Rightarrow> dbg" where
  "AuthToken_debug k = DbgStruct ''AuthToken''
     [(''id'', DbgStr (tok_id k)), (''name'', dbg_option DbgStr (tok_name k)),
      (''hash'', TokenHash_debug (tok_hash k)), (''enabled'', DbgBool (tok_enabled k)),
      (''token_type'', TokenCaps_debug (tok_type k))]"

definition Redis_debug :: "redis_config \<Rightarrow> dbg" where
  "Redis_debug c = DbgStruct ''Redis''
     [(''rrb_id'', DbgStr (rrb_id c)), (''connection_string'', DbgStr ''[redacted]''),
      (''operation_limit'', DbgNat (operation_limit c)),
      (''connection_shards'', DbgNat (connection_shards c)),
      (''token_count'', DbgNat (length (tokens c)))]"

definition SecurityPolicy_debug :: "security_policy \<Rightarrow> dbg" where
  "SecurityPolicy_debug p = DbgStruct ''SecurityPolicy''
     [(''allowed_command_count'', DbgNat (card (allowed_commands p))),
      (''blocked_command_count'', DbgNat (card (blocked_commands p))),
      (''max_pipeline_commands'', DbgNat (max_pipeline_commands p)),
      (''max_command_args'', DbgNat (max_command_args p)),
      (''max_arg_bytes'', DbgNat (max_arg_bytes p))]"

definition Bridge_debug :: "bridge \<Rightarrow> dbg" where
  "Bridge_debug b = DbgStruct ''Bridge''
     [(''host'', DbgStr (br_host b)), (''port'', DbgNat (br_port b)),
      (''target_count'', DbgNat (length (br_targets b))),
      (''security'', SecurityPolicy_debug (br_security b)),
      (''max_body_bytes'', DbgNat (br_max_body_bytes b)),
      (''max_concurrency'', DbgNat (br_max_concurrency b)),
      (''max_realtime_concurrency'', DbgNat (br_max_realtime_concurrency b)),
      (''request_timeout'', DbgDuration (br_request_timeout b)),
      (''acquire_timeout'', DbgDuration (br_acquire_timeout b)),
      (''max_response_bytes'', DbgNat (br_max_response_bytes b)),
      (''metrics_token_configured'', DbgBool (br_metrics_token b \<noteq> None)),
      (''auth_lockout_failures'', DbgNat (br_auth_lockout_failures b)),
      (''auth_lockout_window'', DbgDuration (br_auth_lockout_window b)),
      (''auth_lockout_duration'', DbgDuration (br_auth_lockout_duration b)),
      (''auth_lockout_max_entries'', DbgNat (br_auth_lockout_max_entries b)),
      (''trust_proxy_headers'', DbgBool (br_trust_proxy_headers b)),
      (''trusted_proxy_count'', DbgNat (length (br_trusted_proxies b)))]"

definition RedisTarget_debug :: "redis_target \<Rightarrow> dbg" where
  "RedisTarget_debug t = DbgStruct ''RedisTarget''
     [(''rrb_id'', DbgStr (rrb_id (t_config t))), (''connection_string'', DbgStr ''[redacted]''),
      (''operation_limit'', DbgNat (operation_limit (t_config t))),
      (''connection_shards'', DbgNat (connection_shards (t_config t))),
      (''connections_initialized'', DbgNat (connections_initialized t))]"

definition AuthRoute_debug :: "app_state \<Rightarrow> auth_route \<Rightarrow> dbg" where
  "AuthRoute_debug S r = DbgStruct ''AuthRoute''
     [(''target'', DbgStr (target_id (target_of S r))), (''token_type'', TokenCaps_debug (route_type r))]"

definition AppState_debug :: "app_state \<Rightarrow> dbg" where
  "AppState_debug S = DbgStruct ''AppState''
     [(''target_count'', DbgNat (length (st_targets S))),
      (''security'', SecurityPolicy_debug (st_security S)),
      (''request_timeout'', DbgDuration (st_request_timeout S)),
      (''acquire_timeout'', DbgDuration (st_acquire_timeout S)),
      (''max_response_bytes'', DbgNat (st_max_response_bytes S)),
      (''trust_proxy_headers'', DbgBool (st_trust_proxy_headers S)),
      (''trusted_proxy_count'', DbgNat (length (st_trusted_proxies S))),
      (''realtime_permits_available'', DbgNat (st_realtime_permits S))]"

definition RedisCommand_debug :: "redis_command \<Rightarrow> dbg" where
  "RedisCommand_debug c = DbgStruct ''RedisCommand''
     [(''name'', DbgStr (rc_name c)), (''arg_count'', DbgNat (length (rc_args c)))]"

lemmas debug_defs = TokenCaps_debug_def TokenHash_debug_def AuthToken_debug_def Redis_debug_def
  SecurityPolicy_debug_def Bridge_debug_def RedisTarget_debug_def AuthRoute_debug_def AppState_debug_def
  RedisCommand_debug_def

section \<open>Which texts are shown\<close>

text \<open>Every text of a formatted value, without the names that are fixed in the code.\<close>

fun shown :: "dbg \<Rightarrow> string list" where
  "shown (DbgText s) = [s]"
| "shown (DbgStr s) = [s]"
| "shown (DbgSome d) = shown d"
| "shown (DbgStruct name parts) = concat (map (\<lambda>p. shown (snd p)) parts)"
| "shown _ = []"

section \<open>Properties\<close>

text \<open>C29: Nothing secret is formatted. The only texts a formatted value shows are the host, the ids, names and
  capabilities of targets and tokens, names of commands and the fixed words; and a formatted value stays the same
  when the connection strings, the hashes of tokens, the hash key, the metrics token, the routes of the
  tokens, the table of failures and the arguments of a command are replaced by any others.\<close>
theorem debug_hides_secrets:
  "shown (Bridge_debug b) = [br_host b] \<and> shown (Redis_debug c) = [rrb_id c, ''[redacted]''] \<and>
   shown (RedisTarget_debug t) = [target_id t, ''[redacted]''] \<and> shown (AppState_debug S) = [] \<and>
   shown (RedisCommand_debug cmd) = [rc_name cmd] \<and>
   shown (AuthRoute_debug S r) = [target_id (target_of S r), caps_config_value (route_type r)] \<and>
   set (shown (AuthToken_debug k)) \<subseteq>
     {tok_id k, ''hmac-sha256'', ''[redacted]'', caps_config_value (tok_type k)} \<union> set_option (tok_name k) \<and>
   Redis_debug (c\<lparr>connection_string := url, tokens := map new_token (tokens c)\<rparr>) = Redis_debug c \<and>
   AuthToken_debug (k\<lparr>tok_hash := h\<rparr>) = AuthToken_debug k \<and>
   Bridge_debug (b\<lparr>br_hash_token := key, br_metrics_token := map_option new_secret (br_metrics_token b),
     br_targets := map new_target (br_targets b)\<rparr>) = Bridge_debug b \<and>
   AppState_debug (S\<lparr>st_token_routes := routes, st_hash_token := key, st_metrics_token := metrics_token,
     st_auth_lockout := table, st_targets := map new_redis (st_targets S)\<rparr>) = AppState_debug S \<and>
   RedisCommand_debug (cmd\<lparr>rc_args := map new_arg (rc_args cmd)\<rparr>) = RedisCommand_debug cmd"
  by (cases "tok_name k") (simp_all add: debug_defs target_id_def)

end
