(* ===== verification/Spec2Isabelle.thy ===== *)
theory Spec2Isabelle
  imports Interleaved Throttle Timing Redacted
begin

text \<open>
  \<^bold>\<open>Rubix Redis Bridge\<close>, an HTTP server in Rust that runs Redis commands and subscriptions for clients with
  bearer tokens. A request passes through these parts, and so does the development.

  \<^item> \<^bold>\<open>Rust strings, addresses and UTF-8\<close> (theories \<open>Prelude\<close>, \<open>Rust_Str\<close>, \<open>Rust_Net\<close>, \<open>Rust_Utf8\<close>). What the
    code uses of the standard library: trimming, splitting and ASCII case on byte strings, the
    parser of IP and socket addresses, UTF-8 validity and its lossy decoding. A string of the model is the list
    of its UTF-8 bytes. \<open>Prelude\<close> has results, hash maps as association lists, panics as a value of the
    type \<open>outcome\<close>, and the collections of rewrite rules.
  \<^item> \<^bold>\<open>Command tables and policy\<close> (\<open>Commands\<close>, \<open>Token\<close>, \<open>Policy\<close>; \<^verbatim>\<open>src/commands.rs\<close>, \<^verbatim>\<open>src/config/token.rs\<close>,
    \<^verbatim>\<open>src/config/hash.rs\<close>, \<^verbatim>\<open>src/security\<close>). A body is parsed into commands under the capabilities of the
    token. The lemmas show that a command passes exactly when the specification \<open>admitted\<close> and the limits
    let it, and what no configuration can let through. The locale \<open>command_gate\<close> states what a gate in
    front of Redis promises; the parsers of single commands and of batches are its interpretations.
  \<^item> \<^bold>\<open>Client address\<close> (\<open>Client\<close>; \<^verbatim>\<open>src/client\<close>). The address a failure is charged to: the peer, or what a
    trusted proxy forwards, with CIDR masks at their word width.
  \<^item> \<^bold>\<open>Lockout\<close> (\<open>Lockout\<close>; \<^verbatim>\<open>src/auth/lockout.rs\<close>). The table of failures with its clock, its clean-up and the
    poisoned mutex. It keeps an invariant under every operation and refines a specification with one
    status per address; the locale \<open>failure_table\<close> derives from that what a run of failures does. An
    instant is a number of nanoseconds below \<open>INSTANT_LIMIT\<close>, the range of \<^verbatim>\<open>Instant\<close>; \<open>+\<close> beyond it panics.
  \<^item> \<^bold>\<open>Metrics\<close> (\<open>Metrics\<close>; \<^verbatim>\<open>src/metrics\<close>). The log of all calls on the collectors, and the guards that report on
    drop. The locale \<open>scope_guard\<close> shows that a gauge counts the guards alive, for operations and for
    subscriptions.
  \<^item> \<^bold>\<open>Replies\<close> (\<open>Response\<close>, \<open>Redis_Value\<close>, \<open>Redis_Error\<close>; \<^verbatim>\<open>src/app/error.rs\<close>, \<^verbatim>\<open>src/app/response.rs\<close>,
    \<^verbatim>\<open>src/redis/value.rs\<close>, \<^verbatim>\<open>src/redis/response.rs\<close>, \<^verbatim>\<open>src/redis/error.rs\<close>). A reply is the tree of calls on
    the serializer, written into a body that never exceeds its limit.
  \<^item> \<^bold>\<open>Configuration\<close> (\<open>Config\<close>; \<^verbatim>\<open>src/config\<close>). Environment and token file with every check in its order; a
    bridge that loads satisfies \<open>bridge_ok\<close>.
  \<^item> \<^bold>\<open>State and targets\<close> (\<open>Target\<close>, \<open>App_State\<close>; \<^verbatim>\<open>src/app/state.rs\<close>). Connection shards, their supervisors and the
    requests that wait for them, as a step relation in which each atomic access of the code is a step; the
    lemmas are invariants of all interleavings, and that no wake-up is lost. The state of the bridge is a record
    built from the configuration; a route names its target by position.
  \<^item> \<^bold>\<open>Authentication\<close> (\<open>Auth\<close>, \<open>Guessing\<close>, \<open>Throttle\<close>; \<^verbatim>\<open>src/auth/request.rs\<close>). It decides by the token alone, and
    refused requests lock their address out. The locale \<open>throttled\<close> states what whatever answers requests before
    a table of failures promises, and derives the answers to one address from the instants of its own failures, while
    requests of others come between them. Its interpretations are the authentications (\<open>Guessing\<close>) and
    whole HTTP requests (\<open>Throttle\<close>), whatever headers, tokens and routes a client varies. The table has room for an
    address or has not, which the properties say: an address without room is refused but not throttled.
  \<^item> \<^bold>\<open>Operations and handlers\<close> (\<open>Execute\<close>, \<open>Handlers\<close>; \<^verbatim>\<open>src/redis/execute.rs\<close>, \<^verbatim>\<open>src/app/handlers.rs\<close>). How each
    wait of an operation ends (\<open>weather\<close>) is an input, what is sent to Redis an output. The locale
    \<open>command_route\<close>, an extension of \<open>command_gate\<close>, has the proofs shared by the three command
    routes, its interpretations. The permits of a target are a step relation of their own. \<open>Timing\<close> has the same
    operation with the duration of every wait as input: the nested timeouts compute the weather and when the
    operation ends, which it always does, within the request timeout.
  \<^item> \<^bold>\<open>Subscriptions\<close> (\<open>Realtime\<close>; \<^verbatim>\<open>src/app/realtime.rs\<close>). The handler in two halves around its wait, the stream as
    a function of what happens to it, and all subscriptions of a bridge as a step relation, with the invariant of
    their permits.
  \<^item> \<^bold>\<open>Formatted values\<close> (\<open>Redacted\<close>). The \<^verbatim>\<open>Debug\<close> implementations written by hand, as trees of calls on the
    formatter, and that they show no secret.
  \<^item> \<^bold>\<open>The server\<close> (\<open>Server\<close>, \<open>Routes\<close>, \<open>Http\<close>, \<open>Interleaved\<close>; \<^verbatim>\<open>src/main.rs\<close>). Start-up in its order, the
    table of paths, methods and layers, the log filter and the shutdown signals. \<open>Http\<close> puts the parts
    together: a request goes through table and extractors to its handler. \<open>Interleaved\<close> is the server at work, a
    step relation in which requests, commands that wait for Redis, subscriptions and streams overlap, with
    a log of what was answered and sent. A handler is split at its wait, and the halves are proved to be the handler; the
    operations behind their first halves queue for the permits of their target, hold them and give them back.
    Each entry of the log is what the whole handler does in some state of the same bridge. The
    theorems of this theory are about that log: who is let in by a bridge that has started, what can
    reach Redis, that tenants interfere only through the permits of a target they share, and that no sequence of
    requests makes it panic.

  \<^bold>\<open>Parameters.\<close> Code of other packages is an argument of the definitions: the hash functions and the hex decoder
  (\<open>digests\<close>), base64 and the text of doubles (\<open>codec\<close>), the JSON writer and the Prometheus encoder
  (\<open>surroundings\<close>), the Redis URL check, the registry and the largest semaphore (\<open>libraries\<close>), the
  environment, files and JSON parser (\<open>host\<close>), axum's path matching (\<open>matcher\<close>, with its documented
  behaviour as the hypothesis \<open>path_matching\<close>), its extractors (\<open>extraction\<close>) and its server-sent events
  (\<open>transport\<close>, with \<open>sse_transport\<close>). The waits of a handler come as
  \<open>weather\<close> with the request; only \<open>Timing\<close> states what the runtime's \<^verbatim>\<open>timeout\<close> does with a wait.

  \<^bold>\<open>Bounds.\<close> No definition has fuel: loops of the code that run for ever are step relations or functions of the
  events that drive them, the others are structural. \<^verbatim>\<open>usize\<close> values are natural numbers with \<open>usize_max\<close> where
  the code saturates or parses them, and words where it wraps: generations, revisions and shard counters.

  \<^bold>\<open>Not modelled.\<close> Log messages; the work inside axum and tower, which is how the body and concurrency limits of
  the table act, and tracing; the encoding of server-sent events and the keep-alive comments, where a
  panic would drop the stream as a disconnect does; the delivery of signals and how open connections are
  drained after one; accessors compiled only for tests. They are calls of libraries, or have no state of
  their own. In \<open>Interleaved\<close> an authentication with its accounting is one step, the clocks of authentications do not
  overlap, and the outcome of a wait is given, that of the wait for a permit as far as it fits what the limiter did: an
  acquisition that finds a free permit completes, which leaves out the runtime's cooperative budget. How
  connections are shared is the subject of the step relation of \<open>Target\<close>.
\<close>

section \<open>A server for the examples\<close>

definition sample_libraries :: libraries where
  "sample_libraries = \<lparr>lib_client_open = (\<lambda>_. True), lib_create = (\<lambda>_. Ok ()),
     lib_enter = (\<lambda>d ds. Ok (d # ds)), lib_max_permits = 2 ^ 61 - 1\<rparr>"

lemma try_each_all_ok:
  "(\<And>x s. \<exists>s'. f x s = Ok s') \<Longrightarrow> is_ok (try_each f xs s)"
proof (induction xs arbitrary: s)
  case (Cons x xs)
  obtain s' where "f x s = Ok s'" using Cons.prems by blast
  then show ?case using Cons.IH [of s'] Cons.prems by simp
qed simp

lemma sample_metrics: "is_ok (Metrics_new (lib_create sample_libraries) (lib_enter sample_libraries) [])"
proof -
  obtain u where "try_each (\<lambda>m _. lib_create sample_libraries (collector m)) all_collectors () = Ok u"
    using try_each_all_ok [of "\<lambda>m _. lib_create sample_libraries (collector m)" all_collectors "()"]
    by (cases "try_each (\<lambda>m _. lib_create sample_libraries (collector m)) all_collectors ()")
       (auto simp: sample_libraries_def)
  moreover have "is_ok (try_each (\<lambda>m. lib_enter sample_libraries (collector m)) all_collectors [])"
    by (rule try_each_all_ok) (simp add: sample_libraries_def)
  ultimately show ?thesis by (simp add: Metrics_new_def Collectors_new_def Collectors_register_def)
qed

lemma from_env_bind:
  assumes "from_env H = Ok b"
  shows "br_host b = env_or (host_env H) ''RRB_HOST'' ''0.0.0.0''"
    and "parse_env_or_default (host_env H) (parse_uint u16_max) ''RRB_PORT'' 8080 = Ok (br_port b)"
    and "parse_env_or_default (host_env H) (parse_uint usize_max) ''RRB_REALTIME_MAX_CONCURRENCY'' 1024 =
      Ok (br_max_realtime_concurrency b)"
    and "parse_env_or_default (host_env H) (parse_uint usize_max) ''RRB_MAX_CONCURRENCY'' 1024 = Ok (br_max_concurrency b)"
    and "\<exists>s. parse_env_or_default (host_env H) (parse_uint u64_max) ''RRB_AUTH_LOCKOUT_SECONDS'' 300 = Ok s \<and>
      br_auth_lockout_duration b = from_secs s"
  using assms unfolding from_env_def Let_def by clarsimp+

lemma sample_start:
  obtains b srv where "from_env sample_host = Ok b" and "bind_address b = Some (ipv4 0 0 0 0)"
    and "libraries_accept sample_libraries b"
    and "start sample_host sample_libraries (\<lambda>_ _. True) = Done (Ok srv)"
    and "br_auth_lockout_duration b = from_secs 300"
    and "br_targets b = [\<lparr>rrb_id = ''env'', connection_string = ''redis://r'',
     operation_limit = 100, connection_shards = 4,
     tokens = [\<lparr>tok_id = ''env'', tok_name = Some ''Environment token'', tok_hash = TokenHash ''secret'',
                tok_enabled = True, tok_type = TokenCaps_command\<rparr>]\<rparr>]"
proof -
  obtain b where b: "from_env sample_host = Ok b" using sample_from_env by blast
  note f = from_env_bind [OF b]
  have env: "host_env sample_host k = NotPresent" if "k \<notin> {''RRB_MODE'', ''RRB_TOKEN'', ''REDIS_URL''}" for k
    using that by (simp add: sample_host_def)
  have h: "br_host b = ''0.0.0.0''" "br_port b = 8080" "br_max_realtime_concurrency b = 1024"
      "br_max_concurrency b = 1024" "br_auth_lockout_duration b = from_secs 300"
    using f by (simp_all add: env env_or_def parse_env_or_default_def)
  have "show_ipv4 0 0 0 0 = ''0.0.0.0''" by code_simp
  then have a: "bind_address b = Some (ipv4 0 0 0 0)"
    using parse_show_socket(2) [of 0 0 0 0 8080] by (simp add: bind_address_def h)
  have t: "br_targets b = [\<lparr>rrb_id = ''env'', connection_string = ''redis://r'',
     operation_limit = 100, connection_shards = 4,
     tokens = [\<lparr>tok_id = ''env'', tok_name = Some ''Environment token'', tok_hash = TokenHash ''secret'',
                tok_enabled = True, tok_type = TokenCaps_command\<rparr>]\<rparr>]"
    using from_env_security(3) [OF b] by (simp add: sample_targets)
  have l: "libraries_accept sample_libraries b"
    using sample_metrics h by (simp add: libraries_accept_def t) (simp add: sample_libraries_def)
  obtain S where "AppState_new sample_libraries b = Done (Ok S)"
    using AppState_new_Ok [OF from_env_bridge_ok [OF b] l] by blast
  moreover have "br_max_concurrency b \<le> lib_max_permits sample_libraries" by (simp add: h sample_libraries_def)
  ultimately have "\<exists>srv. start sample_host sample_libraries (\<lambda>_ _. True) = Done (Ok srv)"
    using a b by (simp add: start_def)
  then show thesis using that b a l h(5) t by blast
qed

section \<open>Properties of the whole bridge\<close>

text \<open>C28: The bridge starts exactly when it can: its configuration loads, its bind address is an address, the
  libraries accept it, which includes that every limit of it fits into a semaphore, and the port is free; then it has one supervisor for every shard of every target, and
  reports that it is not ready until they have connected.\<close>
theorem start_up_decided:
  "((\<exists>srv. start H L listens = Done (Ok srv)) \<longleftrightarrow>
     (\<exists>b a. from_env H = Ok b \<and> bind_address b = Some a \<and> libraries_accept L b \<and>
       br_max_concurrency b \<le> lib_max_permits L \<and> listens a (br_port b))) \<and>
   (\<forall>srv b. start H L listens = Done (Ok srv) \<and> from_env H = Ok b \<longrightarrow>
     map length (srv_workers srv) = map connection_shards (br_targets b) \<and>
     resp_status (readyz (srv_state srv)) = 503)"
proof -
  have "\<exists>srv. start H L listens = Done (Ok srv)"
    if "from_env H = Ok b" "bind_address b = Some a" "libraries_accept L b" "br_max_concurrency b \<le> lib_max_permits L"
      "listens a (br_port b)" for b a
    using AppState_new_Ok [OF from_env_bridge_ok [OF that(1)] that(3)] that by (auto simp: start_def)
  moreover have "\<exists>b a. from_env H = Ok b \<and> bind_address b = Some a \<and> libraries_accept L b \<and>
       br_max_concurrency b \<le> lib_max_permits L \<and> listens a (br_port b)"
    if "start H L listens = Done (Ok srv)" for srv
    using started [OF that] by metis
  moreover have "map length (srv_workers srv) = map connection_shards (br_targets b) \<and>
      resp_status (readyz (srv_state srv)) = 503"
    if s: "start H L listens = Done (Ok srv)" "from_env H = Ok b" for srv b
  proof -
    have "bridge_ok b" "srv_workers srv = start_connection_workers (srv_state srv)"
      using started [OF s(1)] s(2) by (metis sum.inject(2))+
    moreover have "\<not> targets_ready (srv_state srv)"
      using started_state(2) [OF s] by (auto simp: targets_ready_def list_all_iff RedisTarget_new_def)
    ultimately show ?thesis
      using started_state(2) [OF s]
      by (simp add: start_connection_workers_def RedisTarget_new_def readyz_def api_error_defs)
  qed
  ultimately show ?thesis by blast
qed

theorem start_up_decided_witness:
  "\<exists>srv. start sample_host sample_libraries (\<lambda>_ _. True) = Done (Ok srv) \<and> map length (srv_workers srv) = [4]"
proof -
  obtain b srv where s: "from_env sample_host = Ok b" "start sample_host sample_libraries (\<lambda>_ _. True) = Done (Ok srv)"
    and t: "br_targets b = [\<lparr>rrb_id = ''env'', connection_string = ''redis://r'',
     operation_limit = 100, connection_shards = 4,
     tokens = [\<lparr>tok_id = ''env'', tok_name = Some ''Environment token'', tok_hash = TokenHash ''secret'',
                tok_enabled = True, tok_type = TokenCaps_command\<rparr>]\<rparr>]"
    by (rule sample_start)
  have "map length (srv_workers srv) = map connection_shards (br_targets b)"
    using conjunct2 [OF start_up_decided [of sample_host sample_libraries "\<lambda>_ _. True"]] s by blast
  then show ?thesis using s(2) t by simp
qed

text \<open>C3: Exactly the configured tokens are let in. On a started bridge a request gets a route if and only if
  it carries a bearer token whose hash, keyed when a hash key is configured, is that of an enabled token
  of the configuration; the route is the target and the capabilities of that token.\<close>
theorem configured_tokens_only:
  assumes "start H L listens = Done (Ok srv)" and "from_env H = Ok b"
  shows "route_for D (srv_state srv) headers = Some route \<longleftrightarrow>
    (\<exists>token i k. bearer headers = Some token \<and> i < length (br_targets b) \<and>
      k \<in> set (tokens (br_targets b ! i)) \<and> tok_enabled k \<and>
      tok_hash k = (case br_hash_token b of Some key \<Rightarrow> TokenHash_hmac_sha256 D key token
        | None \<Rightarrow> TokenHash_sha256 D token) \<and>
      route = \<lparr>route_target = i, route_type = tok_type k\<rparr>)"
  using started_state(1,3) [OF assms]
  by (auto simp: route_for_def request_hash_def route_spec_def bind_eq_Some_conv)

theorem configured_tokens_only_witness:
  "\<exists>srv. start sample_host sample_libraries (\<lambda>_ _. True) = Done (Ok srv) \<and>
     route_for (host_digests sample_host) (srv_state srv) (\<lambda>_. None) = None"
proof -
  obtain b srv where s: "from_env sample_host = Ok b" "start sample_host sample_libraries (\<lambda>_ _. True) = Done (Ok srv)"
    by (rule sample_start)
  have "bearer (\<lambda>_. None) = None" by (simp add: bearer_def)
  then show ?thesis
    using configured_tokens_only [OF s(2,1), of "host_digests sample_host" "\<lambda>_. None"] s(2) by auto
qed

lemma env_target_token:
  assumes "load_env_target D env = Ok ts" and "env ''RRB_TOKEN'' = Present token"
  shows "\<exists>c k. ts = [c] \<and> tokens c = [k] \<and> tok_enabled k \<and> trim token \<noteq> [] \<and>
    tok_hash k = TokenHash_sha256 D (trim token) \<and> allows_command_route (tok_type k)"
  using assms
  by (auto simp: load_env_target_def env_first_def trimmed_nonempty_def simp del: find_map.simps(1)
      dest: parse_token_type_route split: if_splits)

text \<open>In environment mode the client that sends the configured token is let in: a started bridge gives
  \<^verbatim>\<open>Authorization: Bearer\<close> with the trimmed value of \<^verbatim>\<open>RRB_TOKEN\<close> a route to the one target.\<close>
theorem env_token_authenticates:
  assumes "start H L listens = Done (Ok srv)" and "host_env H ''RRB_MODE'' = Present ''env''"
    and "host_env H ''RRB_TOKEN'' = Present token" and "headers ''authorization'' = Some (''Bearer '' @ token)"
  shows "\<exists>caps. route_for (host_digests H) (srv_state srv) headers =
      Some \<lparr>route_target = 0, route_type = caps\<rparr> \<and> allows_command_route caps \<and>
    length (st_targets (srv_state srv)) = 1"
proof -
  obtain b where b: "from_env H = Ok b" using started [OF assms(1)] by metis
  have "load_env_target (host_digests H) (host_env H) = Ok (br_targets b)" and key: "br_hash_token b = None"
    using from_env_security(3,4) [OF b] assms(2) by (simp_all add: load_targets_def env_or_def)
  then obtain c k where t: "br_targets b = [c]" "tokens c = [k]" "tok_enabled k" "trim token \<noteq> []"
      "tok_hash k = TokenHash_sha256 (host_digests H) (trim token)" "allows_command_route (tok_type k)"
    using env_target_token [of "host_digests H" "host_env H"] assms(3) by blast
  have "route_spec (br_targets b) (tok_hash k) \<lparr>route_target = 0, route_type = tok_type k\<rparr>"
    using t(1-3) by (simp add: route_spec_def)
  then have "route_for (host_digests H) (srv_state srv) headers = Some \<lparr>route_target = 0, route_type = tok_type k\<rparr>"
    using bearer_header [of headers token, OF assms(4) t(4)] started_state(1,3) [OF assms(1) b] key t(5)
    by (simp add: route_for_def request_hash_def)
  then show ?thesis using t(1,6) started_state(2) [OF assms(1) b] by simp
qed

theorem env_token_authenticates_witness:
  "\<exists>srv caps. start sample_host sample_libraries (\<lambda>_ _. True) = Done (Ok srv) \<and>
     route_for (host_digests sample_host) (srv_state srv) (sample_headers ''secret'') =
       Some \<lparr>route_target = 0, route_type = caps\<rparr>"
proof -
  obtain srv where s: "start sample_host sample_libraries (\<lambda>_ _. True) = Done (Ok srv)"
    by (rule sample_start)
  have "host_env sample_host ''RRB_MODE'' = Present ''env''" "host_env sample_host ''RRB_TOKEN'' = Present ''secret''"
      "sample_headers ''secret'' ''authorization'' = Some (''Bearer '' @ ''secret'')"
    by (simp_all add: sample_host_def sample_headers_def)
  from env_token_authenticates [where token = "''secret''" and headers = "sample_headers ''secret''", OF s this] s show ?thesis by blast
qed

lemma GET_allowed: "''GET'' \<in> set ALLOWED_COMMANDS" "''GET'' \<notin> denied_commands"
proof -
  show "''GET'' \<in> set ALLOWED_COMMANDS" by (simp add: ALLOWED_COMMANDS_def)
  then show "''GET'' \<notin> denied_commands" using allowed_disjoint by blast
qed

lemma from_env_limits:
  assumes "from_env H = Ok b"
  shows "parse_env_or_default (host_env H) (parse_uint usize_max) ''RRB_MAX_COMMAND_ARGS'' 256 =
      Ok (max_command_args (br_security b))"
    and "parse_env_or_default (host_env H) (parse_uint usize_max) ''RRB_MAX_ARG_BYTES'' (256 * 1024) =
      Ok (max_arg_bytes (br_security b))"
    and "parse_env_or_default (host_env H) (parse_uint usize_max) ''RRB_MAX_RESPONSE_BYTES'' (10 * 1024 * 1024) =
      Ok (br_max_response_bytes b)"
  using assms unfolding from_env_def Let_def by clarsimp+

text \<open>A request from the environment's token to Redis.\<close>

lemma sample_server_call:
  assumes "from_env sample_host = Ok b" and "start sample_host sample_libraries (\<lambda>_ _. True) = Done (Ok srv)"
  shows "\<exists>en S'. handle_api sample_surroundings sample_clock sample_call (srv_state srv) =
      (en, S', [(0, WireCommand (''GET'', [''key'']))])"
proof -
  have env: "host_env sample_host k = NotPresent" if "k \<notin> {''RRB_MODE'', ''RRB_TOKEN'', ''REDIS_URL''}" for k
    using that by (simp add: sample_host_def)
  note S = started_state [OF assms(2,1)]
  have lim: "max_command_args (br_security b) = 256" "max_arg_bytes (br_security b) = 262144"
      "br_max_response_bytes b = 10485760"
    using from_env_limits [OF assms(1)] by (simp_all add: env parse_env_or_default_def)
  have "admitted (br_security b) TokenCaps_command ''GET''"
    using from_env_security(1,2) [OF assms(1)] GET_allowed
    by (auto simp: admitted_def env default_blocked_eq allows_command_def TokenCaps_command_def)
  then have p: "parse_command (br_security b) [ArgString '' get '', ArgString ''key''] TokenCaps_command =
      Ok \<lparr>rc_name = ''GET'', rc_args = [''key'']\<rparr>"
    unfolding parse_command_def parse_command_array_Ok by (simp add: lim normal_name_examples)
  have "lockout_ready sample_clock (srv_state srv)"
    using from_env_bind(5) [OF assms(1)]
    by (simp add: lockout_ready_def S(5) lockout_inv_new)
       (simp add: AuthLockout_new_def env parse_env_or_default_def from_secs_def INSTANT_LIMIT_def)
  moreover have "route_for sample_digests (srv_state srv) (sample_headers ''secret'') =
      Some \<lparr>route_target = 0, route_type = TokenCaps_command\<rparr>"
  proof -
    have "br_targets b = [\<lparr>rrb_id = ''env'', connection_string = ''redis://r'',
        operation_limit = 100, connection_shards = 4,
        tokens = [\<lparr>tok_id = ''env'', tok_name = Some ''Environment token'', tok_hash = TokenHash ''secret'',
          tok_enabled = True, tok_type = TokenCaps_command\<rparr>]\<rparr>]"
      using from_env_security(3) [OF assms(1)] by (simp add: sample_targets)
    then have "route_spec (br_targets b) (TokenHash ''secret'') \<lparr>route_target = 0, route_type = TokenCaps_command\<rparr>"
      by (simp add: route_spec_def)
    moreover have "br_hash_token b = None"
      using from_env_security(4) [OF assms(1)] by (simp add: env_or_def sample_host_def)
    ultimately show ?thesis
      using S(1,3) by (simp add: route_for_def sample_bearer request_hash_def sample_digests_def TokenHash_sha256_def)
  qed
  ultimately show ?thesis
    using command_served [of sample_clock "srv_state srv" sample_surroundings
        "sample_request ''secret'' [ArgString '' get '', ArgString ''key'']"
        "\<lparr>route_target = 0, route_type = TokenCaps_command\<rparr>" "[ArgString '' get '', ArgString ''key'']"
        "\<lparr>rc_name = ''GET'', rc_args = [''key'']\<rparr>"
        "sample_weather Okay" 7 Okay "[''{'', ''1'', ''}'']"]
      sample_allows p lim S(4,7)
    by (auto simp: sample_call_def sample_request_def sample_surroundings_def sample_weather_def wire_form_def)
qed

lemma admitted_denied:
  "admitted p t name \<Longrightarrow> name \<in> denied_commands \<Longrightarrow>
   cap_ratelimit t \<and> name \<in> set RATELIMIT_COMMANDS \<or> cap_realtime t \<and> name = ''PUBLISH''"
  using realtime_denied
  by (auto simp: admitted_def scoped_def realtime_commands_def ratelimit_commands_def denied_commands_def
      allows_ratelimit_def allows_realtime_def)

lemma started_lockout:
  assumes "start H L listens = Done (Ok srv)" and "from_env H = Ok b"
  shows "lockout_at 0 (br_auth_lockout_duration b) (srv_state srv)"
  using started_state(5) [OF assms] by (simp add: lockout_at_def lockout_inv_new, simp add: AuthLockout_new_def)

text \<open>C1: End to end, no configuration and no client gets past the policy. Whatever HTTP requests a started bridge receives,
  and however they and the open subscriptions interleave: what is sent to Redis while one of them is
  answered is sent for a \<^verbatim>\<open>POST\<close> whose bearer token has the hash of an enabled token of the configuration,
  and to the target of that token. A command is sent from the command routes only, with the
  right to use them, is within the limits, never changes the state of the shared connection, and is never
  hard-denied unless the token has the capability whose profile excepts it; a subscription is sent with the capability for subscriptions only, to the channel of its path.\<close>
theorem end_to_end_policy:
  assumes "start H L listens = Done (Ok srv)" and "from_env H = Ok b" and "path_matching (wb_matcher X)"
    and "site_reach X (srv_body_limit srv) (srv_state srv) w"
    and "(req, a, sent) \<in> set (si_log w)" and "(i, msg) \<in> set sent"
  shows "in_method req = POST \<and> i < length (br_targets b) \<and>
    (\<exists>k \<in> set (tokens (br_targets b ! i)). tok_enabled k \<and>
      (\<exists>token. bearer (in_headers req) = Some token \<and>
        tok_hash k = request_hash (su_digests (wb_surroundings X)) (srv_state srv) token) \<and>
      (case msg of
         ToRedis w \<Rightarrow> in_path req \<in> {''/'', ''/pipeline'', ''/multi-exec''} \<and> allows_command_route (tok_type k) \<and>
           (\<forall>(name, args) \<in> set (wire_commands w). admitted (br_security b) (tok_type k) name \<and>
             within_limits (br_security b) \<lparr>rc_name = name, rc_args = args\<rparr> \<and>
             name \<notin> set CONNECTION_COMMANDS \<union> transaction_commands \<and>
             (name \<in> denied_commands \<longrightarrow>
               cap_ratelimit (tok_type k) \<and> name \<in> set RATELIMIT_COMMANDS \<or>
               cap_realtime (tok_type k) \<and> name = ''PUBLISH''))
       | ToPubSub channel \<Rightarrow> allows_realtime (tok_type k) \<and>
           (\<exists>c. in_path req = ''/subscribe/'' @ c \<and> ex_channel (wb_extraction X) c = Ok channel)))"
proof -
  obtain S where S: "same_config (srv_state srv) S" "(i, msg) \<in> set (ef_sent (respond X (srv_body_limit srv) req S))"
    using site_log_entry [OF assms(4) started_lockout [OF assms(1,2)] assms(5)] assms(6) by metis
  note sent = respond_sent [OF S(2) assms(3)] and F = same_config_fields [OF S(1)]
  obtain route where r: "route_for (su_digests (wb_surroundings X)) (srv_state srv) (in_headers req) = Some route"
      "i = route_target route" "route_for (su_digests (wb_surroundings X)) S (in_headers req) = Some route"
    using sent same_config_route [OF S(1)] by auto
  then obtain token k where k: "bearer (in_headers req) = Some token" "i < length (br_targets b)"
      "k \<in> set (tokens (br_targets b ! i))" "tok_enabled k" "route_type route = tok_type k"
      "tok_hash k = request_hash (su_digests (wb_surroundings X)) (srv_state srv) token"
    using started_state(1) [OF assms(1,2)] by (auto simp: route_for_def route_spec_def bind_eq_Some_conv)
  have "st_security S = br_security b" using F(3) started_state(4) [OF assms(1,2)] by simp
  then show ?thesis
    using sent r(3) k admitted_denied [of "br_security b" "tok_type k"]
    by (cases msg)
       (auto simp: route_allows_command_route_def route_allows_realtime_def intro!: bexI [of _ k])
qed

definition sample_web :: web where
  "sample_web = \<lparr>wb_matcher = example_matcher,
     wb_extraction = \<lparr>ex_command = (\<lambda>_ _ _. Ok [ArgString '' get '', ArgString ''key'']),
       ex_commands = (\<lambda>_ _ _. Err ()), ex_channel = Ok\<rparr>,
     wb_surroundings = sample_surroundings\<rparr>"

definition sample_incoming :: "string \<Rightarrow> incoming" where
  "sample_incoming token = \<lparr>in_clock = sample_clock, in_method = POST, in_path = ''/'', in_peer = ipv4 1 2 3 4,
     in_headers = sample_headers token, in_body = [], in_command = sample_weather Okay,
     in_pipeline = sample_weather [], in_transaction = sample_weather [], in_pubsub = sample_pubsub\<rparr>"

lemma sample_incoming_call: "request_call sample_web limit (sample_incoming ''secret'') = ApiCall sample_call"
  by (simp add: request_call_def sample_web_def sample_incoming_def route_defs example_matcher_def sample_call_def
      sample_request_def)

text \<open>The request on a started server, from its arrival to its answer.\<close>

lemma route_permits:
  assumes "start H L listens = Done (Ok srv)" and "from_env H = Ok b"
    and "route_for D (srv_state srv) headers = Some route"
  shows "target_permits (srv_state srv) (route_target route) = operation_limit (br_targets b ! route_target route)"
    and "0 < operation_limit (br_targets b ! route_target route)"
proof -
  have i: "route_target route < length (br_targets b)"
    using assms(3) started_state(1) [OF assms(1,2)] by (auto simp: route_for_def route_spec_def bind_eq_Some_conv)
  then show "target_permits (srv_state srv) (route_target route) = operation_limit (br_targets b ! route_target route)"
    by (simp add: target_permits_def started_state(2) [OF assms(1,2)] RedisTarget_new_def)
  show "0 < operation_limit (br_targets b ! route_target route)"
    using from_env_bridge_ok [OF assms(2)] i by (auto simp: bridge_ok_def targets_ok_def target_ok_def list_all_length)
qed

lemma sample_site:
  assumes "from_env sample_host = Ok b" and "start sample_host sample_libraries (\<lambda>_ _. True) = Done (Ok srv)"
  obtains w a where "site_reach sample_web (srv_body_limit srv) (srv_state srv) w" and "si_time w = 1"
    and "si_log w = [(sample_incoming ''secret'', a, [(0, ToRedis (WireCommand (''GET'', [''key''])))])]"
proof -
  let ?req = "sample_incoming ''secret''"
  have in_web: "in_clock ?req = sample_clock" "wb_surroundings sample_web = sample_surroundings"
    by (simp_all add: sample_incoming_def sample_web_def)
  obtain en S' where h: "handle_api sample_surroundings sample_clock sample_call (srv_state srv) =
      (en, S', [(0, WireCommand (''GET'', [''key'']))])"
    using sample_server_call [OF assms] by blast
  then obtain p S1 where p: "api_begin sample_surroundings sample_clock sample_call (srv_state srv) = (Ok p, S1)"
      "api_finish sample_surroundings p S1 = (en, S', [(0, WireCommand (''GET'', [''key'']))])"
    by (auto simp: handle_api_halves split: prod.splits sum.splits)
  have "route_for (su_digests sample_surroundings) (srv_state srv) (call_headers sample_call) = Some (po_route p)"
    by (rule api_begin_route [OF p(1)])
  from route_permits [OF assms(2,1) this] have t: "0 < target_permits (srv_state srv) (po_target p)"
    by (simp add: po_target_def)
  have o: "on_time ?req (site_init (srv_state srv))" by (simp add: on_time_def site_init_def in_web)
  have c: "call_acquire sample_call = Completes Permit" by (simp add: sample_call_def sample_weather_def)
  obtain w where w: "site_reach sample_web (srv_body_limit srv) (srv_state srv) w" "si_time w = later (in_clock ?req)"
      "si_log w = [(?req, ending_answer en, map (map_prod id ToRedis) [(0, WireCommand (''GET'', [''key'']))])]"
    by (rule serve_alone [OF sample_incoming_call o p(1) [folded in_web] c t p(2) [folded in_web]])
  show thesis by (rule that [OF w(1), of "ending_answer en"]) (simp_all add: w in_web)
qed

theorem end_to_end_policy_witness:
  "\<exists>b srv w a. from_env sample_host = Ok b \<and>
     start sample_host sample_libraries (\<lambda>_ _. True) = Done (Ok srv) \<and>
     site_reach sample_web (srv_body_limit srv) (srv_state srv) w \<and>
     si_log w = [(sample_incoming ''secret'', a, [(0, ToRedis (WireCommand (''GET'', [''key''])))])] \<and>
     (\<exists>k \<in> set (tokens (br_targets b ! 0)). admitted (br_security b) (tok_type k) ''GET'')"
proof -
  obtain b srv where s: "from_env sample_host = Ok b" "start sample_host sample_libraries (\<lambda>_ _. True) = Done (Ok srv)"
    by (rule sample_start)
  obtain w a where w: "site_reach sample_web (srv_body_limit srv) (srv_state srv) w"
      "si_log w = [(sample_incoming ''secret'', a, [(0, ToRedis (WireCommand (''GET'', [''key''])))])]"
    by (rule sample_site [OF s])
  have m: "path_matching (wb_matcher sample_web)" by (simp add: sample_web_def example_matcher_ok)
  from end_to_end_policy [OF s(2,1) m w(1), of "sample_incoming ''secret''" a _ 0 "ToRedis (WireCommand (''GET'', [''key'']))"] s w
  show ?thesis by fastforce
qed

text \<open>C8: No sequence of requests makes the bridge panic. From its start on, whatever HTTP requests of whatever
  clients arrive and however they interleave, as long as a lockout would end within the range of
  instants, no handler panics.\<close>
theorem server_never_panics:
  assumes "start H L listens = Done (Ok srv)" and "from_env H = Ok b"
    and "site_reach X (srv_body_limit srv) (srv_state srv) w"
    and "si_time w + br_auth_lockout_duration b < INSTANT_LIMIT" and "(req, a, sent) \<in> set (si_log w)"
  shows "a \<noteq> Crash"
  using site_log_entry [OF assms(3) started_lockout [OF assms(1,2)] assms(5)] assms(4) respond_kept(2) by metis

theorem server_never_panics_witness:
  "\<exists>srv w a. start sample_host sample_libraries (\<lambda>_ _. True) = Done (Ok srv) \<and>
     site_reach sample_web (srv_body_limit srv) (srv_state srv) w \<and>
     si_log w = [(sample_incoming ''secret'', a, [(0, ToRedis (WireCommand (''GET'', [''key''])))])] \<and> a \<noteq> Crash"
proof -
  obtain b srv where s: "from_env sample_host = Ok b" "start sample_host sample_libraries (\<lambda>_ _. True) = Done (Ok srv)"
      "br_auth_lockout_duration b = from_secs 300"
    by (rule sample_start)
  obtain w a where w: "site_reach sample_web (srv_body_limit srv) (srv_state srv) w" "si_time w = 1"
      "si_log w = [(sample_incoming ''secret'', a, [(0, ToRedis (WireCommand (''GET'', [''key''])))])]"
    by (rule sample_site [OF s(1,2)])
  have "si_time w + br_auth_lockout_duration b < INSTANT_LIMIT"
    by (simp add: w(2) s(3) from_secs_def INSTANT_LIMIT_def)
  from server_never_panics [OF s(2,1) w(1) this] w s(2) show ?thesis by fastforce
qed



text \<open>C18: A saturated target is reported as such. On every bridge that has started, an operation that gets no permit within the
  acquire timeout is answered with 429 exactly then, before the request timeout could turn it into
  504; and an operation that got its permit, or found the limiter closed, is never answered with 429.\<close>
theorem saturated_target_reported:
  assumes "start H L listens = Done (Ok srv)"
    and "timed_operation target kind msg (st_request_timeout (srv_state srv)) (st_acquire_timeout (srv_state srv)) T w f M =
      (t, r, M')"
  shows "((\<exists>e. r = Err e \<and> ae_status e = 429) \<longleftrightarrow>
      (case tm_permit T of None \<Rightarrow> True | Some (t1, _) \<Rightarrow> st_acquire_timeout (srv_state srv) < t1)) \<and>
    ((\<exists>e. r = Err e \<and> ae_status e = 429) \<longrightarrow> t = st_acquire_timeout (srv_state srv))"
proof -
  obtain b where b: "bridge_ok b" "AppState_new L b = Done (Ok (srv_state srv))"
    using started [OF assms(1)] by metis
  then have "st_request_timeout (srv_state srv) = br_request_timeout b"
      "st_acquire_timeout (srv_state srv) = br_acquire_timeout b"
    by (auto simp: AppState_new_def split: sum.splits outcome.splits prod.splits if_splits
        dest!: sym [of _ "srv_state srv"])
  then show ?thesis using saturation_reported [OF _ assms(2)] b(1) by (simp add: bridge_ok_def)
qed

definition sample_timing :: "redis_value timing" where
  "sample_timing = \<lparr>tm_permit = None, tm_connection = Some (1, Some 7), tm_redis = (\<lambda>_ _. None)\<rparr>"

theorem saturated_target_reported_witness:
  "\<exists>srv t e M'. start sample_host sample_libraries (\<lambda>_ _. True) = Done (Ok srv) \<and>
     timed_operation ''t'' ''command'' ''m'' (st_request_timeout (srv_state srv)) (st_acquire_timeout (srv_state srv))
       sample_timing (WireCommand (''GET'', [])) id [] = (t, Err e, M') \<and> ae_status e = 429"
proof -
  obtain srv where s: "start sample_host sample_libraries (\<lambda>_ _. True) = Done (Ok srv)"
    by (rule sample_start)
  obtain t r M' where o: "timed_operation ''t'' ''command'' ''m'' (st_request_timeout (srv_state srv))
      (st_acquire_timeout (srv_state srv)) sample_timing (WireCommand (''GET'', [])) id [] = (t, r, M')"
    by (metis prod_cases3)
  show ?thesis
    using saturated_target_reported [OF s o] s o by (auto simp: sample_timing_def)
qed

end
